(* ===== verification/Go_Prelude.thy ===== *)
theory Go_Prelude
  imports Main "HOL-Library.Word" "HOL-Library.Multiset" "HOL-Library.Sublist"
begin

text \<open>
  The vocabulary the component theories share: Go's error values and results, 64-bit
  integers, byte strings, the functions of Go's standard library that the sources call
  (\<open>encoding/hex\<close>, \<open>encoding/binary\<close>, \<open>strings\<close>, \<open>fmt\<close> for \<open>%d\<close>, slicing), and the
  state-passing combinators in which the service is written. Every function is
  executable; every lemma here is used by at least one component.

  Go strings and byte slices are sequences of bytes: a string is a \<open>string\<close>, a byte slice
  a list of \<open>8 word\<close>.
\<close>

named_theorems go_simps \<open>unfolding rules of the combinators and small wrappers\<close>


section \<open>Errors and results\<close>

type_synonym byte = "8 word"

text \<open>
  An \<open>error\<close> value is either one made by \<open>errors.New\<close> (or by a library) or a
  \<open>*util.CodeError\<close>; the code tells the two apart by a type assertion and inspects the
  text of both with \<open>strings.Contains\<close>. A call returns a value, returns an error, or does
  not come back: it panics (nil dereference, index out of range, explicit \<open>panic\<close>) or it
  loops for ever.
\<close>

datatype goerr = Error string | CodeError int string

primrec err_str :: "goerr \<Rightarrow> string" where
  "err_str (Error s) = s"
| "err_str (CodeError c s) = s"

datatype stop = Panicked string | Diverged

datatype 'a res = Ok 'a | Fail goerr | Stop stop

abbreviation Panic :: "string \<Rightarrow> 'a res" where "Panic s \<equiv> Stop (Panicked s)"

abbreviation Diverge :: "'a res" where "Diverge \<equiv> Stop Diverged"

primrec bind_res :: "'a res \<Rightarrow> ('a \<Rightarrow> 'b res) \<Rightarrow> 'b res" where
  "bind_res (Ok x) f = f x"
| "bind_res (Fail e) f = Fail e"
| "bind_res (Stop p) f = Stop p"

lemma bind_res_eq_Ok [simp]: "bind_res m f = Ok y \<longleftrightarrow> (\<exists>x. m = Ok x \<and> f x = Ok y)"
  by (cases m) auto

lemma bind_res_eq_Stop:
  "bind_res m f = Stop p \<longleftrightarrow> m = Stop p \<or> (\<exists>x. m = Ok x \<and> f x = Stop p)"
  by (cases m) auto

lemma bind_res_eq_Fail:
  "bind_res m f = Fail e \<longleftrightarrow> m = Fail e \<or> (\<exists>x. m = Ok x \<and> f x = Fail e)"
  by (cases m) auto

lemma bind_res_assoc: "bind_res (bind_res m f) g = bind_res m (\<lambda>x. bind_res (f x) g)"
  by (cases m) auto

lemma bind_res_cong [fundef_cong]:
  "m = m' \<Longrightarrow> (\<And>x. m' = Ok x \<Longrightarrow> f x = g x) \<Longrightarrow> bind_res m f = bind_res m' g"
  by (cases m') auto


section \<open>Computations over a state\<close>

text \<open>
  A method of the service reads and writes a state \<open>'w\<close> (the database, the network, the
  caches) and returns a result; the state is threaded also through failing calls, since
  what was written before a failure stays written.
\<close>

type_synonym ('w, 'a) io = "'w \<Rightarrow> 'a res \<times> 'w"

definition ret :: "'a \<Rightarrow> ('w, 'a) io" where
  [go_simps]: "ret x = (\<lambda>w. (Ok x, w))"

definition fail :: "goerr \<Rightarrow> ('w, 'a) io" where
  [go_simps]: "fail e = (\<lambda>w. (Fail e, w))"

definition of_res :: "'a res \<Rightarrow> ('w, 'a) io" where
  [go_simps]: "of_res r = (\<lambda>w. (r, w))"

text \<open>
  \<open>attempt m onErr onOk\<close> is the Go idiom \<open>x, err := m(); if err != nil { onErr } ; onOk\<close>:
  a call that does not come back is caught by neither branch.
\<close>

definition attempt :: "('w, 'a) io \<Rightarrow> (goerr \<Rightarrow> ('w, 'b) io) \<Rightarrow> ('a \<Rightarrow> ('w, 'b) io) \<Rightarrow> ('w, 'b) io"
  where
  "attempt m onErr onOk = (\<lambda>w. case m w of
       (Ok x, w') \<Rightarrow> onOk x w'
     | (Fail e, w') \<Rightarrow> onErr e w'
     | (Stop p, w') \<Rightarrow> (Stop p, w'))"

definition andThen :: "('w, 'a) io \<Rightarrow> ('a \<Rightarrow> ('w, 'b) io) \<Rightarrow> ('w, 'b) io" where
  [go_simps]: "andThen m f = attempt m fail f"

lemma attempt_Ok [simp]: "m w = (Ok x, w') \<Longrightarrow> attempt m h f w = f x w'"
  and attempt_Fail [simp]: "m w = (Fail e, w') \<Longrightarrow> attempt m h f w = h e w'"
  and attempt_Stop [simp]: "m w = (Stop p, w') \<Longrightarrow> attempt m h f w = (Stop p, w')"
  by (simp_all add: attempt_def)

lemma attempt_split:
  "P (attempt m h f w) \<longleftrightarrow>
     (\<forall>x w'. m w = (Ok x, w') \<longrightarrow> P (f x w')) \<and>
     (\<forall>e w'. m w = (Fail e, w') \<longrightarrow> P (h e w')) \<and>
     (\<forall>p w'. m w = (Stop p, w') \<longrightarrow> P (Stop p, w'))"
  by (cases "m w"; cases "fst (m w)") (auto simp: attempt_def)

lemma attempt_eqE:
  assumes "attempt m h f w = (r, w'')"
  obtains (Ok) x w' where "m w = (Ok x, w')" "f x w' = (r, w'')"
    | (Fail) e w' where "m w = (Fail e, w')" "h e w' = (r, w'')"
    | (Stop) p where "m w = (Stop p, w'')" "r = Stop p"
  using assms by (cases "m w"; cases "fst (m w)") (auto simp: attempt_def)

lemma andThen_eqE:
  assumes "andThen m f w = (r, w'')"
  obtains (Ok) x w' where "m w = (Ok x, w')" "f x w' = (r, w'')"
    | (Fail) e where "m w = (Fail e, w'')" "r = Fail e"
    | (Stop) p where "m w = (Stop p, w'')" "r = Stop p"
  using assms unfolding andThen_def by (cases rule: attempt_eqE) (auto simp: fail_def)

lemma andThen_eq_Ok:
  "andThen m f w = (Ok y, w'') \<longleftrightarrow> (\<exists>x w'. m w = (Ok x, w') \<and> f x w' = (Ok y, w''))"
  by (cases "m w"; cases "fst (m w)") (auto simp: go_simps attempt_def)

definition succeeds :: "'b res \<times> 'w \<Rightarrow> bool" where
  "succeeds m = (case fst m of Ok x \<Rightarrow> True | _ \<Rightarrow> False)"

lemma succeedsE:
  assumes "succeeds m"
  obtains x where "m = (Ok x, snd m)"
  using assms by (cases m) (auto simp: succeeds_def split: res.splits)

text \<open>\<open>for _, x := range xs { m(x) }\<close>, left at the first error that \<open>m\<close> passes on.\<close>

primrec for_each :: "('a \<Rightarrow> ('w, unit) io) \<Rightarrow> 'a list \<Rightarrow> ('w, unit) io" where
  "for_each m [] = ret ()"
| "for_each m (x # xs) = andThen (m x) (\<lambda>_. for_each m xs)"

lemma for_each_invariant:
  assumes "\<And>x w r w'. x \<in> set xs \<Longrightarrow> m x w = (r, w') \<Longrightarrow> I w \<Longrightarrow> I w'"
  shows "for_each m xs w = (r, w') \<Longrightarrow> I w \<Longrightarrow> I w'"
  using assms
proof (induction xs arbitrary: w)
  case Nil
  then show ?case by (simp add: go_simps)
next
  case (Cons x xs)
  have step: "\<And>w r w'. m x w = (r, w') \<Longrightarrow> I w \<Longrightarrow> I w'"
    using Cons.prems(3) [of x] by simp
  have rest: "for_each m xs v = (r, w') \<Longrightarrow> I v \<Longrightarrow> I w'" for v
    by (rule Cons.IH) (use Cons.prems(3) in \<open>auto\<close>)
  from Cons.prems(1) show ?case
    unfolding for_each.simps andThen_def
    by (cases rule: attempt_eqE)
       (use step rest \<open>I w\<close> in \<open>auto simp: fail_def\<close>)
qed


section \<open>64-bit integers\<close>

text \<open>
  Go's \<open>int64\<close> and (on the 64-bit targets the program is built for) \<open>int\<close> are two's
  complement: a value is an \<open>int\<close> in the range, and every operation that can leave the
  range is wrapped.
\<close>

definition wrap64 :: "int \<Rightarrow> int" where
  "wrap64 x = (x + 2 ^ 63) mod 2 ^ 64 - 2 ^ 63"

definition is_int64 :: "int \<Rightarrow> bool" where
  "is_int64 x \<longleftrightarrow> - (2 ^ 63) \<le> x \<and> x < 2 ^ 63"

abbreviation max_int64 :: int where "max_int64 \<equiv> 9223372036854775807"

lemma is_int64_wrap64 [simp, intro]: "is_int64 (wrap64 x)"
proof -
  have "0 \<le> (x + 2 ^ 63) mod 2 ^ 64" and "(x + 2 ^ 63) mod 2 ^ 64 < (2 ^ 64 :: int)"
    by (rule pos_mod_sign, simp) (rule pos_mod_bound, simp)
  then show ?thesis by (simp add: wrap64_def is_int64_def)
qed

lemma wrap64_id: "is_int64 x \<Longrightarrow> wrap64 x = x"
  by (simp add: wrap64_def is_int64_def)

lemma is_int64_nonneg: "0 \<le> x \<Longrightarrow> x \<le> max_int64 \<Longrightarrow> is_int64 x"
  by (simp add: is_int64_def)

lemma is_int64_le_max: "is_int64 x \<Longrightarrow> x \<le> max_int64"
  by (simp add: is_int64_def)

lemma is_int64_neg: "is_int64 x \<Longrightarrow> 0 \<le> x \<Longrightarrow> is_int64 (- x)"
  by (simp add: is_int64_def)

definition add64 :: "int \<Rightarrow> int \<Rightarrow> int" where
  "add64 a b = wrap64 (a + b)"

definition sub64 :: "int \<Rightarrow> int \<Rightarrow> int" where
  "sub64 a b = wrap64 (a - b)"

text \<open>Go's integer division truncates towards zero.\<close>

definition go_div :: "int \<Rightarrow> int \<Rightarrow> int" where
  "go_div a b = sgn a * sgn b * (\<bar>a\<bar> div \<bar>b\<bar>)"

lemma go_div_nonneg: "0 \<le> a \<Longrightarrow> 0 < b \<Longrightarrow> go_div a b = a div b"
  by (cases "a = 0") (auto simp: go_div_def)


section \<open>Slices\<close>

text \<open>\<open>xs[lo:hi]\<close>: outside \<open>0 \<le> lo \<le> hi \<le> len(xs)\<close> Go panics.\<close>

definition go_slice :: "'a list \<Rightarrow> int \<Rightarrow> int \<Rightarrow> 'a list res" where
  "go_slice xs lo hi =
     (if 0 \<le> lo \<and> lo \<le> hi \<and> hi \<le> int (length xs)
      then Ok (take (nat hi - nat lo) (drop (nat lo) xs))
      else Panic ''slice bounds out of range'')"

lemma go_slice_Ok_iff:
  "go_slice xs lo hi = Ok ys \<longleftrightarrow>
     0 \<le> lo \<and> lo \<le> hi \<and> hi \<le> int (length xs) \<and> ys = take (nat hi - nat lo) (drop (nat lo) xs)"
  by (auto simp: go_slice_def)

lemma find_SomeD: "find P xs = Some x \<Longrightarrow> x \<in> set xs \<and> P x"
  by (induction xs) (auto split: if_splits)

lemma find_eq_None: "find P xs = None \<longleftrightarrow> (\<forall>x \<in> set xs. \<not> P x)"
  by (induction xs) auto

lemma filter_list_update_irrelevant:
  "i < length xs \<Longrightarrow> \<not> P (xs ! i) \<Longrightarrow> \<not> P y \<Longrightarrow> filter P (xs[i := y]) = filter P xs"
proof (induction xs arbitrary: i)
  case (Cons x xs)
  then show ?case by (cases i) auto
qed simp

text \<open>A list of encodings is the encoding of what it decodes to.\<close>

lemma map_roundtrip:
  assumes "\<forall>d \<in> set ds. d = enc (dec d)"
  shows "ds = map enc (map dec ds)"
proof -
  have "map (\<lambda>d. enc (dec d)) ds = map (\<lambda>d. d) ds" by (rule map_cong [OF refl]) (use assms in metis)
  then show ?thesis by (simp add: comp_def)
qed

text \<open>\<open>for i, x := range xs\<close>: the elements with their indices.\<close>

definition indexed :: "'a list \<Rightarrow> (int \<times> 'a) list" where
  "indexed xs = zip (map int [0..<length xs]) xs"

lemma map_snd_indexed [simp]: "map snd (indexed xs) = xs"
  by (simp add: indexed_def)

lemma map_fst_indexed [simp]: "map fst (indexed xs) = map int [0..<length xs]"
  by (simp add: indexed_def)

lemma in_set_indexed: "(i, x) \<in> set (indexed xs) \<longleftrightarrow> (\<exists>n < length xs. i = int n \<and> x = xs ! n)"
  by (force simp: indexed_def set_zip)

end
