(* ===== verification/Go_Strings.thy ===== *)
theory Go_Strings
  imports Go_Prelude
begin

text \<open>
  The parts of Go's \<open>encoding/hex\<close>, \<open>encoding/binary\<close>, \<open>strings\<close> and \<open>fmt\<close> packages that
  the sources use, with the round trips and the splitting facts the components need.
\<close>


section \<open>Hexadecimal\<close>

definition hexdigits :: string where
  "hexdigits = ''0123456789abcdef''"

definition hex_byte :: "byte \<Rightarrow> string" where
  "hex_byte b = [hexdigits ! (unat b div 16), hexdigits ! (unat b mod 16)]"

definition hex_encode :: "byte list \<Rightarrow> string" where
  "hex_encode bs = concat (map hex_byte bs)"

text \<open>\<open>hex.DecodeString\<close> accepts digits of both cases and rejects odd lengths.\<close>

definition from_hex_char :: "char \<Rightarrow> nat option" where
  "from_hex_char c =
     (let n = of_char c :: nat
      in if 48 \<le> n \<and> n \<le> 57 then Some (n - 48)
         else if 97 \<le> n \<and> n \<le> 102 then Some (n - 87)
         else if 65 \<le> n \<and> n \<le> 70 then Some (n - 55)
         else None)"

fun hex_decode :: "string \<Rightarrow> byte list res" where
  "hex_decode [] = Ok []"
| "hex_decode [c] =
     (case from_hex_char c of
        None \<Rightarrow> Fail (Error ''encoding/hex: invalid byte'')
      | Some _ \<Rightarrow> Fail (Error ''encoding/hex: odd length hex string''))"
| "hex_decode (c # d # s) =
     (case from_hex_char c of
        None \<Rightarrow> Fail (Error ''encoding/hex: invalid byte'')
      | Some hi \<Rightarrow>
          (case from_hex_char d of
             None \<Rightarrow> Fail (Error ''encoding/hex: invalid byte'')
           | Some lo \<Rightarrow> bind_res (hex_decode s) (\<lambda>bs. Ok (word_of_nat (hi * 16 + lo) # bs))))"

lemma hex_encode_Nil [simp]: "hex_encode [] = []"
  and hex_encode_Cons: "hex_encode (b # bs) = hex_byte b @ hex_encode bs"
  and hex_encode_append [simp]: "hex_encode (bs @ cs) = hex_encode bs @ hex_encode cs"
  by (simp_all add: hex_encode_def)

lemma length_hex_encode [simp]: "length (hex_encode bs) = 2 * length bs"
  by (induction bs) (simp_all add: hex_encode_Cons hex_byte_def)

lemma from_hex_char_hexdigits: "n < 16 \<Longrightarrow> from_hex_char (hexdigits ! n) = Some n"
proof -
  have "\<forall>n \<in> set [0..<16]. from_hex_char (hexdigits ! n) = Some n" by code_simp
  then show "n < 16 \<Longrightarrow> ?thesis" by simp
qed

lemma unat_byte_nibbles: "unat (b :: byte) div 16 < 16" "unat (b :: byte) mod 16 < 16"
proof -
  have "unat b < 2 ^ LENGTH(8)" by (rule unsigned_less)
  then show "unat b div 16 < 16" "unat b mod 16 < 16" by simp_all
qed

lemma hex_decode_encode [simp]: "hex_decode (hex_encode bs) = Ok bs"
proof (induction bs)
  case (Cons b bs)
  have "word_of_nat (unat b div 16 * 16 + unat b mod 16) = b"
    by (simp only: div_mult_mod_eq) simp
  with Cons show ?case
    by (simp add: hex_encode_Cons hex_byte_def from_hex_char_hexdigits unat_byte_nibbles)
qed simp

lemma hex_encode_inject [simp]: "hex_encode bs = hex_encode cs \<longleftrightarrow> bs = cs"
  by (metis hex_decode_encode res.inject(1))

lemma take_hex_encode: "take (2 * n) (hex_encode bs) = hex_encode (take n bs)"
proof (induction bs arbitrary: n)
  case (Cons b bs)
  then show ?case by (cases n) (simp_all add: hex_encode_Cons hex_byte_def)
qed simp

lemma drop_hex_encode: "drop (2 * n) (hex_encode bs) = hex_encode (drop n bs)"
proof (induction bs arbitrary: n)
  case (Cons b bs)
  then show ?case by (cases n) (simp_all add: hex_encode_Cons hex_byte_def)
qed simp

lemma hex_decode_length: "hex_decode s = Ok bs \<Longrightarrow> length s = 2 * length bs"
  by (induction s arbitrary: bs rule: hex_decode.induct) (auto split: option.splits)


section \<open>Little-endian integers\<close>

fun le_bytes :: "nat \<Rightarrow> int \<Rightarrow> byte list" where
  "le_bytes 0 v = []"
| "le_bytes (Suc n) v = word_of_int v # le_bytes n (v div 256)"

fun le_uint :: "byte list \<Rightarrow> int" where
  "le_uint [] = 0"
| "le_uint (b # bs) = uint b + 256 * le_uint bs"

lemma length_le_bytes [simp]: "length (le_bytes n v) = n"
  by (induction n v rule: le_bytes.induct) simp_all

lemma uint_byte_of_int: "uint (word_of_int v :: byte) = v mod 256"
  by (simp add: uint_word_of_int)

lemma le_uint_le_bytes: "le_uint (le_bytes n v) = v mod 256 ^ n"
proof (induction n v rule: le_bytes.induct)
  case (2 n v)
  have "v mod 256 + 256 * (v div 256 mod 256 ^ n) = v mod (256 * 256 ^ n)"
    by (simp add: zmod_zmult2_eq)
  then show ?case using 2 by (simp add: uint_byte_of_int)
qed simp

lemma le_uint_bounds: "0 \<le> le_uint bs" "le_uint bs < 256 ^ length bs"
proof (induction bs)
  case (Cons b bs)
  have b: "0 \<le> uint b" "uint b < 256" using uint_lt2p [of b] by simp_all
  { case 1 show ?case using Cons b by simp }
  { case 2
    have "le_uint bs + 1 \<le> 256 ^ length bs" using Cons by simp
    then have "256 * (le_uint bs + 1) \<le> 256 * 256 ^ length bs" by simp
    then show ?case using b by simp }
qed simp_all

lemma le_bytes_le_uint: "le_bytes (length bs) (le_uint bs) = bs"
proof (induction bs)
  case (Cons b bs)
  have "0 \<le> uint b" "uint b < 256" using uint_lt2p [of b] by simp_all
  then have "(uint b + 256 * le_uint bs) div 256 = le_uint bs"
    and "(uint b + 256 * le_uint bs) mod 256 = uint b" by simp_all
  moreover have "(word_of_int (uint b + 256 * le_uint bs) :: byte) = b"
    by (rule word_uint_eqI) (simp only: uint_byte_of_int calculation(2))
  ultimately show ?case using Cons by simp
qed simp

text \<open>\<open>int64(binary.LittleEndian.Uint64(bs))\<close> of an eight-byte slice.\<close>

definition le_int64 :: "byte list \<Rightarrow> int" where
  "le_int64 bs = wrap64 (le_uint bs)"

lemma le_int64_le_bytes: "is_int64 v \<Longrightarrow> le_int64 (le_bytes 8 v) = v"
proof -
  assume v: "is_int64 v"
  have "le_int64 (le_bytes 8 v) = wrap64 (v mod 2 ^ 64)"
    by (simp add: le_int64_def le_uint_le_bytes)
  also have "\<dots> = wrap64 v" by (simp add: wrap64_def mod_simps)
  finally show ?thesis using v by (simp add: wrap64_id)
qed

lemma le_bytes_le_int64: "length bs = 8 \<Longrightarrow> le_bytes 8 (le_int64 bs) = bs"
proof -
  assume l: "length bs = 8"
  have cong: "le_bytes n v = le_bytes n (v mod 256 ^ n)" for n v
    using le_bytes_le_uint [of "le_bytes n v"] by (simp add: le_uint_le_bytes)
  have "le_int64 bs mod 256 ^ 8 = le_uint bs mod 256 ^ 8"
    by (simp add: le_int64_def wrap64_def mod_simps)
  then have "le_bytes 8 (le_int64 bs) = le_bytes 8 (le_uint bs)"
    by (metis cong)
  then show ?thesis using le_bytes_le_uint [of bs] l by simp
qed


section \<open>Searching\<close>

fun find_sub :: "'a list \<Rightarrow> 'a list \<Rightarrow> nat option" where
  "find_sub p [] = (if p = [] then Some 0 else None)"
| "find_sub p (c # s) =
     (if prefix p (c # s) then Some 0 else map_option Suc (find_sub p s))"

text \<open>\<open>strings.Index(s, p)\<close>, \<open>strings.Contains(s, p)\<close> and \<open>strings.HasPrefix(s, p)\<close>.\<close>

definition str_index :: "string \<Rightarrow> string \<Rightarrow> int" where
  "str_index s p = (case find_sub p s of None \<Rightarrow> -1 | Some n \<Rightarrow> int n)"

definition contains :: "string \<Rightarrow> string \<Rightarrow> bool" where
  "contains s p \<longleftrightarrow> 0 \<le> str_index s p"

definition has_prefix :: "string \<Rightarrow> string \<Rightarrow> bool" where
  "has_prefix s p \<longleftrightarrow> take (length p) s = p"

lemma prefix_iff_take: "prefix p s \<longleftrightarrow> take (length p) s = p"
  by (metis append_eq_conv_conj prefix_def take_is_prefix)

lemma find_sub_Some_iff:
  "find_sub p s = Some n \<longleftrightarrow>
     n \<le> length s \<and> prefix p (drop n s) \<and> (\<forall>m < n. \<not> prefix p (drop m s))"
proof (induction s arbitrary: n)
  case (Cons c s)
  show ?case by (cases n) (auto simp: Cons.IH less_Suc_eq_0_disj)
qed (auto simp: prefix_def)

lemma find_sub_None_iff: "find_sub p s = None \<longleftrightarrow> \<not> sublist p s"
  by (induction s) (auto simp: sublist_Cons_right)

lemma contains_iff_sublist: "contains s p \<longleftrightarrow> sublist p s"
  using find_sub_None_iff [of p s] by (auto simp: contains_def str_index_def split: option.splits)

lemma contains_append [simp]: "contains (p @ s) p" "contains (s @ p) p" "contains p p"
  by (auto simp: contains_iff_sublist)

lemma str_index_eq_iff:
  "str_index s p = int n \<longleftrightarrow>
     n \<le> length s \<and> prefix p (drop n s) \<and> (\<forall>m < n. \<not> prefix p (drop m s))"
  using find_sub_Some_iff [of p s n] by (auto simp: str_index_def split: option.splits)


section \<open>Decimal\<close>

definition dec_digit :: "nat \<Rightarrow> char" where
  "dec_digit n = char_of (48 + n)"

fun dec_nat :: "nat \<Rightarrow> string" where
  "dec_nat n = (if n < 10 then [dec_digit n] else dec_nat (n div 10) @ [dec_digit (n mod 10)])"

declare dec_nat.simps [simp del]

text \<open>\<open>strconv.FormatInt(n, 10)\<close>, which is also what \<open>%d\<close> prints.\<close>

definition format_int :: "int \<Rightarrow> string" where
  "format_int n = (if n < 0 then CHR ''-'' # dec_nat (nat (- n)) else dec_nat (nat n))"

definition digit_val :: "char \<Rightarrow> nat option" where
  "digit_val c = (let n = of_char c :: nat in if 48 \<le> n \<and> n \<le> 57 then Some (n - 48) else None)"

fun parse_digits :: "nat \<Rightarrow> string \<Rightarrow> nat option" where
  "parse_digits a [] = Some a"
| "parse_digits a (c # s) =
     (case digit_val c of None \<Rightarrow> None | Some d \<Rightarrow> parse_digits (10 * a + d) s)"

text \<open>
  \<open>strconv.ParseInt(s, 10, 64)\<close>: an optional sign and at least one digit; out of range is an
  error.
\<close>

definition parse_int :: "string \<Rightarrow> int res" where
  "parse_int s =
     (let neg = (s \<noteq> [] \<and> hd s = CHR ''-'');
          t = (if s \<noteq> [] \<and> (hd s = CHR ''-'' \<or> hd s = CHR ''+'') then tl s else s)
      in if t = [] then Fail (Error ''strconv.ParseInt: invalid syntax'')
         else (case parse_digits 0 t of
             None \<Rightarrow> Fail (Error ''strconv.ParseInt: invalid syntax'')
           | Some n \<Rightarrow>
               (let v = (if neg then - int n else int n)
                in if is_int64 v then Ok v
                   else Fail (Error ''strconv.ParseInt: value out of range''))))"

lemma digit_val_dec_digit: "n < 10 \<Longrightarrow> digit_val (dec_digit n) = Some n"
  by (simp add: digit_val_def dec_digit_def)

lemma parse_digits_append:
  "parse_digits a (s @ t) = Option.bind (parse_digits a s) (\<lambda>b. parse_digits b t)"
  by (induction s arbitrary: a) (auto split: option.splits)

lemma parse_digits_dec_nat: "parse_digits 0 (dec_nat n) = Some n"
proof (induction n rule: dec_nat.induct)
  case (1 n)
  show ?case
    by (subst dec_nat.simps)
       (use 1 in \<open>simp add: digit_val_dec_digit parse_digits_append\<close>)
qed

lemma dec_nat_chars: "c \<in> set (dec_nat n) \<Longrightarrow> 48 \<le> (of_char c :: nat) \<and> (of_char c :: nat) \<le> 57"
proof (induction n rule: dec_nat.induct)
  case (1 n)
  have d: "m < 10 \<Longrightarrow> of_char (dec_digit m) = 48 + (m :: nat)" for m
    by (simp add: dec_digit_def)
  show ?case
  proof (cases "n < 10")
    case True
    then show ?thesis using 1(2) d [of n] by (simp add: dec_nat.simps [of n])
  next
    case False
    then show ?thesis
      using 1 d [of "n mod 10"] by (auto simp: dec_nat.simps [of n])
  qed
qed

lemma dec_nat_not_Nil [simp]: "dec_nat n \<noteq> []"
  by (subst dec_nat.simps) simp

lemma dec_nat_hd: "hd (dec_nat n) \<noteq> CHR ''-''" "hd (dec_nat n) \<noteq> CHR ''+''"
proof -
  have "hd (dec_nat n) \<in> set (dec_nat n)" by simp
  from dec_nat_chars [OF this] show "hd (dec_nat n) \<noteq> CHR ''-''" "hd (dec_nat n) \<noteq> CHR ''+''"
    by auto
qed

lemma parse_int_format_int: "is_int64 v \<Longrightarrow> parse_int (format_int v) = Ok v"
  by (auto simp: parse_int_def format_int_def Let_def dec_nat_hd parse_digits_dec_nat)

lemma format_int_inject [simp]: "format_int a = format_int b \<longleftrightarrow> a = b"
proof
  assume e: "format_int a = format_int b"
  have dec: "dec_nat m = dec_nat n \<Longrightarrow> m = n" for m n
    using parse_digits_dec_nat by (metis option.inject)
  have sgn: "hd (format_int v) = CHR ''-'' \<longleftrightarrow> v < 0" for v
    by (simp add: format_int_def dec_nat_hd)
  have "a < 0 \<longleftrightarrow> b < 0" using sgn e by metis
  then show "a = b" using e by (auto simp: format_int_def dest!: dec split: if_splits)
qed simp

lemma format_int_chars: "CHR ''_'' \<notin> set (format_int v)"
  by (auto simp: format_int_def dest!: dec_nat_chars split: if_splits)

end
