(* ===== verification/Mongo_Db.thy ===== *)
theory Mongo_Db
  imports Go_Strings "HOL-Library.Char_ord" "HOL-Library.List_Lexorder" "HOL-Library.Option_ord"
begin

text \<open>
  \<open>src/models/mongo_db.go\<close>: the session handling and the generic operations of \<open>MongoDb\<close>.
  The driver \<open>mgo\<close> and the server behind it are a parameter: the record \<open>mgo\<close> holds the
  calls the sources make, over an arbitrary state \<open>'w\<close>. The locale \<open>mongo\<close> states what the
  program relies on, for succeeding and for failing calls; the locale \<open>mongo_up\<close> adds that
  no call fails without a reason in the data. Everything about the repositories is
  proved from these contracts.

  The last section gives an in-memory driver that satisfies both, for the witnesses.
\<close>

section \<open>Documents and queries\<close>

text \<open>
  A document maps field names to values. BSON orders numbers before strings and a
  missing field before both.
\<close>

datatype bval = BInt int | BStr string

instantiation bval :: linorder
begin

fun less_eq_bval :: "bval \<Rightarrow> bval \<Rightarrow> bool" where
  "less_eq_bval (BInt a) (BInt b) \<longleftrightarrow> a \<le> b"
| "less_eq_bval (BInt a) (BStr t) \<longleftrightarrow> True"
| "less_eq_bval (BStr s) (BInt b) \<longleftrightarrow> False"
| "less_eq_bval (BStr s) (BStr t) \<longleftrightarrow> s \<le> t"

definition less_bval :: "bval \<Rightarrow> bval \<Rightarrow> bool" where
  "less_bval a b \<longleftrightarrow> a \<le> b \<and> \<not> b \<le> a"

instance
proof
  fix x y z :: bval
  show "x < y \<longleftrightarrow> x \<le> y \<and> \<not> y \<le> x" by (rule less_bval_def)
  show "x \<le> x" by (cases x) simp_all
  show "x \<le> y \<Longrightarrow> y \<le> z \<Longrightarrow> x \<le> z" by (cases x; cases y; cases z) auto
  show "x \<le> y \<Longrightarrow> y \<le> x \<Longrightarrow> x = y" by (cases x; cases y) auto
  show "x \<le> y \<or> y \<le> x" by (cases x; cases y) auto
qed

end

type_synonym doc = "string \<rightharpoonup> bval"

definition get_int :: "doc \<Rightarrow> string \<Rightarrow> int" where
  "get_int d f = (case d f of Some (BInt n) \<Rightarrow> n | _ \<Rightarrow> 0)"

definition get_str :: "doc \<Rightarrow> string \<Rightarrow> string" where
  "get_str d f = (case d f of Some (BStr s) \<Rightarrow> s | _ \<Rightarrow> [])"

text \<open>
  The conditions the sources build as \<open>bson.M\<close>: equality of a field, \<open>$lt\<close> or \<open>$gte\<close> and
  \<open>$lt\<close> on a number, and \<open>$or\<close>. A list of them is a conjunction; \<open>nil\<close> is the empty list.
\<close>

datatype qual = QEq string bval | QLt string int | QRange string int int | QOr "qual list"

fun matches1 :: "doc \<Rightarrow> qual \<Rightarrow> bool" where
  "matches1 d (QEq f v) \<longleftrightarrow> d f = Some v"
| "matches1 d (QLt f hi) \<longleftrightarrow> (case d f of Some (BInt n) \<Rightarrow> n < hi | _ \<Rightarrow> False)"
| "matches1 d (QRange f lo hi) \<longleftrightarrow>
     (case d f of Some (BInt n) \<Rightarrow> lo \<le> n \<and> n < hi | _ \<Rightarrow> False)"
| "matches1 d (QOr qs) \<longleftrightarrow> (\<exists>q \<in> set qs. matches1 d q)"

definition matches :: "qual list \<Rightarrow> doc \<Rightarrow> bool" where
  "matches qs d \<longleftrightarrow> (\<forall>q \<in> set qs. matches1 d q)"

definition set_fields :: "(string \<times> bval) list \<Rightarrow> doc \<Rightarrow> doc" where
  "set_fields upd d = d ++ map_of upd"

text \<open>A selector restricts the result to some fields; a sort key \<open>-f\<close> is descending.\<close>

definition select :: "string list option \<Rightarrow> doc \<Rightarrow> doc" where
  "select sel d = (case sel of None \<Rightarrow> d | Some fs \<Rightarrow> d |` set fs)"

definition sorted_by :: "string \<Rightarrow> doc list \<Rightarrow> bool" where
  "sorted_by s ds \<longleftrightarrow>
     (if has_prefix s ''-'' then sorted (map (\<lambda>d. d (tl s)) (rev ds))
      else sorted (map (\<lambda>d. d s) ds))"

text \<open>
  Aggregation stages. The sources always follow \<open>$lookup\<close> by \<open>$unwind\<close> of the joined field,
  so the two are one stage here: each document is paired with each foreign document
  whose \<open>foreign\<close> field equals its \<open>local\<close> field, whose fields appear under \<open>as.\<close>.
\<close>

datatype stage =
    SMatch "qual list"
  | SLookupUnwind string string string string
  | SProject "(string \<times> string) list"

definition nest :: "string \<Rightarrow> doc \<Rightarrow> doc" where
  "nest pre d = (\<lambda>f. if has_prefix f (pre @ ''.'') then d (drop (length pre + 1) f) else None)"

fun run_stage :: "(string \<Rightarrow> doc list) \<Rightarrow> stage \<Rightarrow> doc list \<Rightarrow> doc list" where
  "run_stage cols (SMatch q) ds = filter (matches q) ds"
| "run_stage cols (SLookupUnwind from lf ff as) ds =
     concat (map (\<lambda>d. map (\<lambda>f. d ++ nest as f) (filter (\<lambda>f. f ff = d lf) (cols from))) ds)"
| "run_stage cols (SProject ps) ds =
     map (\<lambda>d f. case map_of ps f of Some src \<Rightarrow> d src | None \<Rightarrow> None) ds"

definition run_pipe :: "(string \<Rightarrow> doc list) \<Rightarrow> stage list \<Rightarrow> doc list \<Rightarrow> doc list" where
  "run_pipe cols stages ds = fold (run_stage cols) stages ds"


section \<open>The driver\<close>

record 'w mgo =
  mgo_host :: string
  mgo_ping :: "'w \<Rightarrow> bool \<times> 'w"
  mgo_dial :: "'w \<Rightarrow> bool \<times> 'w"
  mgo_one :: "string \<Rightarrow> qual list \<Rightarrow> ('w, doc) io"
  mgo_all :: "string \<Rightarrow> qual list \<Rightarrow> string list option \<Rightarrow> string \<Rightarrow> ('w, doc list) io"
  mgo_many :: "string \<Rightarrow> qual list \<Rightarrow> string \<Rightarrow> int \<Rightarrow> int \<Rightarrow> ('w, doc list) io"
  mgo_insert :: "string \<Rightarrow> doc \<Rightarrow> ('w, unit) io"
  mgo_count :: "string \<Rightarrow> qual list \<Rightarrow> ('w, int) io"
  mgo_update_all :: "string \<Rightarrow> qual list \<Rightarrow> (string \<times> bval) list \<Rightarrow> ('w, unit) io"
  mgo_update :: "string \<Rightarrow> qual list \<Rightarrow> (string \<times> bval) list \<Rightarrow> ('w, unit) io"
  mgo_remove_all :: "string \<Rightarrow> qual list \<Rightarrow> ('w, unit) io"
  mgo_ensure_index :: "string \<Rightarrow> string list \<Rightarrow> bool \<Rightarrow> ('w, unit) io"
  mgo_pipe :: "string \<Rightarrow> stage list \<Rightarrow> ('w, doc list) io"
  mgo_iter :: "string \<Rightarrow> qual list \<Rightarrow> 'w \<Rightarrow> (doc list \<times> goerr option) \<times> 'w"


section \<open>MongoDb\<close>

definition MAX_RECONNECT_TIME :: nat where "MAX_RECONNECT_TIME = 5"

abbreviation MONGO_ERROR_DUPLICATE :: string where "MONGO_ERROR_DUPLICATE \<equiv> ''E11000''"
abbreviation MONGO_NOT_FOUND :: string where "MONGO_NOT_FOUND \<equiv> ''not found''"
abbreviation MONGO_ID :: string where "MONGO_ID \<equiv> ''_id''"

definition is_not_found :: "goerr \<Rightarrow> bool" where
  "is_not_found e \<longleftrightarrow> contains (err_str e) MONGO_NOT_FOUND"

definition is_duplicate :: "goerr \<Rightarrow> bool" where
  "is_duplicate e \<longleftrightarrow> contains (err_str e) MONGO_ERROR_DUPLICATE"

text \<open>
  An error of the driver is not a \<open>*util.CodeError\<close> and its text is not one of the service's
  own messages.
\<close>

definition plain_error :: "goerr \<Rightarrow> bool" where
  "plain_error e = (case e of Error s \<Rightarrow> \<not> contains s ''unknow utxo'' | CodeError c s \<Rightarrow> False)"

fun NewSession_loop :: "'w mgo \<Rightarrow> nat \<Rightarrow> ('w, unit) io" where
  "NewSession_loop drv 0 w =
     (Fail (Error (''reconnect '' @ mgo_host drv @ '' '' @ format_int (int MAX_RECONNECT_TIME)
        @ '' failed'')), w)"
| "NewSession_loop drv (Suc i) w =
     (case mgo_ping drv w of
        (True, w1) \<Rightarrow> (Ok (), w1)
      | (False, w1) \<Rightarrow> NewSession_loop drv i (snd (mgo_dial drv w1)))"

definition NewSession :: "'w mgo \<Rightarrow> ('w, unit) io" where
  "NewSession drv = NewSession_loop drv MAX_RECONNECT_TIME"

definition Exec :: "'w mgo \<Rightarrow> ('w, 'a) io \<Rightarrow> ('w, 'a) io" where
  "Exec drv operation = andThen (NewSession drv) (\<lambda>_. operation)"

definition GetOne :: "'w mgo \<Rightarrow> string \<Rightarrow> qual list \<Rightarrow> ('w, doc) io" where
  "GetOne drv colName condition = Exec drv (mgo_one drv colName condition)"

definition GetMany :: "'w mgo \<Rightarrow> string \<Rightarrow> qual list \<Rightarrow> string \<Rightarrow> int \<Rightarrow> int \<Rightarrow> ('w, doc list) io" where
  "GetMany drv colName condition sortKey offset limit =
     Exec drv (mgo_many drv colName condition sortKey offset limit)"

text \<open>
  \<open>Distinct\<close> and \<open>AggregateOne\<close> have no caller; the calls of the driver they make are arguments.
\<close>

definition Distinct ::
  "'w mgo \<Rightarrow> (string \<Rightarrow> qual list \<Rightarrow> string \<Rightarrow> ('w, 'b) io) \<Rightarrow> string \<Rightarrow> qual list \<Rightarrow> string \<Rightarrow> ('w, 'b) io" where
  "Distinct drv mgo_distinct colName condition key = Exec drv (mgo_distinct colName condition key)"

definition AggregateOne ::
  "'w mgo \<Rightarrow> (string \<Rightarrow> stage list \<Rightarrow> ('w, 'b) io) \<Rightarrow> string \<Rightarrow> stage list \<Rightarrow> ('w, 'b) io" where
  "AggregateOne drv mgo_pipe_one colName conditions = Exec drv (mgo_pipe_one colName conditions)"

definition GetAll :: "'w mgo \<Rightarrow> string \<Rightarrow> qual list \<Rightarrow> string list option \<Rightarrow> string \<Rightarrow> ('w, doc list) io"
  where
  "GetAll drv colName condition selector sortKey = Exec drv (mgo_all drv colName condition selector sortKey)"

definition Insert :: "'w mgo \<Rightarrow> string \<Rightarrow> doc \<Rightarrow> ('w, unit) io" where
  "Insert drv colName d = Exec drv (mgo_insert drv colName d)"

definition Count :: "'w mgo \<Rightarrow> string \<Rightarrow> qual list \<Rightarrow> ('w, int) io" where
  "Count drv colName condition = Exec drv (mgo_count drv colName condition)"

definition UpdateAll :: "'w mgo \<Rightarrow> string \<Rightarrow> qual list \<Rightarrow> (string \<times> bval) list \<Rightarrow> ('w, unit) io" where
  "UpdateAll drv colName condition updator = Exec drv (mgo_update_all drv colName condition updator)"

definition UpdateOne :: "'w mgo \<Rightarrow> string \<Rightarrow> qual list \<Rightarrow> (string \<times> bval) list \<Rightarrow> ('w, unit) io" where
  "UpdateOne drv colName condition updator = Exec drv (mgo_update drv colName condition updator)"

definition CreateIndex :: "'w mgo \<Rightarrow> string \<Rightarrow> (string list \<times> bool) list \<Rightarrow> ('w, unit) io" where
  "CreateIndex drv colName Indexs =
     Exec drv (for_each (\<lambda>(keys, unique). mgo_ensure_index drv colName keys unique) Indexs)"

definition DeleteAll :: "'w mgo \<Rightarrow> string \<Rightarrow> qual list \<Rightarrow> ('w, unit) io" where
  "DeleteAll drv colName condition = Exec drv (mgo_remove_all drv colName condition)"

definition AggregateAll :: "'w mgo \<Rightarrow> string \<Rightarrow> stage list \<Rightarrow> ('w, doc list) io" where
  "AggregateAll drv colName conditions = Exec drv (mgo_pipe drv colName conditions)"

text \<open>
  \<open>Foreach\<close> hands the documents of a cursor to \<open>handle\<close> one by one; the driver's \<open>mgo_iter\<close>
  gives the documents the cursor yields and the error it ends with, if any.
\<close>

definition Foreach :: "'w mgo \<Rightarrow> string \<Rightarrow> qual list \<Rightarrow> (doc \<Rightarrow> ('w, unit) io) \<Rightarrow> ('w, unit) io" where
  "Foreach drv colName conditions handle =
     Exec drv (\<lambda>w. case mgo_iter drv colName conditions w of
       ((ds, iterErr), w') \<Rightarrow>
         andThen (for_each handle ds)
           (\<lambda>_. case iterErr of None \<Rightarrow> ret () | Some e \<Rightarrow> fail e) w')"


section \<open>What the program relies on\<close>

definition clash :: "string list \<Rightarrow> doc \<Rightarrow> doc list \<Rightarrow> bool" where
  "clash keys d ds \<longleftrightarrow> (\<exists>d' \<in> set ds. \<forall>k \<in> set keys. d' k = d k)"

definition reconnect_error :: "'w mgo \<Rightarrow> goerr" where
  "reconnect_error drv = Error (''reconnect '' @ mgo_host drv @ '' ''
     @ format_int (int MAX_RECONNECT_TIME) @ '' failed'')"

text \<open>
  \<open>docs w c\<close> are the documents of collection \<open>c\<close> in state \<open>w\<close>, \<open>uniq w c\<close> its unique indexes.
  Reads change nothing; a successful write does what it says; a failed insert or
  single update changes nothing; a failed update or removal of many documents may have
  done part of its work. The texts \<open>not found\<close> and \<open>E11000\<close> occur only in the errors that
  mean it, which is what the sources' tests on error texts need.
\<close>

locale mongo =
  fixes drv :: "'w mgo"
    and docs :: "'w \<Rightarrow> string \<Rightarrow> doc list"
    and uniq :: "'w \<Rightarrow> string \<Rightarrow> string list set"
  assumes ping_same: "mgo_ping drv w = (b, w') \<Longrightarrow> docs w' = docs w \<and> uniq w' = uniq w"
    and dial_same: "mgo_dial drv w = (b, w') \<Longrightarrow> docs w' = docs w \<and> uniq w' = uniq w"
    and reconnect_text: "\<not> is_not_found (reconnect_error drv)" "\<not> is_duplicate (reconnect_error drv)"
      "plain_error (reconnect_error drv)"
    and one: "mgo_one drv c q w = (rd, w') \<Longrightarrow> docs w' = docs w \<and> uniq w' = uniq w \<and>
      (case rd of Ok d \<Rightarrow> d \<in> set (docs w c) \<and> matches q d
       | Fail e \<Rightarrow> plain_error e \<and> (is_not_found e \<longrightarrow> (\<forall>d \<in> set (docs w c). \<not> matches q d))
       | Stop p \<Rightarrow> False)"
    and all: "mgo_all drv c q sel s w = (rl, w') \<Longrightarrow> docs w' = docs w \<and> uniq w' = uniq w \<and>
      (case rl of Ok ds \<Rightarrow> mset ds = mset (map (select sel) (filter (matches q) (docs w c))) \<and> sorted_by s ds
       | Fail e \<Rightarrow> True | Stop p \<Rightarrow> False)"
    and many: "mgo_many drv c q s skip lim w = (rl, w') \<Longrightarrow> docs w' = docs w \<and> uniq w' = uniq w \<and>
      (case rl of Ok ds \<Rightarrow> (\<exists>es. mset es = mset (filter (matches q) (docs w c)) \<and> sorted_by s es \<and>
             (0 \<le> skip \<longrightarrow> 0 < lim \<longrightarrow> ds = take (nat lim) (drop (nat skip) es)))
       | Fail e \<Rightarrow> \<not> is_not_found e | Stop p \<Rightarrow> False)"
    and insert: "mgo_insert drv c d w = (ru, w') \<Longrightarrow> uniq w' = uniq w \<and>
      (case ru of Ok u \<Rightarrow> docs w' = (docs w)(c := docs w c @ [d]) \<and> (\<forall>ks \<in> uniq w c. \<not> clash ks d (docs w c))
       | Fail e \<Rightarrow> plain_error e \<and> docs w' = docs w \<and> (is_duplicate e \<longrightarrow> (\<exists>ks \<in> uniq w c. clash ks d (docs w c)))
       | Stop p \<Rightarrow> False)"
    and count: "mgo_count drv c q w = (rn, w') \<Longrightarrow> docs w' = docs w \<and> uniq w' = uniq w \<and>
      (case rn of Ok n \<Rightarrow> n = int (length (filter (matches q) (docs w c)))
       | Fail e \<Rightarrow> True | Stop p \<Rightarrow> False)"
    and update_all: "mgo_update_all drv c q u w = (ru, w') \<Longrightarrow> uniq w' = uniq w \<and>
      (\<forall>c'. c' \<noteq> c \<longrightarrow> docs w' c' = docs w c') \<and>
      (case ru of Ok x \<Rightarrow> docs w' c = map (\<lambda>d. if matches q d then set_fields u d else d) (docs w c)
       | Fail e \<Rightarrow> list_all2 (\<lambda>d d'. d' = d \<or> matches q d \<and> d' = set_fields u d) (docs w c) (docs w' c)
       | Stop p \<Rightarrow> False)"
    and update: "mgo_update drv c q u w = (ru, w') \<Longrightarrow> uniq w' = uniq w \<and>
      (case ru of Ok x \<Rightarrow> (\<exists>i < length (docs w c). matches q (docs w c ! i) \<and>
             docs w' = (docs w)(c := (docs w c)[i := set_fields u (docs w c ! i)]))
       | Fail e \<Rightarrow> plain_error e \<and> docs w' = docs w \<and> (is_not_found e \<longrightarrow> (\<forall>d \<in> set (docs w c). \<not> matches q d))
       | Stop p \<Rightarrow> False)"
    and remove_all: "mgo_remove_all drv c q w = (ru, w') \<Longrightarrow> uniq w' = uniq w \<and>
      (\<forall>c'. c' \<noteq> c \<longrightarrow> docs w' c' = docs w c') \<and>
      (case ru of Ok x \<Rightarrow> docs w' c = filter (\<lambda>d. \<not> matches q d) (docs w c)
       | Fail e \<Rightarrow> (\<exists>keep. docs w' c = filter (\<lambda>d. \<not> matches q d \<or> keep d) (docs w c))
       | Stop p \<Rightarrow> False)"
    and ensure_index: "mgo_ensure_index drv c ks un w = (ru, w') \<Longrightarrow> docs w' = docs w \<and>
      (case ru of Ok x \<Rightarrow> uniq w' = (uniq w)(c := (if un then insert ks (uniq w c) else uniq w c))
       | Fail e \<Rightarrow> uniq w' = uniq w | Stop p \<Rightarrow> False)"
    and pipe: "mgo_pipe drv c st w = (rl, w') \<Longrightarrow> docs w' = docs w \<and> uniq w' = uniq w \<and>
      (case rl of Ok ds \<Rightarrow> mset ds = mset (run_pipe (docs w) st (docs w c))
       | Fail e \<Rightarrow> True | Stop p \<Rightarrow> False)"
    and iter: "mgo_iter drv c q w = ((ds, eo), w') \<Longrightarrow> docs w' = docs w \<and> uniq w' = uniq w \<and>
      mset ds \<subseteq># mset (filter (matches q) (docs w c)) \<and>
      (eo = None \<longrightarrow> mset ds = mset (filter (matches q) (docs w c)))"
begin

definition same :: "'w \<Rightarrow> 'w \<Rightarrow> bool" where
  "same w w' \<longleftrightarrow> docs w' = docs w \<and> uniq w' = uniq w"

lemma same_refl [simp]: "same w w"
  by (simp add: same_def)

lemma same_trans [trans]: "same w1 w2 \<Longrightarrow> same w2 w3 \<Longrightarrow> same w1 w3"
  by (simp add: same_def)

lemma NewSession_loop_res:
  "NewSession_loop drv n w = (r, w') \<Longrightarrow> same w w' \<and> (r = Ok () \<or> r = Fail (reconnect_error drv))"
proof (induction n arbitrary: w)
  case 0
  then show ?case by (auto simp: reconnect_error_def)
next
  case (Suc n)
  obtain b w1 where p: "mgo_ping drv w = (b, w1)" by fastforce
  obtain b2 w2 where d: "mgo_dial drv w1 = (b2, w2)" by fastforce
  have "same w w1" "same w1 w2" using ping_same [OF p] dial_same [OF d] by (simp_all add: same_def)
  then show ?case using Suc p d by (cases b) (auto simp: same_def)
qed

lemma Exec_res:
  assumes "Exec drv op w = (r, w')"
  obtains (session) w1 where "same w w1" "op w1 = (r, w')"
    | (no_session) "same w w'" "r = Fail (reconnect_error drv)"
  using assms unfolding Exec_def andThen_def
  by (cases rule: attempt_eqE)
     (auto simp: NewSession_def fail_def dest!: NewSession_loop_res)

text \<open>The contract of each operation of \<open>MongoDb\<close>, on every outcome.\<close>

lemma GetOne_res:
  assumes "GetOne drv c q w = (r, w')"
  shows "same w w' \<and> (case r of Ok d \<Rightarrow> d \<in> set (docs w c) \<and> matches q d
    | Fail e \<Rightarrow> plain_error e \<and> (is_not_found e \<longrightarrow> (\<forall>d \<in> set (docs w c). \<not> matches q d))
    | Stop p \<Rightarrow> False)"
  using assms unfolding GetOne_def
  by (cases rule: Exec_res) (auto simp: same_def reconnect_text cong: res.case_cong dest!: one)

lemma GetAll_res:
  assumes "GetAll drv c q sel s w = (r, w')"
  shows "same w w' \<and> (case r of Ok ds \<Rightarrow>
      mset ds = mset (map (select sel) (filter (matches q) (docs w c))) \<and> sorted_by s ds
    | Fail e \<Rightarrow> True | Stop p \<Rightarrow> False)"
  using assms unfolding GetAll_def
  by (cases rule: Exec_res) (auto simp: same_def cong: res.case_cong dest!: all)

lemma GetMany_res:
  assumes "GetMany drv c q s skip lim w = (r, w')"
  shows "same w w' \<and> (case r of Ok ds \<Rightarrow>
      (\<exists>es. mset es = mset (filter (matches q) (docs w c)) \<and> sorted_by s es \<and>
             (0 \<le> skip \<longrightarrow> 0 < lim \<longrightarrow> ds = take (nat lim) (drop (nat skip) es)))
    | Fail e \<Rightarrow> \<not> is_not_found e | Stop p \<Rightarrow> False)"
  using assms unfolding GetMany_def
  by (cases rule: Exec_res) (auto simp: same_def reconnect_text cong: res.case_cong dest!: many)

lemma Insert_res:
  assumes "Insert drv c d w = (r, w')"
  shows "uniq w' = uniq w \<and> (case r of
      Ok u \<Rightarrow> docs w' = (docs w)(c := docs w c @ [d]) \<and> (\<forall>ks \<in> uniq w c. \<not> clash ks d (docs w c))
    | Fail e \<Rightarrow> plain_error e \<and> docs w' = docs w \<and> (is_duplicate e \<longrightarrow> (\<exists>ks \<in> uniq w c. clash ks d (docs w c)))
    | Stop p \<Rightarrow> False)"
  using assms unfolding Insert_def
  by (cases rule: Exec_res) (auto simp: same_def reconnect_text cong: res.case_cong dest!: insert)

lemma Count_res:
  assumes "Count drv c q w = (r, w')"
  shows "same w w' \<and> (case r of Ok n \<Rightarrow> n = int (length (filter (matches q) (docs w c)))
    | Fail e \<Rightarrow> True | Stop p \<Rightarrow> False)"
  using assms unfolding Count_def
  by (cases rule: Exec_res) (auto simp: same_def cong: res.case_cong dest!: count)

lemma UpdateAll_res:
  assumes "UpdateAll drv c q u w = (r, w')"
  shows "uniq w' = uniq w \<and> (\<forall>c'. c' \<noteq> c \<longrightarrow> docs w' c' = docs w c') \<and> (case r of
      Ok x \<Rightarrow> docs w' c = map (\<lambda>d. if matches q d then set_fields u d else d) (docs w c)
    | Fail e \<Rightarrow> list_all2 (\<lambda>d d'. d' = d \<or> matches q d \<and> d' = set_fields u d) (docs w c) (docs w' c)
    | Stop p \<Rightarrow> False)"
  using assms unfolding UpdateAll_def
  by (cases rule: Exec_res) (auto simp: same_def list_all2_refl cong: res.case_cong dest!: update_all)

lemma UpdateOne_res:
  assumes "UpdateOne drv c q u w = (r, w')"
  shows "uniq w' = uniq w \<and> (case r of
      Ok x \<Rightarrow> (\<exists>i < length (docs w c). matches q (docs w c ! i) \<and>
             docs w' = (docs w)(c := (docs w c)[i := set_fields u (docs w c ! i)]))
    | Fail e \<Rightarrow> plain_error e \<and> docs w' = docs w \<and> (is_not_found e \<longrightarrow> (\<forall>d \<in> set (docs w c). \<not> matches q d))
    | Stop p \<Rightarrow> False)"
  using assms unfolding UpdateOne_def
  by (cases rule: Exec_res) (auto simp: same_def reconnect_text cong: res.case_cong dest!: update)

lemma DeleteAll_res:
  assumes "DeleteAll drv c q w = (r, w')"
  shows "uniq w' = uniq w \<and> (\<forall>c'. c' \<noteq> c \<longrightarrow> docs w' c' = docs w c') \<and> (case r of
      Ok x \<Rightarrow> docs w' c = filter (\<lambda>d. \<not> matches q d) (docs w c)
    | Fail e \<Rightarrow> (\<exists>keep. docs w' c = filter (\<lambda>d. \<not> matches q d \<or> keep d) (docs w c))
    | Stop p \<Rightarrow> False)"
  using assms unfolding DeleteAll_def
proof (cases rule: Exec_res)
  case (session w1)
  then show ?thesis using remove_all [OF session(2)] by (simp add: same_def cong: res.case_cong)
next
  case no_session
  then show ?thesis by (auto simp: same_def intro!: exI [of _ "\<lambda>_. True"])
qed

lemma AggregateAll_res:
  assumes "AggregateAll drv c st w = (r, w')"
  shows "same w w' \<and> (case r of Ok ds \<Rightarrow> mset ds = mset (run_pipe (docs w) st (docs w c))
    | Fail e \<Rightarrow> True | Stop p \<Rightarrow> False)"
  using assms unfolding AggregateAll_def
  by (cases rule: Exec_res) (auto simp: same_def cong: res.case_cong dest!: pipe)

end

text \<open>A server that is reachable and whose calls fail only for a reason in the data.\<close>

locale mongo_up = mongo +
  assumes ping_up: "mgo_ping drv w = (b, w') \<Longrightarrow> b"
    and one_up: "mgo_one drv c q w = (Fail e, w') \<Longrightarrow> is_not_found e"
    and all_up: "mgo_all drv c q sel s w \<noteq> (Fail e, w')"
    and many_up: "mgo_many drv c q s skip lim w \<noteq> (Fail e, w')"
    and insert_up: "mgo_insert drv c d w = (Fail e, w') \<Longrightarrow> is_duplicate e"
    and count_up: "mgo_count drv c q w \<noteq> (Fail e, w')"
    and update_all_up: "mgo_update_all drv c q u w \<noteq> (Fail e, w')"
    and update_up: "mgo_update drv c q u w = (Fail e, w') \<Longrightarrow> is_not_found e"
    and remove_all_up: "mgo_remove_all drv c q w \<noteq> (Fail e, w')"
    and ensure_index_up: "mgo_ensure_index drv c ks un w \<noteq> (Fail e, w')"
    and pipe_up: "mgo_pipe drv c st w \<noteq> (Fail e, w')"
    and iter_up: "mgo_iter drv c q w = ((ds, eo), w') \<Longrightarrow> eo = None"
begin

lemma NewSession_up: "\<exists>w'. NewSession drv w = (Ok (), w') \<and> same w w'"
proof -
  obtain b w1 where "mgo_ping drv w = (b, w1)" by fastforce
  then show ?thesis using ping_up ping_same
    by (fastforce simp: NewSession_def MAX_RECONNECT_TIME_def numeral_eq_Suc same_def)
qed

lemma Exec_up:
  assumes "Exec drv op w = (r, w')"
  obtains w1 where "same w w1" "op w1 = (r, w')"
  using assms NewSession_up [of w] unfolding Exec_def andThen_def by auto

lemma GetOne_Fail_up: "GetOne drv c q w = (Fail e, w') \<Longrightarrow> is_not_found e"
  unfolding GetOne_def by (erule Exec_up) (rule one_up)

lemma GetAll_up: "GetAll drv c q sel s w \<noteq> (Fail e, w')"
  unfolding GetAll_def by (auto elim!: Exec_up simp: all_up)

lemma GetMany_up: "GetMany drv c q s skip lim w \<noteq> (Fail e, w')"
  unfolding GetMany_def by (auto elim!: Exec_up simp: many_up)

lemma Insert_Fail_up: "Insert drv c d w = (Fail e, w') \<Longrightarrow> is_duplicate e"
  unfolding Insert_def by (erule Exec_up) (rule insert_up)

lemma Count_up: "Count drv c q w \<noteq> (Fail e, w')"
  unfolding Count_def by (auto elim!: Exec_up simp: count_up)

lemma UpdateAll_up: "UpdateAll drv c q u w \<noteq> (Fail e, w')"
  unfolding UpdateAll_def by (auto elim!: Exec_up simp: update_all_up)

lemma UpdateOne_Fail_up: "UpdateOne drv c q u w = (Fail e, w') \<Longrightarrow> is_not_found e"
  unfolding UpdateOne_def by (erule Exec_up) (rule update_up)

lemma DeleteAll_up: "DeleteAll drv c q w \<noteq> (Fail e, w')"
  unfolding DeleteAll_def by (auto elim!: Exec_up simp: remove_all_up)

lemma AggregateAll_up: "AggregateAll drv c st w \<noteq> (Fail e, w')"
  unfolding AggregateAll_def by (auto elim!: Exec_up simp: pipe_up)

end


section \<open>An in-memory server\<close>

record mem =
  mem_docs :: "string \<Rightarrow> doc list"
  mem_uniq :: "string \<Rightarrow> string list list"

definition mem_sort :: "string \<Rightarrow> doc list \<Rightarrow> doc list" where
  "mem_sort s ds = (if has_prefix s ''-'' then rev (sort_key (\<lambda>d. d (tl s)) ds) else sort_key (\<lambda>d. d s) ds)"

definition mem_err :: "string \<Rightarrow> 'a res" where
  "mem_err s = Fail (Error s)"

definition mem_find :: "string \<Rightarrow> qual list \<Rightarrow> mem \<Rightarrow> doc list" where
  "mem_find c q w = filter (matches q) (mem_docs w c)"

definition mem_put :: "string \<Rightarrow> doc list \<Rightarrow> mem \<Rightarrow> mem" where
  "mem_put c ds w = w\<lparr>mem_docs := (mem_docs w)(c := ds)\<rparr>"

fun update_first :: "('a \<Rightarrow> bool) \<Rightarrow> ('a \<Rightarrow> 'a) \<Rightarrow> 'a list \<Rightarrow> 'a list" where
  "update_first P f [] = []"
| "update_first P f (x # xs) = (if P x then f x # xs else x # update_first P f xs)"

definition mem_mgo :: "mem mgo" where
  "mem_mgo =
     \<lparr>mgo_host = ''mem'',
      mgo_ping = Pair True,
      mgo_dial = Pair True,
      mgo_one = (\<lambda>c q w. (case mem_find c q w of [] \<Rightarrow> mem_err MONGO_NOT_FOUND | d # _ \<Rightarrow> Ok d, w)),
      mgo_all = (\<lambda>c q sel s w. (Ok (mem_sort s (map (select sel) (mem_find c q w))), w)),
      mgo_many = (\<lambda>c q s skip lim w.
        (Ok (take (nat lim) (drop (nat skip) (mem_sort s (mem_find c q w)))), w)),
      mgo_insert = (\<lambda>c d w. if \<exists>ks \<in> set (mem_uniq w c). clash ks d (mem_docs w c)
        then (mem_err MONGO_ERROR_DUPLICATE, w)
        else (Ok (), mem_put c (mem_docs w c @ [d]) w)),
      mgo_count = (\<lambda>c q w. (Ok (int (length (mem_find c q w))), w)),
      mgo_update_all = (\<lambda>c q u w.
        (Ok (), mem_put c (map (\<lambda>d. if matches q d then set_fields u d else d) (mem_docs w c)) w)),
      mgo_update = (\<lambda>c q u w. if mem_find c q w = [] then (mem_err MONGO_NOT_FOUND, w)
        else (Ok (), mem_put c (update_first (matches q) (set_fields u) (mem_docs w c)) w)),
      mgo_remove_all = (\<lambda>c q w. (Ok (), mem_put c (filter (\<lambda>d. \<not> matches q d) (mem_docs w c)) w)),
      mgo_ensure_index = (\<lambda>c ks un w.
        (Ok (), if un then w\<lparr>mem_uniq := (mem_uniq w)(c := ks # mem_uniq w c)\<rparr> else w)),
      mgo_pipe = (\<lambda>c st w. (Ok (run_pipe (mem_docs w) st (mem_docs w c)), w)),
      mgo_iter = (\<lambda>c q w. ((mem_find c q w, None), w))\<rparr>"

lemma mset_mem_sort [simp]: "mset (mem_sort s ds) = mset ds"
  by (simp add: mem_sort_def)

lemma sorted_by_mem_sort [simp]: "sorted_by s (mem_sort s ds)"
  by (simp add: mem_sort_def sorted_by_def)

lemma update_first_eq:
  "filter P xs \<noteq> [] \<Longrightarrow> \<exists>i < length xs. P (xs ! i) \<and> update_first P f xs = xs[i := f (xs ! i)]"
proof (induction xs)
  case (Cons x xs)
  show ?case
  proof (cases "P x")
    case True
    then show ?thesis by (intro exI [of _ 0]) simp
  next
    case False
    then have "\<exists>i < length xs. P (xs ! i) \<and> update_first P f xs = xs[i := f (xs ! i)]"
      using Cons by simp
    then obtain i where "i < length xs" "P (xs ! i)" "update_first P f xs = xs[i := f (xs ! i)]"
      by blast
    then show ?thesis using False by (intro exI [of _ "Suc i"]) simp
  qed
qed simp

lemma mem_error_texts:
  "\<not> is_not_found (reconnect_error mem_mgo)" "\<not> is_duplicate (reconnect_error mem_mgo)"
  "plain_error (reconnect_error mem_mgo)" "plain_error (Error MONGO_NOT_FOUND)"
  "plain_error (Error MONGO_ERROR_DUPLICATE)"
  by (code_simp, code_simp, code_simp, code_simp, code_simp)

interpretation mem: mongo_up mem_mgo mem_docs "\<lambda>w c. set (mem_uniq w c)"
proof (unfold_locales, goal_cases)
  case (6 c q w rd w') then show ?case
    by (auto simp: mem_mgo_def mem_find_def mem_err_def filter_empty_conv mem_error_texts
        split: list.splits dest!: filter_eq_ConsD)
next
  case (8 c q s skip lim w rl w') then show ?case
    by (auto simp: mem_mgo_def mem_find_def
        intro!: exI [of _ "mem_sort s (filter (matches q) (mem_docs w c))"])
next
  case (12 c q u w ru w') then show ?case
    using update_first_eq [of "matches q" "mem_docs w c" "set_fields u"]
    by (auto simp: mem_mgo_def mem_find_def mem_err_def mem_put_def filter_empty_conv mem_error_texts
        split: if_splits)
qed (auto simp: mem_error_texts, auto simp: mem_mgo_def mem_find_def mem_err_def mem_put_def
       is_not_found_def is_duplicate_def mem_error_texts split: if_splits list.splits)

end
