(* ===== verification/Tx_Point_Repo.thy ===== *)
theory Tx_Point_Repo
  imports Mongo_Db
begin

text \<open>
  \<open>src/models/tx_point.go\<close>, with the field names of \<open>src/models/common.go\<close>: the collection
  of badge transaction points. A point is an output that carries badges (type \<open>VOUT\<close>) or
  an input that spends one (type \<open>VIN\<close>, with the spent value negated).
\<close>

section \<open>Field names\<close>

abbreviation TXID :: string where "TXID \<equiv> ''txid''"
abbreviation PRETXID :: string where "PRETXID \<equiv> ''pretxid''"
abbreviation PREINDEX :: string where "PREINDEX \<equiv> ''preindex''"
abbreviation HASH :: string where "HASH \<equiv> ''hash''"
abbreviation INDEX :: string where "INDEX \<equiv> ''index''"
abbreviation USER_INDEX :: string where "USER_INDEX \<equiv> ''user_index''"
abbreviation ID :: string where "ID \<equiv> ''id''"
abbreviation HEIGHT :: string where "HEIGHT \<equiv> ''height''"
abbreviation TYPE_FIELD :: string where "TYPE_FIELD \<equiv> ''type''"
abbreviation STATE :: string where "STATE \<equiv> ''state''"
abbreviation ADDR :: string where "ADDR \<equiv> ''addr''"
abbreviation APPID :: string where "APPID \<equiv> ''appid''"
abbreviation USERID :: string where "USERID \<equiv> ''userid''"
abbreviation TIMESTAMP :: string where "TIMESTAMP \<equiv> ''timestamp''"
abbreviation BADGE_CODE :: string where "BADGE_CODE \<equiv> ''badge_code''"
abbreviation VALUE :: string where "VALUE \<equiv> ''value''"


section \<open>Points\<close>

abbreviation TBL_TX_POINT :: string where "TBL_TX_POINT \<equiv> ''tx_point''"

definition TX_POINT_TYPE_ALL :: int where "TX_POINT_TYPE_ALL = 0"
definition TX_POINT_TYPE_VIN :: int where "TX_POINT_TYPE_VIN = 1"
definition TX_POINT_TYPE_VOUT :: int where "TX_POINT_TYPE_VOUT = 2"

definition TX_POINT_STATE_ALL :: int where "TX_POINT_STATE_ALL = 0"
definition TX_POINT_STATE_MAY_BE_UNSPENT :: int where "TX_POINT_STATE_MAY_BE_UNSPENT = 1"
definition TX_POINT_STATE_PRETTY_SURE_SPENT :: int where "TX_POINT_STATE_PRETTY_SURE_SPENT = 2"

lemmas tx_point_consts =
  TX_POINT_TYPE_ALL_def TX_POINT_TYPE_VIN_def TX_POINT_TYPE_VOUT_def TX_POINT_STATE_ALL_def
  TX_POINT_STATE_MAY_BE_UNSPENT_def TX_POINT_STATE_PRETTY_SURE_SPENT_def

record TxPoint =
  Addr :: string
  Txid :: string
  Index :: int
  Type :: int
  Value :: int
  PreTxid :: string
  PreIndex :: int
  BadgeCode :: string
  Timestamp :: int
  State :: int

text \<open>The BSON encoding of the struct, by its tags, and the decoding into a zeroed struct.\<close>

definition doc_of_TxPoint :: "TxPoint \<Rightarrow> doc" where
  "doc_of_TxPoint p =
     [ADDR \<mapsto> BStr (Addr p), TXID \<mapsto> BStr (Txid p), INDEX \<mapsto> BInt (Index p), TYPE_FIELD \<mapsto> BInt (Type p),
      VALUE \<mapsto> BInt (Value p), PRETXID \<mapsto> BStr (PreTxid p), PREINDEX \<mapsto> BInt (PreIndex p),
      BADGE_CODE \<mapsto> BStr (BadgeCode p), TIMESTAMP \<mapsto> BInt (Timestamp p), STATE \<mapsto> BInt (State p)]"

definition TxPoint_of_doc :: "doc \<Rightarrow> TxPoint" where
  "TxPoint_of_doc d =
     \<lparr>Addr = get_str d ADDR, Txid = get_str d TXID, Index = get_int d INDEX, Type = get_int d TYPE_FIELD,
      Value = get_int d VALUE, PreTxid = get_str d PRETXID, PreIndex = get_int d PREINDEX,
      BadgeCode = get_str d BADGE_CODE, Timestamp = get_int d TIMESTAMP, State = get_int d STATE\<rparr>"

lemma TxPoint_of_doc_of_TxPoint [simp]: "TxPoint_of_doc (doc_of_TxPoint p) = p"
  by (simp add: TxPoint_of_doc_def doc_of_TxPoint_def get_int_def get_str_def)

text \<open>\<open>TxPointRepository.CreateIndex\<close>\<close>

definition TxPoint_CreateIndex :: "'w mgo \<Rightarrow> ('w, unit) io" where
  "TxPoint_CreateIndex drv =
     CreateIndex drv TBL_TX_POINT
       [([TXID, INDEX, TYPE_FIELD], True), ([ADDR], False), ([STATE], False), ([TIMESTAMP], False)]"

definition ForearchUnspentVinTxPoint ::
  "'w mgo \<Rightarrow> int \<Rightarrow> (TxPoint \<Rightarrow> ('w, unit) io) \<Rightarrow> ('w, unit) io" where
  "ForearchUnspentVinTxPoint drv lastTimestamp handle =
     Foreach drv TBL_TX_POINT
       [QLt TIMESTAMP lastTimestamp,
        QEq STATE (BInt TX_POINT_STATE_MAY_BE_UNSPENT), QEq TYPE_FIELD (BInt TX_POINT_TYPE_VIN)]
       (\<lambda>d. handle (TxPoint_of_doc d))"

definition AddTxPoint :: "'w mgo \<Rightarrow> TxPoint \<Rightarrow> ('w, unit) io" where
  "AddTxPoint drv txPoint = Insert drv TBL_TX_POINT (doc_of_TxPoint txPoint)"

definition point_key :: "string \<Rightarrow> int \<Rightarrow> int \<Rightarrow> qual list" where
  "point_key txid index ty = [QEq TXID (BStr txid), QEq INDEX (BInt index), QEq TYPE_FIELD (BInt ty)]"

definition RepoGetTxPoint :: "'w mgo \<Rightarrow> string \<Rightarrow> int \<Rightarrow> int \<Rightarrow> ('w, TxPoint) io" where
  "RepoGetTxPoint drv txid index ty =
     (if ty = TX_POINT_TYPE_ALL then fail (Error ''only support in or out,not all'')
      else andThen (GetOne drv TBL_TX_POINT (point_key txid index ty))
             (\<lambda>d. ret (TxPoint_of_doc d)))"

definition GetTxPoints :: "'w mgo \<Rightarrow> string \<Rightarrow> ('w, TxPoint list) io" where
  "GetTxPoints drv txid =
     andThen (GetAll drv TBL_TX_POINT [QEq TXID (BStr txid)] None INDEX)
       (\<lambda>ds. ret (map TxPoint_of_doc ds))"

definition GetTxPointsByAddr :: "'w mgo \<Rightarrow> string \<Rightarrow> string \<Rightarrow> int \<Rightarrow> ('w, TxPoint list) io" where
  "GetTxPointsByAddr drv addr badgeCode state =
     (let condition = [QEq ADDR (BStr addr), QEq BADGE_CODE (BStr badgeCode)]
            @ (if state \<noteq> TX_POINT_STATE_ALL then [QEq STATE (BInt state)] else [])
      in andThen (GetAll drv TBL_TX_POINT condition None (''-'' @ TIMESTAMP))
           (\<lambda>ds. ret (map TxPoint_of_doc ds)))"

definition DeleteTxPoints :: "'w mgo \<Rightarrow> string \<Rightarrow> ('w, unit) io" where
  "DeleteTxPoints drv txid = DeleteAll drv TBL_TX_POINT [QEq TXID (BStr txid)]"

definition SetTxPointState :: "'w mgo \<Rightarrow> string \<Rightarrow> int \<Rightarrow> int \<Rightarrow> int \<Rightarrow> ('w, unit) io" where
  "SetTxPointState drv txid index ty state =
     (if ty = TX_POINT_TYPE_ALL then fail (Error ''only support in or out,not all'')
      else UpdateOne drv TBL_TX_POINT (point_key txid index ty) [(STATE, BInt state)])"

end
