(* ===== verification/Util_Common.thy ===== *)
theory Util_Common
  imports Go_Strings
begin

text \<open>
  \<open>src/util/common.go\<close>: splitting a string into pieces of bounded size, by which a raw
  transaction is stored in several documents, and the \<open>txid_index\<close> keys by which outputs
  are compared. The helpers for logging are in \<open>Util_Misc\<close>.
\<close>

section \<open>SplitString\<close>

text \<open>
  The loop of \<open>SplitString\<close> over \<open>resultLen\<close>. For \<open>l = 0\<close> the condition \<open>resultLen + l < len(s)\<close>
  stays true and the Go loop does not end, which is the value \<open>None\<close>; a length cannot
  be negative here, every caller passes a positive constant.
\<close>

partial_function (option) SplitString_loop :: "string \<Rightarrow> nat \<Rightarrow> nat \<Rightarrow> string list \<Rightarrow> string list option"
  where [code]:
  "SplitString_loop s l resultLen result =
     (if resultLen + l < length s
      then SplitString_loop s l (resultLen + l) (result @ [take l (drop resultLen s)])
      else Some (if resultLen \<noteq> length s then result @ [drop resultLen s] else result))"

definition SplitString :: "string \<Rightarrow> nat \<Rightarrow> string list option" where
  "SplitString s l = SplitString_loop s l 0 []"

lemma SplitString_loop_spec:
  assumes "0 < l" and "n \<le> length s"
  shows "\<exists>ps. SplitString_loop s l n acc = Some (acc @ ps) \<and> concat ps = drop n s
    \<and> (\<forall>p \<in> set ps. p \<noteq> [] \<and> length p \<le> l)
    \<and> (\<forall>p \<in> set (butlast ps). length p = l)"
  using assms(2)
proof (induction "length s - n" arbitrary: n acc rule: less_induct)
  case less
  show ?case
  proof (cases "n + l < length s")
    case False
    then show ?thesis
      using less.prems
      by (subst SplitString_loop.simps) (auto intro: exI [of _ "[]"] exI [of _ "[drop n s]"])
  next
    case True
    let ?p = "take l (drop n s)"
    have "length s - (n + l) < length s - n" "n + l \<le> length s"
      using True assms(1) by simp_all
    from less.hyps [OF this, of "acc @ [?p]"] obtain ps where ps:
      "SplitString_loop s l (n + l) (acc @ [?p]) = Some ((acc @ [?p]) @ ps)"
      "concat ps = drop (n + l) s" "\<forall>p \<in> set ps. p \<noteq> [] \<and> length p \<le> l"
      "\<forall>p \<in> set (butlast ps). length p = l"
      by blast
    have "SplitString_loop s l n acc = Some (acc @ ?p # ps)"
      using True ps(1) by (subst SplitString_loop.simps) simp
    moreover have "concat (?p # ps) = drop n s"
      using ps(2) append_take_drop_id [of l "drop n s"] by (simp add: add.commute)
    moreover have "length ?p = l" using True by simp
    ultimately show ?thesis
      using ps(3,4) True assms(1) by (intro exI [of _ "?p # ps"]) auto
  qed
qed

lemma SplitString_spec:
  assumes "0 < l"
  obtains ps where "SplitString s l = Some ps" "concat ps = s"
    "\<forall>p \<in> set ps. p \<noteq> [] \<and> length p \<le> l" "\<forall>p \<in> set (butlast ps). length p = l"
  using SplitString_loop_spec [OF assms, of 0 s "[]"] that by (auto simp: SplitString_def)

lemma SplitString_length:
  assumes "0 < l" and "SplitString s l = Some ps"
  shows "length ps = (length s + l - 1) div l"
proof -
  from assms obtain c: "concat ps = s" and b: "\<forall>p \<in> set ps. p \<noteq> [] \<and> length p \<le> l"
    and f: "\<forall>p \<in> set (butlast ps). length p = l"
    by (metis SplitString_spec option.inject)
  show ?thesis
  proof (cases ps rule: rev_exhaust)
    case Nil
    then show ?thesis using c assms(1) by simp
  next
    case (snoc qs q)
    have "sum_list (map length qs) = length qs * l"
      using f snoc by (induction qs arbitrary: ps) auto
    then have "length s = length qs * l + length q"
      using c snoc by (metis concat_append concat.simps append_Nil2 length_append length_concat)
    moreover have "0 < length q" "length q \<le> l" using b snoc by auto
    ultimately have s: "length s + l - 1 = (length qs + 1) * l + (length q - 1)" and "length q - 1 < l"
      by (cases q; simp)+
    then have "(length s + l - 1) div l = length qs + 1"
      by (metis add.right_neutral assms(1) bot_nat_0.not_eq_extremum div_less div_mult_self3)
    then show ?thesis using snoc by simp
  qed
qed


section \<open>GenerateStrFromStrInt\<close>

text \<open>\<open>fmt.Sprintf("%s_%d", a, b)\<close>, for \<open>int\<close> and for \<open>int64\<close>.\<close>

definition GenerateStrFromStrInt :: "string \<Rightarrow> int \<Rightarrow> string" where
  "GenerateStrFromStrInt a b = a @ ''_'' @ format_int b"

definition GenerateStrFromStrInt64 :: "string \<Rightarrow> int \<Rightarrow> string" where
  "GenerateStrFromStrInt64 a b = a @ ''_'' @ format_int b"

lemma append_sep_inject:
  assumes "c \<notin> set s" "c \<notin> set t"
  shows "a @ c # s = b @ c # t \<longleftrightarrow> a = b \<and> s = t"
proof
  assume e: "a @ c # s = b @ c # t"
  have tw: "takeWhile (\<lambda>x. x \<noteq> c) (rev (d @ c # u)) = rev u" if "c \<notin> set u" for d u
    using that by (auto simp: takeWhile_append intro!: takeWhile_eq_all_conv [THEN iffD2])
  have "s = t" using tw [of s a] tw [of t b] assms e by simp
  with e show "a = b \<and> s = t" by simp
qed simp

lemma GenerateStrFromStrInt_eq_iff [simp]:
  "GenerateStrFromStrInt a i = GenerateStrFromStrInt b j \<longleftrightarrow> a = b \<and> i = j"
  by (simp add: GenerateStrFromStrInt_def append_sep_inject format_int_chars)

end
