(* ===== verification/Config.thy ===== *)
theory Config
  imports Go_Strings
begin

text \<open>
  \<open>src/conf/config.go\<close> and \<open>src/util/error.go\<close>: the constants, the peer configuration, the
  two globals \<open>GStartHeight\<close> and \<open>GNetParam\<close> with \<open>InitGConfig\<close>, and the error codes.
\<close>

definition ENV_RGTEST :: string where "ENV_RGTEST = ''regtest''"
definition ENV_MAINNET :: string where "ENV_MAINNET = ''mainnet''"
definition REGTEST_START_HEIGHT :: int where "REGTEST_START_HEIGHT = 0"
definition MAINNET_START_HEIGHT :: int where "MAINNET_START_HEIGHT = 650000"
definition PARTITION_BLOCK_COUNT :: int where "PARTITION_BLOCK_COUNT = 10"
definition COMPARE_PARTITIONS_COUNT :: int where "COMPARE_PARTITIONS_COUNT = 10"
definition RE_CONPUTE_PARTITION_COUNT :: int where "RE_CONPUTE_PARTITION_COUNT = 1"

record PeerConfig =
  Host :: string
  Pubkey :: string

text \<open>The network parameters of \<open>chaincfg\<close> that are selected; their content is not read here.\<close>

datatype net_params = RegressionNetParams | MainNetParams

record gconfig =
  GStartHeight :: int
  GNetParam :: net_params

definition InitGConfig :: "string \<Rightarrow> gconfig res" where
  "InitGConfig env =
     (if env = ENV_RGTEST
      then Ok \<lparr>GStartHeight = REGTEST_START_HEIGHT, GNetParam = RegressionNetParams\<rparr>
      else if env = ENV_MAINNET
      then Ok \<lparr>GStartHeight = MAINNET_START_HEIGHT, GNetParam = MainNetParams\<rparr>
      else Fail (Error (''not support env '' @ env)))"

definition HTTP_OK_RESPONSE_CODE :: int where "HTTP_OK_RESPONSE_CODE = 0"
definition HTTP_READ_BODY_ERROR_CODE :: int where "HTTP_READ_BODY_ERROR_CODE = -1"
definition HTTP_WRONG_FORMAT_ERROR_CODE :: int where "HTTP_WRONG_FORMAT_ERROR_CODE = -2"
definition HTTP_SERVICE_ERROR_CODE :: int where "HTTP_SERVICE_ERROR_CODE = -3"
definition ERR_UNKNOW_UTXO_CODE :: int where "ERR_UNKNOW_UTXO_CODE = -4"
definition ERR_UNKNOW_TX_CODE :: int where "ERR_UNKNOW_TX_CODE = -5"
definition ERR_ILLEGAL_VIN_CODE :: int where "ERR_ILLEGAL_VIN_CODE = -6"
definition ERR_PARAMETERS_CODE :: int where "ERR_PARAMETERS_CODE = -7"
definition ERR_NOT_ENOUGH_BADGE_CODE :: int where "ERR_NOT_ENOUGH_BADGE_CODE = -8"

lemmas error_codes [go_simps] =
  HTTP_OK_RESPONSE_CODE_def HTTP_READ_BODY_ERROR_CODE_def HTTP_WRONG_FORMAT_ERROR_CODE_def
  HTTP_SERVICE_ERROR_CODE_def ERR_UNKNOW_UTXO_CODE_def ERR_UNKNOW_TX_CODE_def
  ERR_ILLEGAL_VIN_CODE_def ERR_PARAMETERS_CODE_def ERR_NOT_ENOUGH_BADGE_CODE_def

definition NewCodeError :: "int \<Rightarrow> string \<Rightarrow> goerr" where
  [go_simps]: "NewCodeError code errStr = CodeError code errStr"

lemma InitGConfig_start_nonneg: "InitGConfig env = Ok g \<Longrightarrow> 0 \<le> GStartHeight g"
  by (auto simp: InitGConfig_def REGTEST_START_HEIGHT_def MAINNET_START_HEIGHT_def split: if_splits)

end
