(* ===== verification/Badge_Script.thy ===== *)
theory Badge_Script
  imports Config
begin

text \<open>
  The badge locking script of \<open>src/util/bitcoin_util.go\<close>: \<open>CreateBadgeLockScript\<close> writes it,
  \<open>ParseBadgeVoutScript\<close> recognises it. A badge output is
  \<open>prefix \<cdot> pubkey hash (20 bytes) \<cdot> suffix \<cdot> OP_RETURN \<cdot> push 8 \<cdot> value (int64, little endian)\<close>.

  Addresses and the script builder belong to \<open>btcutil\<close> and \<open>txscript\<close>: their functions are
  the fields of the argument \<open>lib\<close>, and \<open>addr_lib_ok\<close> states the documented behaviour that
  the theorems rely on.
\<close>

section \<open>Constants and library parameters\<close>

definition TX_VERSION :: int where "TX_VERSION = 2"

definition BADGE_FLAG :: string where "BADGE_FLAG = ''badge''"

definition BADGE_CODE_PART_HEX_PREFIX :: string where
  "BADGE_CODE_PART_HEX_PREFIX = ''5101400100015101b101b26114''"

definition BADGE_CODE_PART_HEX_SUFFIX :: string where
  "BADGE_CODE_PART_HEX_SUFFIX =
     ''005179517a7561587905626164676587695979a9517987695a795a79ac7777777777777777777777''"

definition PUBKEY_HASH_LEN :: nat where "PUBKEY_HASH_LEN = 20"

definition HEX_PUBKEY_HASH_LEN :: nat where "HEX_PUBKEY_HASH_LEN = 2 * PUBKEY_HASH_LEN"

definition BADGE_CODE_PART_LEN :: nat where
  "BADGE_CODE_PART_LEN =
     length BADGE_CODE_PART_HEX_PREFIX div 2 + length BADGE_CODE_PART_HEX_SUFFIX div 2
       + PUBKEY_HASH_LEN"

definition BADGE_DATA_PART_HEX_PRIFIX :: string where "BADGE_DATA_PART_HEX_PRIFIX = ''6a08''"

definition BADGE_DATA_LEN :: nat where "BADGE_DATA_LEN = 8"

definition BADGE_DATA_PART_LEN :: nat where
  "BADGE_DATA_PART_LEN = length BADGE_DATA_PART_HEX_PRIFIX div 2 + BADGE_DATA_LEN"

definition BADGE_LOCKING_SCRIPT_LEN :: nat where
  "BADGE_LOCKING_SCRIPT_LEN = BADGE_CODE_PART_LEN + BADGE_DATA_PART_LEN"

definition MAX_CREATE_BADGE_VALUE :: int where "MAX_CREATE_BADGE_VALUE = 9223372036854775807"

lemmas badge_consts =
  PUBKEY_HASH_LEN_def HEX_PUBKEY_HASH_LEN_def BADGE_CODE_PART_LEN_def
  BADGE_DATA_PART_HEX_PRIFIX_def BADGE_DATA_LEN_def BADGE_DATA_PART_LEN_def
  BADGE_LOCKING_SCRIPT_LEN_def

text \<open>
  \<open>ScriptAddress\<close>, \<open>AddrString\<close>: the methods of \<open>btcutil.Address\<close>; \<open>NewAddressPubKeyHash\<close> and
  \<open>DecodeAddress\<close>: its constructors; \<open>OpReturnData\<close>: \<open>txscript.NewScriptBuilder()
  .AddOp(OP_RETURN).AddData(data).Script()\<close>.
\<close>

record 'a addr_lib =
  ScriptAddress :: "'a \<Rightarrow> byte list"
  AddrString :: "'a \<Rightarrow> string"
  NewAddressPubKeyHash :: "byte list \<Rightarrow> net_params \<Rightarrow> 'a res"
  DecodeAddress :: "string \<Rightarrow> net_params \<Rightarrow> 'a res"
  OpReturnData :: "byte list \<Rightarrow> byte list res"

text \<open>
  Documented behaviour: a public-key-hash address is made from exactly 20 bytes and keeps
  them; a push of eight data bytes after \<open>OP_RETURN\<close> is \<open>6a 08\<close> and the bytes.
\<close>

definition addr_lib_ok :: "'a addr_lib \<Rightarrow> bool" where
  "addr_lib_ok lib \<longleftrightarrow>
     (\<forall>h net a. NewAddressPubKeyHash lib h net = Ok a \<longrightarrow> ScriptAddress lib a = h) \<and>
     (\<forall>h net. length h = 20 \<longrightarrow> (\<exists>a. NewAddressPubKeyHash lib h net = Ok a)) \<and>
     (\<forall>d. length d = 8 \<longrightarrow> OpReturnData lib d = Ok (0x6A # 0x08 # d))"


section \<open>The code\<close>

definition Int64ToBytes :: "int \<Rightarrow> byte list res" where
  "Int64ToBytes num = Ok (le_bytes 8 num)"

primrec or_panic :: "'a res \<Rightarrow> ('a \<Rightarrow> 'b res) \<Rightarrow> 'b res" where
  "or_panic (Ok x) f = f x"
| "or_panic (Fail e) f = Panic (err_str e)"
| "or_panic (Stop p) f = Stop p"

definition CreateBadgeLockScript :: "'a addr_lib \<Rightarrow> 'a \<Rightarrow> int \<Rightarrow> byte list res" where
  "CreateBadgeLockScript lib address value =
     (if value < 0 then Fail (Error ''error value'')
      else or_panic (hex_decode BADGE_CODE_PART_HEX_PREFIX) (\<lambda>pre.
           or_panic (hex_decode BADGE_CODE_PART_HEX_SUFFIX) (\<lambda>suf.
           bind_res (Int64ToBytes value) (\<lambda>valueByte.
           or_panic (OpReturnData lib valueByte) (\<lambda>dataPart.
             Ok (pre @ ScriptAddress lib address @ suf @ dataPart))))))"

record 'a BadgeVout =
  BadgeValue :: int
  Address :: 'a

definition ParseBadgeVoutScript :: "'a addr_lib \<Rightarrow> byte list \<Rightarrow> net_params \<Rightarrow> 'a BadgeVout res" where
  "ParseBadgeVoutScript lib script net =
     (if length script \<noteq> BADGE_LOCKING_SCRIPT_LEN then Fail (Error ''not badge vout 1'')
      else let hexScript = hex_encode script
      in if \<not> has_prefix hexScript BADGE_CODE_PART_HEX_PREFIX then Fail (Error ''not badge vout 2'')
      else if str_index hexScript BADGE_CODE_PART_HEX_SUFFIX
                \<noteq> int (length BADGE_CODE_PART_HEX_PREFIX + HEX_PUBKEY_HASH_LEN)
           then Fail (Error ''not badge vout 3'')
      else if hexScript ! 146 \<noteq> char_of (0x36 :: nat) \<or> hexScript ! 147 \<noteq> char_of (0x61 :: nat)
            \<or> hexScript ! 148 \<noteq> char_of (0x30 :: nat) \<or> hexScript ! 149 \<noteq> char_of (0x38 :: nat)
           then Fail (Error ''not badge vout 4'')
      else let p = length BADGE_CODE_PART_HEX_PREFIX div 2
      in bind_res (NewAddressPubKeyHash lib (take PUBKEY_HASH_LEN (drop p script)) net) (\<lambda>address.
         let value = le_int64 (drop ((length BADGE_CODE_PART_HEX_PREFIX + HEX_PUBKEY_HASH_LEN
               + length BADGE_CODE_PART_HEX_SUFFIX + length BADGE_DATA_PART_HEX_PRIFIX) div 2) script)
         in if value < 0 then Fail (Error ''error value'')
            else Ok \<lparr>BadgeValue = value, Address = address\<rparr>))"


section \<open>The script format\<close>

definition badge_prefix :: "byte list" where
  "badge_prefix = [0x51, 0x01, 0x40, 0x01, 0x00, 0x01, 0x51, 0x01, 0xB1, 0x01, 0xB2, 0x61, 0x14]"

definition badge_suffix :: "byte list" where
  "badge_suffix = [0x00, 0x51, 0x79, 0x51, 0x7A, 0x75, 0x61, 0x58, 0x79, 0x05, 0x62, 0x61, 0x64, 0x67, 0x65,
     0x87, 0x69, 0x59, 0x79, 0xA9, 0x51, 0x79, 0x87, 0x69, 0x5A, 0x79, 0x5A, 0x79, 0xAC, 0x77,
     0x77, 0x77, 0x77, 0x77, 0x77, 0x77, 0x77, 0x77, 0x77, 0x77]"

text \<open>What a badge output script is, as bytes.\<close>

definition badge_script :: "byte list \<Rightarrow> int \<Rightarrow> byte list" where
  "badge_script h v = badge_prefix @ h @ badge_suffix @ [0x6A, 0x08] @ le_bytes 8 v"

lemma length_badge_parts [simp]:
  "length badge_prefix = 13" "length badge_suffix = 40"
  "length BADGE_CODE_PART_HEX_PREFIX = 26" "length BADGE_CODE_PART_HEX_SUFFIX = 80"
  by (simp_all add: badge_prefix_def badge_suffix_def BADGE_CODE_PART_HEX_PREFIX_def
      BADGE_CODE_PART_HEX_SUFFIX_def)

lemma badge_locking_script_len [simp]: "BADGE_LOCKING_SCRIPT_LEN = 83"
  by (simp add: badge_consts)

lemma hex_badge_prefix: "hex_encode badge_prefix = BADGE_CODE_PART_HEX_PREFIX"
  by code_simp

lemma hex_badge_suffix: "hex_encode badge_suffix = BADGE_CODE_PART_HEX_SUFFIX"
  by code_simp

lemma hex_decode_badge_parts [simp]:
  "hex_decode BADGE_CODE_PART_HEX_PREFIX = Ok badge_prefix"
  "hex_decode BADGE_CODE_PART_HEX_SUFFIX = Ok badge_suffix"
  by (simp_all flip: hex_badge_prefix hex_badge_suffix)

text \<open>
  \<open>strings.Index\<close> returns the first occurrence, so the position test of the parser could
  reject a well-formed script in which the suffix also occurs earlier. It cannot: the
  suffix does not overlap itself far enough.
\<close>

lemma badge_suffix_no_border:
  "m < 66 \<Longrightarrow> \<exists>i < 80. 66 \<le> m + i \<and>
     BADGE_CODE_PART_HEX_SUFFIX ! i \<noteq> BADGE_CODE_PART_HEX_SUFFIX ! (m + i - 66)"
proof -
  have "\<forall>m \<in> set [0..<66]. \<exists>i \<in> set [0..<80]. 66 \<le> m + i \<and>
     BADGE_CODE_PART_HEX_SUFFIX ! i \<noteq> BADGE_CODE_PART_HEX_SUFFIX ! (m + i - 66)"
    by code_simp
  then show "m < 66 \<Longrightarrow> ?thesis" by force
qed

lemma badge_suffix_index:
  assumes "length s = 166"
  shows "str_index s BADGE_CODE_PART_HEX_SUFFIX = 66 \<longleftrightarrow>
    take 80 (drop 66 s) = BADGE_CODE_PART_HEX_SUFFIX"
proof -
  let ?S = BADGE_CODE_PART_HEX_SUFFIX
  have pre: "prefix ?S (drop m s) \<longleftrightarrow> take 80 (drop m s) = ?S" for m
    by (simp add: prefix_iff_take)
  have "\<not> prefix ?S (drop m s)" if at66: "take 80 (drop 66 s) = ?S" and m: "m < 66" for m
  proof
    assume "prefix ?S (drop m s)"
    then have at_m: "take 80 (drop m s) = ?S" by (simp add: pre)
    obtain i where i: "i < 80" "66 \<le> m + i" "?S ! i \<noteq> ?S ! (m + i - 66)"
      using badge_suffix_no_border [OF m] by blast
    have "?S ! i = s ! (m + i)"
      using i(1) m assms by (subst at_m [symmetric]) simp
    moreover have "?S ! (m + i - 66) = s ! (m + i)"
      using i(1,2) m assms by (subst at66 [symmetric]) simp
    ultimately show False using i(3) by simp
  qed
  then show ?thesis
    using str_index_eq_iff [of s ?S 66] assms by (auto simp: pre)
qed

lemma nth4_eq_iff:
  assumes "n + 4 \<le> length s"
  shows "s ! n = a \<and> s ! (n + 1) = b \<and> s ! (n + 2) = c \<and> s ! (n + 3) = d \<longleftrightarrow>
    take 4 (drop n s) = [a, b, c, d]"
proof -
  have "take 4 (drop n s) = [s ! n, s ! (n + 1), s ! (n + 2), s ! (n + 3)]"
    using assms by (simp add: numeral_eq_Suc Cons_nth_drop_Suc [symmetric])
  then show ?thesis by auto
qed

lemma badge_hex_tests:
  assumes "length s = 83"
  shows "has_prefix (hex_encode s) BADGE_CODE_PART_HEX_PREFIX \<longleftrightarrow> take 13 s = badge_prefix"
    and "str_index (hex_encode s) BADGE_CODE_PART_HEX_SUFFIX = 66 \<longleftrightarrow>
      take 40 (drop 33 s) = badge_suffix"
    and "(hex_encode s ! 146 = char_of (0x36 :: nat) \<and> hex_encode s ! 147 = char_of (0x61 :: nat) \<and>
      hex_encode s ! 148 = char_of (0x30 :: nat) \<and> hex_encode s ! 149 = char_of (0x38 :: nat)) \<longleftrightarrow>
      take 2 (drop 73 s) = [0x6A, 0x08]"
proof -
  show "has_prefix (hex_encode s) BADGE_CODE_PART_HEX_PREFIX \<longleftrightarrow> take 13 s = badge_prefix"
    using take_hex_encode [of 13 s] by (simp add: has_prefix_def flip: hex_badge_prefix)
  have "take 80 (drop 66 (hex_encode s)) = hex_encode (take 40 (drop 33 s))"
    using drop_hex_encode [of 33 s] take_hex_encode [of 40 "drop 33 s"] by simp
  then show "str_index (hex_encode s) BADGE_CODE_PART_HEX_SUFFIX = 66 \<longleftrightarrow>
      take 40 (drop 33 s) = badge_suffix"
    using assms badge_suffix_index [of "hex_encode s"] by (simp flip: hex_badge_suffix)
  have "[char_of (0x36 :: nat), char_of (0x61 :: nat), char_of (0x30 :: nat), char_of (0x38 :: nat)]
      = hex_encode [0x6A, 0x08]" by code_simp
  moreover have "take 4 (drop 146 (hex_encode s)) = hex_encode (take 2 (drop 73 s))"
    using drop_hex_encode [of 73 s] take_hex_encode [of 2 "drop 73 s"] by simp
  ultimately show "(hex_encode s ! 146 = char_of (0x36 :: nat) \<and>
      hex_encode s ! 147 = char_of (0x61 :: nat) \<and> hex_encode s ! 148 = char_of (0x30 :: nat) \<and>
      hex_encode s ! 149 = char_of (0x38 :: nat)) \<longleftrightarrow> take 2 (drop 73 s) = [0x6A, 0x08]"
    using nth4_eq_iff [of 146 "hex_encode s"] assms by simp
qed

lemma split_badge_script:
  assumes "length s = 83"
  shows "s = take 13 s @ take 20 (drop 13 s) @ take 40 (drop 33 s) @ take 2 (drop 73 s) @ drop 75 s"
proof -
  have d: "drop n s = take k (drop n s) @ drop (n + k) s" for n k
    using append_take_drop_id [of k "drop n s"] by (simp add: add.commute)
  show ?thesis
    using d [of 0 13] d [of 13 20] d [of 33 40] d [of 73 2] by simp
qed

lemma badge_script_slices:
  assumes "length h = 20"
  shows "length (badge_script h v) = 83" "take 13 (badge_script h v) = badge_prefix"
    "take 20 (drop 13 (badge_script h v)) = h" "take 40 (drop 33 (badge_script h v)) = badge_suffix"
    "take 2 (drop 73 (badge_script h v)) = [0x6A, 0x08]" "drop 75 (badge_script h v) = le_bytes 8 v"
  using assms by (simp_all add: badge_script_def)

lemma ParseBadgeVoutScript_eq:
  "ParseBadgeVoutScript lib s net = Ok bv \<longleftrightarrow>
     length s = 83 \<and> take 13 s = badge_prefix \<and> take 40 (drop 33 s) = badge_suffix \<and>
     take 2 (drop 73 s) = [0x6A, 0x08] \<and> 0 \<le> le_int64 (drop 75 s) \<and>
     (\<exists>a. NewAddressPubKeyHash lib (take 20 (drop 13 s)) net = Ok a \<and>
        bv = \<lparr>BadgeValue = le_int64 (drop 75 s), Address = a\<rparr>)"
proof (cases "length s = 83")
  case True
  show ?thesis
    using badge_hex_tests [OF True] True
    by (auto simp: ParseBadgeVoutScript_def Let_def badge_consts)
next
  case False
  then show ?thesis by (simp add: ParseBadgeVoutScript_def)
qed

lemma CreateBadgeLockScript_eq:
  assumes "addr_lib_ok lib"
  shows "CreateBadgeLockScript lib a v =
    (if v < 0 then Fail (Error ''error value'') else Ok (badge_script (ScriptAddress lib a) v))"
  using assms
  by (simp add: CreateBadgeLockScript_def Int64ToBytes_def addr_lib_ok_def badge_script_def)

lemma ParseBadgeVoutScript_badge_script:
  assumes "length h = 20" "0 \<le> v" "v \<le> max_int64" "NewAddressPubKeyHash lib h net = Ok a"
  shows "ParseBadgeVoutScript lib (badge_script h v) net = Ok \<lparr>BadgeValue = v, Address = a\<rparr>"
  using assms badge_script_slices [OF assms(1), of v]
  by (simp add: ParseBadgeVoutScript_eq le_int64_le_bytes is_int64_nonneg)

lemma ParseBadgeVoutScript_value:
  assumes "ParseBadgeVoutScript lib s net = Ok bv"
  shows "0 \<le> BadgeValue bv" "BadgeValue bv \<le> max_int64"
proof -
  have "is_int64 (le_int64 bs)" for bs by (simp add: le_int64_def)
  then show "0 \<le> BadgeValue bv" "BadgeValue bv \<le> max_int64"
    using assms by (auto simp: ParseBadgeVoutScript_eq is_int64_le_max)
qed

lemma ParseBadgeVoutScript_no_Stop:
  assumes "\<And>h net p. NewAddressPubKeyHash lib h net \<noteq> Stop p"
  shows "ParseBadgeVoutScript lib s net \<noteq> Stop p"
  using assms
  by (auto simp: ParseBadgeVoutScript_def Let_def bind_res_eq_Stop split: if_splits)

text \<open>
  An instance of the address library for the witnesses: addresses are their hash bytes,
  written in hexadecimal.
\<close>

definition hash_addr_lib :: "byte list addr_lib" where
  "hash_addr_lib =
     \<lparr>ScriptAddress = (\<lambda>a. a), AddrString = hex_encode,
      NewAddressPubKeyHash = (\<lambda>h net. if length h = 20 then Ok h
        else Fail (Error ''pkHash must be 20 bytes'')),
      DecodeAddress = (\<lambda>s net. bind_res (hex_decode s) (\<lambda>h. if length h = 20 then Ok h
        else Fail (Error ''decoded address is of unknown size''))),
      OpReturnData = (\<lambda>d. Ok (0x6A # word_of_nat (length d) # d))\<rparr>"

lemma hash_addr_lib_ok: "addr_lib_ok hash_addr_lib"
  by (auto simp: addr_lib_ok_def hash_addr_lib_def)


section \<open>Properties\<close>

text \<open>
  C28: the parser accepts exactly the badge scripts. A script is parsed as a badge output
  with value \<open>v\<close> and address \<open>a\<close> if and only if it is, byte for byte, the badge script of
  the 20-byte hash of \<open>a\<close> and of \<open>v\<close>, and \<open>v\<close> is a non-negative \<open>int64\<close>.
\<close>

theorem ParseBadgeVoutScript_exact:
  assumes "addr_lib_ok lib"
  shows "ParseBadgeVoutScript lib s net = Ok \<lparr>BadgeValue = v, Address = a\<rparr> \<longleftrightarrow>
    (\<exists>h. length h = 20 \<and> s = badge_script h v \<and> 0 \<le> v \<and> v \<le> max_int64
       \<and> NewAddressPubKeyHash lib h net = Ok a)"
proof
  assume p: "ParseBadgeVoutScript lib s net = Ok \<lparr>BadgeValue = v, Address = a\<rparr>"
  let ?h = "take 20 (drop 13 s)"
  from p have s: "length s = 83" "take 13 s = badge_prefix" "take 40 (drop 33 s) = badge_suffix"
    "take 2 (drop 73 s) = [0x6A, 0x08]" "v = le_int64 (drop 75 s)"
    and a: "NewAddressPubKeyHash lib ?h net = Ok a"
    by (auto simp: ParseBadgeVoutScript_eq)
  have "le_bytes 8 v = drop 75 s" using s(1,5) by (simp add: le_bytes_le_int64)
  then have "s = badge_script ?h v"
    using split_badge_script [OF s(1)] s(2-4) by (simp add: badge_script_def)
  moreover have "length ?h = 20" using s(1) by simp
  moreover have "0 \<le> v" "v \<le> max_int64" using ParseBadgeVoutScript_value [OF p] by simp_all
  ultimately show "\<exists>h. length h = 20 \<and> s = badge_script h v \<and> 0 \<le> v \<and> v \<le> max_int64
       \<and> NewAddressPubKeyHash lib h net = Ok a"
    using a by blast
qed (auto simp: ParseBadgeVoutScript_badge_script)

theorem ParseBadgeVoutScript_exact_witness:
  "ParseBadgeVoutScript hash_addr_lib (badge_script (replicate 20 7) 10000) MainNetParams
     = Ok \<lparr>BadgeValue = 10000, Address = replicate 20 7\<rparr>"
proof -
  have "NewAddressPubKeyHash hash_addr_lib (replicate 20 7) MainNetParams = Ok (replicate 20 7)"
    by (simp add: hash_addr_lib_def)
  then show ?thesis
    using ParseBadgeVoutScript_exact [OF hash_addr_lib_ok,
        of "badge_script (replicate 20 7) 10000" MainNetParams 10000 "replicate 20 7"]
    by fastforce
qed

text \<open>
  C29: what \<open>CreateBadgeLockScript\<close> writes, \<open>ParseBadgeVoutScript\<close> reads back. For an address
  with a 20-byte script address and a non-negative \<open>int64\<close> amount the script is created
  and parses to the same amount and to the public-key-hash address of the same hash.
\<close>

theorem CreateBadgeLockScript_roundtrip:
  assumes "addr_lib_ok lib" and "length (ScriptAddress lib a) = 20"
    and "0 \<le> v" and "v \<le> max_int64"
  shows "\<exists>s b. CreateBadgeLockScript lib a v = Ok s \<and>
    NewAddressPubKeyHash lib (ScriptAddress lib a) net = Ok b \<and>
    ScriptAddress lib b = ScriptAddress lib a \<and>
    ParseBadgeVoutScript lib s net = Ok \<lparr>BadgeValue = v, Address = b\<rparr>"
proof -
  obtain b where b: "NewAddressPubKeyHash lib (ScriptAddress lib a) net = Ok b"
    using assms(1,2) unfolding addr_lib_ok_def by blast
  then have "ScriptAddress lib b = ScriptAddress lib a"
    using assms(1) by (auto simp: addr_lib_ok_def)
  then show ?thesis
    using b assms ParseBadgeVoutScript_badge_script [OF assms(2-4) b]
    by (simp add: CreateBadgeLockScript_eq)
qed

theorem CreateBadgeLockScript_roundtrip_witness:
  "\<exists>s b. CreateBadgeLockScript hash_addr_lib (replicate 20 9) 42 = Ok s \<and>
     NewAddressPubKeyHash hash_addr_lib (replicate 20 9) RegressionNetParams = Ok b \<and>
     b = replicate 20 9 \<and>
     ParseBadgeVoutScript hash_addr_lib s RegressionNetParams = Ok \<lparr>BadgeValue = 42, Address = b\<rparr>"
  using CreateBadgeLockScript_roundtrip
    [OF hash_addr_lib_ok, of "replicate 20 9" 42 RegressionNetParams]
  by (simp add: hash_addr_lib_def)

text \<open>
  An address whose script address is not 20 bytes long (a pay-to-public-key address
  has 33 or 65) still gets a locking script, but one that no node recognises as a badge
  output: the badges sent there are burnt.
\<close>

theorem CreateBadgeLockScript_other_length_lost:
  assumes "addr_lib_ok lib" and "length (ScriptAddress lib a) \<noteq> 20" and "0 \<le> v"
  shows "\<exists>s. CreateBadgeLockScript lib a v = Ok s \<and>
    ParseBadgeVoutScript lib s net = Fail (Error ''not badge vout 1'')"
  using assms
  by (auto simp: CreateBadgeLockScript_eq ParseBadgeVoutScript_def badge_script_def)

theorem CreateBadgeLockScript_other_length_lost_witness:
  "\<exists>s. CreateBadgeLockScript hash_addr_lib (replicate 33 2) 5 = Ok s \<and>
     ParseBadgeVoutScript hash_addr_lib s MainNetParams = Fail (Error ''not badge vout 1'')"
  using CreateBadgeLockScript_other_length_lost [OF hash_addr_lib_ok, of "replicate 33 2" 5 MainNetParams]
  by (simp add: hash_addr_lib_def)

end
