(* ===== verification/Wire.thy ===== *)
theory Wire
  imports Badge_Script
begin

text \<open>
  The transactions of \<open>btcd/wire\<close> as the program sees them, with the thin wrappers of
  \<open>src/util/bitcoin_util.go\<close>. A \<open>chainhash.Hash\<close> is represented by the text its \<open>String\<close>
  method returns, the only view of it the program uses. Hashing and the wire encoding
  belong to \<open>btcd\<close>; they are the fields of \<open>tx_lib\<close>.
\<close>

record OutPoint =
  Hash :: string
  OutIndex :: int

record TxIn =
  PreviousOutPoint :: OutPoint
  SignatureScript :: "byte list"
  Sequence :: int

record TxOut =
  OutValue :: int
  PkScript :: "byte list"

record MsgTx =
  Version :: int
  TxIns :: "TxIn list"
  TxOuts :: "TxOut list"
  LockTime :: int

record tx_lib =
  TxHash :: "MsgTx \<Rightarrow> string"
  Serialize :: "MsgTx \<Rightarrow> byte list"
  Deserialize :: "byte list \<Rightarrow> MsgTx res"
  NewHashFromStr :: "string \<Rightarrow> string res"

text \<open>
  Documented behaviour, for one transaction: the text of its hash is 64 hexadecimal digits
  in lower case, i.e. the encoding of 32 bytes, and decoding its encoding gives it back.
\<close>

definition tx_ok :: "tx_lib \<Rightarrow> MsgTx \<Rightarrow> bool" where
  "tx_ok lib t \<longleftrightarrow>
     (\<exists>bs. length bs = 32 \<and> TxHash lib t = hex_encode bs) \<and>
     Deserialize lib (Serialize lib t) = Ok t"

definition GetHashByte :: "string \<Rightarrow> byte list res" where
  "GetHashByte hash = or_panic (hex_decode hash) Ok"

definition SeserializeMsgTxBytes :: "tx_lib \<Rightarrow> MsgTx \<Rightarrow> byte list" where
  "SeserializeMsgTxBytes lib msgtx = Serialize lib msgtx"

definition SeserializeMsgTxStr :: "tx_lib \<Rightarrow> MsgTx \<Rightarrow> string" where
  "SeserializeMsgTxStr lib msgtx = hex_encode (SeserializeMsgTxBytes lib msgtx)"

definition DeserializeTxBytes :: "tx_lib \<Rightarrow> byte list \<Rightarrow> MsgTx res" where
  "DeserializeTxBytes lib txbytes = Deserialize lib txbytes"

definition DeserializeTxStr :: "tx_lib \<Rightarrow> string \<Rightarrow> MsgTx res" where
  "DeserializeTxStr lib rawtx = bind_res (hex_decode rawtx) (DeserializeTxBytes lib)"

text \<open>The constructors \<open>NewMsgTx\<close>, \<open>NewTxIn\<close>, \<open>NewTxOut\<close>, \<open>AddTxIn\<close>, \<open>AddTxOut\<close> of \<open>wire\<close>.\<close>

definition NewMsgTx :: "int \<Rightarrow> MsgTx" where
  "NewMsgTx version = \<lparr>Version = version, TxIns = [], TxOuts = [], LockTime = 0\<rparr>"

definition NewTxIn :: "OutPoint \<Rightarrow> byte list \<Rightarrow> TxIn" where
  "NewTxIn prevOut sigScript =
     \<lparr>PreviousOutPoint = prevOut, SignatureScript = sigScript, Sequence = 0xFFFFFFFF\<rparr>"

definition AddTxIn :: "TxIn \<Rightarrow> MsgTx \<Rightarrow> MsgTx" where
  "AddTxIn ti msgTx = msgTx\<lparr>TxIns := TxIns msgTx @ [ti]\<rparr>"

definition AddTxOut :: "TxOut \<Rightarrow> MsgTx \<Rightarrow> MsgTx" where
  "AddTxOut to msgTx = msgTx\<lparr>TxOuts := TxOuts msgTx @ [to]\<rparr>"

lemma DeserializeTxStr_SeserializeMsgTxStr:
  "tx_ok lib t \<Longrightarrow> DeserializeTxStr lib (SeserializeMsgTxStr lib t) = Ok t"
  by (simp add: DeserializeTxStr_def SeserializeMsgTxStr_def SeserializeMsgTxBytes_def
      DeserializeTxBytes_def tx_ok_def)

lemma GetHashByte_TxHash:
  assumes "tx_ok lib t"
  obtains bs where "GetHashByte (TxHash lib t) = Ok bs" "hex_encode bs = TxHash lib t"
  using assms unfolding tx_ok_def GetHashByte_def
  by (metis hex_decode_encode or_panic.simps(1))

text \<open>The transactions whose outputs a transaction spends.\<close>

definition pre_hashes :: "MsgTx \<Rightarrow> string list" where
  "pre_hashes t = map (\<lambda>i. Hash (PreviousOutPoint i)) (TxIns t)"

end
