(* ===== verification/Tx_Info_Repo.thy ===== *)
theory Tx_Info_Repo
  imports Tx_Point_Repo Util_Common Wire
begin

text \<open>
  \<open>src/models/transaction_info.go\<close>: raw transactions, stored as one document per segment of
  the hexadecimal text (\<open>index\<close> 0, 1, \<dots>) and one document of \<open>index\<close> -1 with height, block
  hash, time and processing state.
\<close>

section \<open>Data\<close>

abbreviation TBL_RAW_TX_INFO :: string where "TBL_RAW_TX_INFO \<equiv> ''raw_tx_info''"
abbreviation DATA :: string where "DATA \<equiv> ''data''"
abbreviation BLOCKHASH :: string where "BLOCKHASH \<equiv> ''blockhash''"

definition MAX_SEGMENT_SIZE :: nat where "MAX_SEGMENT_SIZE = 131070"
definition TX_INFO_INDEX :: int where "TX_INFO_INDEX = -1"
definition UNCONFIRM_TX_HEIGHT :: int where "UNCONFIRM_TX_HEIGHT = -1"
definition TX_STATE_NEW :: int where "TX_STATE_NEW = 1"
definition TX_STATE_OPEN :: int where "TX_STATE_OPEN = 2"
definition TX_STATE_CLOSED :: int where "TX_STATE_CLOSED = 3"

lemmas tx_info_consts =
  TX_INFO_INDEX_def UNCONFIRM_TX_HEIGHT_def TX_STATE_NEW_def TX_STATE_OPEN_def TX_STATE_CLOSED_def

record RawTxInfo =
  Raw_Txid :: string
  Raw_Index :: int
  Raw_Data :: string
  Raw_Height :: int
  Raw_BlockHash :: string
  Raw_Timestamp :: int
  Raw_State :: int

text \<open>Fields tagged \<open>omitempty\<close> are left out of the document when they are zero.\<close>

definition omit_int :: "string \<Rightarrow> int \<Rightarrow> doc" where
  "omit_int f n = (if n = 0 then Map.empty else [f \<mapsto> BInt n])"

definition omit_str :: "string \<Rightarrow> string \<Rightarrow> doc" where
  "omit_str f s = (if s = [] then Map.empty else [f \<mapsto> BStr s])"

definition doc_of_RawTxInfo :: "RawTxInfo \<Rightarrow> doc" where
  "doc_of_RawTxInfo r =
     [TXID \<mapsto> BStr (Raw_Txid r), INDEX \<mapsto> BInt (Raw_Index r)]
       ++ omit_str DATA (Raw_Data r) ++ omit_int HEIGHT (Raw_Height r)
       ++ omit_str BLOCKHASH (Raw_BlockHash r) ++ omit_int TIMESTAMP (Raw_Timestamp r)
       ++ omit_int STATE (Raw_State r)"

definition RawTxInfo_of_doc :: "doc \<Rightarrow> RawTxInfo" where
  "RawTxInfo_of_doc d =
     \<lparr>Raw_Txid = get_str d TXID, Raw_Index = get_int d INDEX, Raw_Data = get_str d DATA,
      Raw_Height = get_int d HEIGHT, Raw_BlockHash = get_str d BLOCKHASH,
      Raw_Timestamp = get_int d TIMESTAMP, Raw_State = get_int d STATE\<rparr>"

lemma RawTxInfo_of_doc_of_RawTxInfo [simp]: "RawTxInfo_of_doc (doc_of_RawTxInfo r) = r"
  by (cases r) (simp add: RawTxInfo_of_doc_def doc_of_RawTxInfo_def omit_int_def omit_str_def
      get_int_def get_str_def map_add_def)

record MsgTxInfo =
  Info_MsgTx :: MsgTx
  Info_Height :: int
  Info_BlockHash :: string
  Info_Timestamp :: int
  Info_State :: int

record MsgTxBriefInfo =
  Brief_Txid :: string
  Brief_Height :: int
  Brief_BlockHash :: string
  Brief_Timestamp :: int
  Brief_State :: int

definition MsgTxBriefInfo_of_doc :: "doc \<Rightarrow> MsgTxBriefInfo" where
  "MsgTxBriefInfo_of_doc d =
     \<lparr>Brief_Txid = get_str d TXID, Brief_Height = get_int d HEIGHT,
      Brief_BlockHash = get_str d BLOCKHASH, Brief_Timestamp = get_int d TIMESTAMP,
      Brief_State = get_int d STATE\<rparr>"


section \<open>Operations\<close>

definition TxInfo_CreateIndex :: "'w mgo \<Rightarrow> ('w, unit) io" where
  "TxInfo_CreateIndex drv =
     CreateIndex drv TBL_RAW_TX_INFO [([TXID, INDEX], True), ([HEIGHT], False)]"

definition info_key :: "string \<Rightarrow> qual list" where
  "info_key txid = [QEq TXID (BStr txid), QEq INDEX (BInt TX_INFO_INDEX)]"

definition IsMsgTxClosed :: "'w mgo \<Rightarrow> string \<Rightarrow> ('w, bool) io" where
  "IsMsgTxClosed drv txid =
     andThen (Count drv TBL_RAW_TX_INFO (info_key txid @ [QEq STATE (BInt TX_STATE_CLOSED)]))
       (\<lambda>count. ret (count > 0))"

definition SetMsgTxState :: "'w mgo \<Rightarrow> string \<Rightarrow> int \<Rightarrow> ('w, unit) io" where
  "SetMsgTxState drv txid state =
     (if state \<in> {TX_STATE_NEW, TX_STATE_OPEN, TX_STATE_CLOSED}
      then UpdateOne drv TBL_RAW_TX_INFO (info_key txid) [(STATE, BInt state)]
      else fail (Error (''not support state '' @ format_int state)))"

definition SetMsgTxHeightHash :: "'w mgo \<Rightarrow> string \<Rightarrow> int \<Rightarrow> string \<Rightarrow> ('w, unit) io" where
  "SetMsgTxHeightHash drv txid height hash =
     UpdateOne drv TBL_RAW_TX_INFO (info_key txid) [(HASH, BStr hash), (HEIGHT, BInt height)]"

definition GetMsgTxBriefInfo :: "'w mgo \<Rightarrow> string \<Rightarrow> ('w, MsgTxBriefInfo) io" where
  "GetMsgTxBriefInfo drv txid =
     andThen (GetOne drv TBL_RAW_TX_INFO (info_key txid)) (\<lambda>d. ret (MsgTxBriefInfo_of_doc d))"

definition GetMsgTxBriefInfoByHeightRange ::
  "'w mgo \<Rightarrow> int \<Rightarrow> int \<Rightarrow> bool \<Rightarrow> ('w, MsgTxBriefInfo list) io" where
  "GetMsgTxBriefInfoByHeightRange drv startHeight endHeight unconfirm =
     (let condition =
        (if unconfirm
         then [QOr [QRange HEIGHT startHeight endHeight, QEq HEIGHT (BInt UNCONFIRM_TX_HEIGHT)],
               QEq INDEX (BInt TX_INFO_INDEX)]
         else [QRange HEIGHT startHeight endHeight, QEq INDEX (BInt TX_INFO_INDEX)])
      in andThen (GetAll drv TBL_RAW_TX_INFO condition None MONGO_ID)
           (\<lambda>ds. ret (map MsgTxBriefInfo_of_doc ds)))"

text \<open>
  \<open>GetMsgTxInfo\<close> asks for the documents of a transaction in pages of 128. The loop ends when
  a page has fewer than 64 documents; \<open>offset\<close> is never advanced, so a full page is read
  again and again (\<open>None\<close>).
\<close>

definition scan_page :: "RawTxInfo list \<Rightarrow> (RawTxInfo option \<times> string list) \<Rightarrow> RawTxInfo option \<times> string list"
  where
  "scan_page rows st = fold (\<lambda>r (info, rawTxParts).
     if Raw_Index r = TX_INFO_INDEX then (Some r, rawTxParts)
     else (info, rawTxParts @ [Raw_Data r])) rows st"

partial_function (option) GetMsgTxInfo_loop ::
  "'w mgo \<Rightarrow> string \<Rightarrow> RawTxInfo option \<times> string list \<Rightarrow> 'w
     \<Rightarrow> ((RawTxInfo option \<times> string list) res \<times> 'w) option" where
  "GetMsgTxInfo_loop drv txid st w =
     (case GetMany drv TBL_RAW_TX_INFO [QEq TXID (BStr txid)] INDEX 0 128 w of
        (r, w') \<Rightarrow> (case r of
           Fail e \<Rightarrow> Some (Fail e, w')
         | Stop p \<Rightarrow> Some (Stop p, w')
         | Ok ds \<Rightarrow>
             (if length ds < 128 div 2 then Some (Ok (scan_page (map RawTxInfo_of_doc ds) st), w')
              else GetMsgTxInfo_loop drv txid (scan_page (map RawTxInfo_of_doc ds) st) w')))"

definition GetMsgTxInfo :: "'w mgo \<Rightarrow> tx_lib \<Rightarrow> string \<Rightarrow> ('w, MsgTxInfo) io" where
  "GetMsgTxInfo drv lib txid =
     andThen (\<lambda>w. case GetMsgTxInfo_loop drv txid (None, []) w of None \<Rightarrow> (Diverge, w) | Some x \<Rightarrow> x)
       (\<lambda>(info, rawTxParts). case info of
          None \<Rightarrow> fail (Error MONGO_NOT_FOUND)
        | Some r \<Rightarrow> andThen (of_res (DeserializeTxStr lib (concat rawTxParts)))
            (\<lambda>msgTx. ret \<lparr>Info_MsgTx = msgTx, Info_Height = Raw_Height r,
               Info_BlockHash = Raw_BlockHash r, Info_Timestamp = Raw_Timestamp r,
               Info_State = Raw_State r\<rparr>))"

text \<open>Inserting a document, where a duplicate key is not an error.\<close>

definition insert_ignore_dup :: "'w mgo \<Rightarrow> string \<Rightarrow> doc \<Rightarrow> ('w, unit) io" where
  "insert_ignore_dup drv c d =
     attempt (Insert drv c d) (\<lambda>e. if \<not> is_duplicate e then fail e else ret ()) ret"

definition segment_doc :: "string \<Rightarrow> int \<Rightarrow> string \<Rightarrow> doc" where
  "segment_doc txid index piece = doc_of_RawTxInfo
     \<lparr>Raw_Txid = txid, Raw_Index = index, Raw_Data = piece, Raw_Height = 0, Raw_BlockHash = [],
      Raw_Timestamp = 0, Raw_State = 0\<rparr>"

definition info_doc :: "string \<Rightarrow> int \<Rightarrow> string \<Rightarrow> int \<Rightarrow> doc" where
  "info_doc txid height blockHash timestamp = doc_of_RawTxInfo
     \<lparr>Raw_Txid = txid, Raw_Index = TX_INFO_INDEX, Raw_Data = [], Raw_Height = height,
      Raw_BlockHash = blockHash, Raw_Timestamp = timestamp, Raw_State = TX_STATE_NEW\<rparr>"

definition AddMsgTxInfo :: "'w mgo \<Rightarrow> tx_lib \<Rightarrow> MsgTx \<Rightarrow> int \<Rightarrow> string \<Rightarrow> int \<Rightarrow> ('w, unit) io" where
  "AddMsgTxInfo drv lib msgTx height blockHash timestamp =
     (case SplitString (SeserializeMsgTxStr lib msgTx) MAX_SEGMENT_SIZE of
        None \<Rightarrow> of_res Diverge
      | Some pieces \<Rightarrow>
          andThen (for_each (\<lambda>(index, piece).
              insert_ignore_dup drv TBL_RAW_TX_INFO (segment_doc (TxHash lib msgTx) index piece))
            (indexed pieces))
          (\<lambda>_. insert_ignore_dup drv TBL_RAW_TX_INFO
             (info_doc (TxHash lib msgTx) height blockHash timestamp)))"

definition DeleteMsgTx :: "'w mgo \<Rightarrow> string \<Rightarrow> ('w, unit) io" where
  "DeleteMsgTx drv txid = DeleteAll drv TBL_RAW_TX_INFO [QEq TXID (BStr txid)]"

definition GetTxidsByHeightRangeOrderByTxid ::
  "'w mgo \<Rightarrow> int \<Rightarrow> int \<Rightarrow> int \<Rightarrow> bool \<Rightarrow> ('w, string list) io" where
  "GetTxidsByHeightRangeOrderByTxid drv startHeight endHeight state unconfirm =
     (let condition = [QEq INDEX (BInt TX_INFO_INDEX), QEq STATE (BInt state)] @
        (if unconfirm
         then [QOr [QRange HEIGHT startHeight endHeight, QEq HEIGHT (BInt UNCONFIRM_TX_HEIGHT)]]
         else [QRange HEIGHT startHeight endHeight])
      in andThen (GetAll drv TBL_RAW_TX_INFO condition (Some [TXID]) TXID)
           (\<lambda>ds. ret (map (\<lambda>d. get_str d TXID) ds)))"

end
