(* ===== verification/Ledger_Store.thy ===== *)
theory Ledger_Store
  imports Tx_Info_Repo
begin

text \<open>
  The interface between the service and the two repositories it keeps the ledger in: the
  list of stored points and the processing state of each known transaction. The locale
  \<open>ledger\<close> states what the service relies on; every Mongo server that satisfies the driver
  contract provides it (\<open>sublocale\<close>), as long as the collections are well-formed and carry
  their unique indexes (\<open>wf_db\<close>).
\<close>

section \<open>The content of the database\<close>

definition point_id :: "TxPoint \<Rightarrow> string \<times> int \<times> int" where
  "point_id p = (Txid p, Index p, Type p)"

definition points_of :: "(string \<Rightarrow> doc list) \<Rightarrow> TxPoint list" where
  "points_of db = map TxPoint_of_doc (db TBL_TX_POINT)"

definition info_docs :: "(string \<Rightarrow> doc list) \<Rightarrow> string \<Rightarrow> doc list" where
  "info_docs db txid = filter (matches (info_key txid)) (db TBL_RAW_TX_INFO)"

definition txstate_of :: "(string \<Rightarrow> doc list) \<Rightarrow> string \<Rightarrow> int option" where
  "txstate_of db txid =
     (case info_docs db txid of [] \<Rightarrow> None | d # _ \<Rightarrow> Some (get_int d STATE))"

definition raw_id :: "doc \<Rightarrow> bval option \<times> bval option" where
  "raw_id d = (d TXID, d INDEX)"

text \<open>
  Well-formed: the points are encodings of structs, and the unique indexes made by the
  \<open>CreateIndex\<close> methods exist and hold.
\<close>

definition wf_db :: "(string \<Rightarrow> doc list) \<Rightarrow> (string \<Rightarrow> string list set) \<Rightarrow> bool" where
  "wf_db db un \<longleftrightarrow>
     (\<forall>d \<in> set (db TBL_TX_POINT). d = doc_of_TxPoint (TxPoint_of_doc d)) \<and>
     un TBL_TX_POINT = {[TXID, INDEX, TYPE_FIELD]} \<and>
     un TBL_RAW_TX_INFO = {[TXID, INDEX]} \<and>
     distinct (map point_id (points_of db)) \<and>
     distinct (map raw_id (db TBL_RAW_TX_INFO))"


section \<open>The interface\<close>

locale ledger =
  fixes drv :: "'w mgo"
    and points :: "'w \<Rightarrow> TxPoint list"
    and txstate :: "'w \<Rightarrow> string \<rightharpoonup> int"
    and wf :: "'w \<Rightarrow> bool"
  assumes get_point: "wf w \<Longrightarrow> RepoGetTxPoint drv t i TX_POINT_TYPE_VOUT w = (rp, w') \<Longrightarrow>
      wf w' \<and> points w' = points w \<and> txstate w' = txstate w \<and>
      (case rp of Ok p \<Rightarrow> p \<in> set (points w) \<and> point_id p = (t, i, TX_POINT_TYPE_VOUT)
       | Fail e \<Rightarrow> plain_error e \<and>
           (is_not_found e \<longrightarrow> (t, i, TX_POINT_TYPE_VOUT) \<notin> point_id ` set (points w))
       | Stop x \<Rightarrow> False)"
    and add_point: "wf w \<Longrightarrow> AddTxPoint drv p w = (ru, w') \<Longrightarrow>
      wf w' \<and> txstate w' = txstate w \<and>
      (case ru of Ok u \<Rightarrow> points w' = points w @ [p] \<and> point_id p \<notin> point_id ` set (points w)
       | Fail e \<Rightarrow> plain_error e \<and> points w' = points w \<and> (is_duplicate e \<longrightarrow> point_id p \<in> point_id ` set (points w))
       | Stop x \<Rightarrow> False)"
    and get_brief: "wf w \<Longrightarrow> GetMsgTxBriefInfo drv t w = (rb, w') \<Longrightarrow>
      wf w' \<and> points w' = points w \<and> txstate w' = txstate w \<and>
      (case rb of Ok b \<Rightarrow> txstate w t = Some (Brief_State b)
       | Fail e \<Rightarrow> plain_error e \<and> (is_not_found e \<longrightarrow> txstate w t = None)
       | Stop x \<Rightarrow> False)"
    and set_state: "wf w \<Longrightarrow> SetMsgTxState drv t s w = (ru, w') \<Longrightarrow>
      wf w' \<and> points w' = points w \<and>
      (case ru of Ok u \<Rightarrow> t \<in> dom (txstate w) \<and> txstate w' = (txstate w)(t \<mapsto> s)
       | Fail e \<Rightarrow> txstate w' = txstate w
       | Stop x \<Rightarrow> False)"
    and distinct_points: "wf w \<Longrightarrow> distinct (map point_id (points w))"


section \<open>Mongo provides it\<close>

lemma set_state_doc_of_TxPoint:
  "set_fields [(STATE, BInt s)] (doc_of_TxPoint p) = doc_of_TxPoint (p\<lparr>State := s\<rparr>)"
  by (auto simp: set_fields_def doc_of_TxPoint_def fun_eq_iff)

lemma matches_point_key:
  "matches (point_key t i ty) (doc_of_TxPoint p) \<longleftrightarrow> point_id p = (t, i, ty)"
  by (auto simp: matches_def point_key_def doc_of_TxPoint_def point_id_def)

lemma clash_points:
  assumes "\<forall>d \<in> set ds. d = doc_of_TxPoint (TxPoint_of_doc d)"
  shows "clash [TXID, INDEX, TYPE_FIELD] (doc_of_TxPoint p) ds \<longleftrightarrow>
    point_id p \<in> point_id ` set (map TxPoint_of_doc ds)"
proof -
  have eq: "(\<forall>k \<in> set [TXID, INDEX, TYPE_FIELD]. doc_of_TxPoint q k = doc_of_TxPoint p k)
      \<longleftrightarrow> point_id q = point_id p" for q
    by (simp add: doc_of_TxPoint_def point_id_def)
  have "clash [TXID, INDEX, TYPE_FIELD] (doc_of_TxPoint p) ds \<longleftrightarrow>
      (\<exists>d \<in> set ds. point_id (TxPoint_of_doc d) = point_id p)"
    unfolding clash_def using assms eq by (metis (no_types, lifting))
  then show ?thesis by (auto simp: image_iff eq_commute)
qed

lemma matches_info_key: "matches (info_key t) d \<longleftrightarrow> raw_id d = (Some (BStr t), Some (BInt TX_INFO_INDEX))"
  by (auto simp: matches_def info_key_def raw_id_def)

lemma raw_id_set_state [simp]: "raw_id (set_fields [(STATE, v)] d) = raw_id d"
  by (simp add: raw_id_def set_fields_def)

text \<open>By the unique index there is at most one information document per transaction.\<close>

lemma info_doc_unique:
  assumes "distinct (map raw_id (db TBL_RAW_TX_INFO))" "d \<in> set (db TBL_RAW_TX_INFO)"
    "matches (info_key t) d"
  shows "info_docs db t = [d]"
proof -
  have "d \<in> set (info_docs db t)" using assms by (simp add: info_docs_def)
  then obtain x xs where i: "info_docs db t = x # xs" by (cases "info_docs db t") auto
  have "distinct (map raw_id (info_docs db t))"
    using assms(1) by (simp add: info_docs_def distinct_map_filter)
  moreover have "raw_id y = raw_id d" if "y \<in> set (info_docs db t)" for y
    using that assms(3) by (auto simp: info_docs_def matches_info_key)
  ultimately have "xs = []" using i by (cases xs) auto
  then show ?thesis using i \<open>d \<in> set (info_docs db t)\<close> by simp
qed

lemma txstate_of_update:
  assumes dist: "distinct (map raw_id (db TBL_RAW_TX_INFO))"
    and i: "i < length (db TBL_RAW_TX_INFO)" and m: "matches (info_key t) (db TBL_RAW_TX_INFO ! i)"
    and db': "db' = db(TBL_RAW_TX_INFO := (db TBL_RAW_TX_INFO)
        [i := set_fields [(STATE, BInt s)] (db TBL_RAW_TX_INFO ! i)])"
  shows "t \<in> dom (txstate_of db)" "txstate_of db' = (txstate_of db)(t \<mapsto> s)"
    "map raw_id (db' TBL_RAW_TX_INFO) = map raw_id (db TBL_RAW_TX_INFO)"
proof -
  let ?R = "db TBL_RAW_TX_INFO" and ?d = "set_fields [(STATE, BInt s)] (db TBL_RAW_TX_INFO ! i)"
  have R': "db' TBL_RAW_TX_INFO = ?R[i := ?d]" using db' by simp
  show ids: "map raw_id (db' TBL_RAW_TX_INFO) = map raw_id ?R"
    using i by (simp add: R' map_update list_update_same_conv)
  have "info_docs db t = [?R ! i]" using info_doc_unique [of db "?R ! i" t] dist m i by simp
  then show "t \<in> dom (txstate_of db)" by (auto simp: txstate_of_def)
  have "?d \<in> set (db' TBL_RAW_TX_INFO)" using i by (simp add: R' set_update_memI)
  moreover have "matches (info_key t) ?d" using m by (simp add: matches_info_key)
  ultimately have it: "info_docs db' t = [?d]"
    using ids dist by (intro info_doc_unique) auto
  have other: "info_docs db' u = info_docs db u" if "u \<noteq> t" for u
  proof -
    have no: "\<not> matches (info_key u) (?R ! i)" "\<not> matches (info_key u) ?d"
      using m that by (auto simp: matches_info_key)
    show ?thesis
      using filter_list_update_irrelevant [of i ?R "matches (info_key u)" ?d] i no
      by (simp add: info_docs_def R')
  qed
  show "txstate_of db' = (txstate_of db)(t \<mapsto> s)"
  proof
    fix u
    show "txstate_of db' u = ((txstate_of db)(t \<mapsto> s)) u"
      by (cases "u = t") (simp_all add: txstate_of_def it other get_int_def set_fields_def)
  qed
qed

context mongo
begin

lemma same_wf: "same w w' \<Longrightarrow> wf_db (docs w) (uniq w) \<Longrightarrow> wf_db (docs w') (uniq w')"
  by (simp add: same_def)

lemma RepoGetTxPoint_res:
  assumes "wf_db (docs w) (uniq w)" "RepoGetTxPoint drv t i TX_POINT_TYPE_VOUT w = (r, w')"
  shows "same w w' \<and>
    (case r of Ok p \<Rightarrow> p \<in> set (points_of (docs w)) \<and> point_id p = (t, i, TX_POINT_TYPE_VOUT)
     | Fail e \<Rightarrow> plain_error e \<and>
         (is_not_found e \<longrightarrow> (t, i, TX_POINT_TYPE_VOUT) \<notin> point_id ` set (points_of (docs w)))
     | Stop x \<Rightarrow> False)"
proof -
  have enc: "d \<in> set (docs w TBL_TX_POINT) \<Longrightarrow>
      matches (point_key t i TX_POINT_TYPE_VOUT) d \<longleftrightarrow>
      point_id (TxPoint_of_doc d) = (t, i, TX_POINT_TYPE_VOUT)" for d
    using assms(1) matches_point_key unfolding wf_db_def by metis
  from assms(2) have "andThen (GetOne drv TBL_TX_POINT (point_key t i TX_POINT_TYPE_VOUT))
      (\<lambda>d. ret (TxPoint_of_doc d)) w = (r, w')"
    by (simp add: RepoGetTxPoint_def tx_point_consts)
  then show ?thesis unfolding andThen_def
    by (cases rule: attempt_eqE)
       (fastforce simp: ret_def fail_def points_of_def enc dest!: GetOne_res)+
qed

lemma AddTxPoint_res:
  assumes wf: "wf_db (docs w) (uniq w)" and ad: "AddTxPoint drv p w = (r, w')"
  shows "wf_db (docs w') (uniq w') \<and> txstate_of (docs w') = txstate_of (docs w) \<and>
    (case r of Ok u \<Rightarrow> points_of (docs w') = points_of (docs w) @ [p]
         \<and> point_id p \<notin> point_id ` set (points_of (docs w))
     | Fail e \<Rightarrow> plain_error e \<and> points_of (docs w') = points_of (docs w) \<and>
         (is_duplicate e \<longrightarrow> point_id p \<in> point_id ` set (points_of (docs w)))
     | Stop x \<Rightarrow> False)"
proof -
  have cl: "(\<exists>ks \<in> uniq w TBL_TX_POINT. clash ks (doc_of_TxPoint p) (docs w TBL_TX_POINT)) \<longleftrightarrow>
      point_id p \<in> point_id ` set (points_of (docs w))"
    using wf clash_points [of "docs w TBL_TX_POINT" p] by (simp add: wf_db_def points_of_def)
  note ins = Insert_res [OF ad [unfolded AddTxPoint_def]]
  show ?thesis
  proof (cases r)
    case (Ok u)
    then have d: "docs w' = (docs w)(TBL_TX_POINT := docs w TBL_TX_POINT @ [doc_of_TxPoint p])"
      and u: "uniq w' = uniq w" and n: "point_id p \<notin> point_id ` set (points_of (docs w))"
      using ins cl by auto
    have "points_of (docs w') = points_of (docs w) @ [p]" by (simp add: points_of_def d)
    then show ?thesis
      using wf n Ok u by (auto simp: wf_db_def d txstate_of_def info_docs_def)
  next
    case (Fail e)
    then show ?thesis using ins cl wf by auto
  next
    case (Stop x)
    then show ?thesis using ins by simp
  qed
qed

lemma GetMsgTxBriefInfo_res:
  assumes wf: "wf_db (docs w) (uniq w)" and g: "GetMsgTxBriefInfo drv t w = (r, w')"
  shows "same w w' \<and>
    (case r of Ok b \<Rightarrow> txstate_of (docs w) t = Some (Brief_State b)
     | Fail e \<Rightarrow> plain_error e \<and> (is_not_found e \<longrightarrow> txstate_of (docs w) t = None)
     | Stop x \<Rightarrow> False)"
proof -
  have u: "d \<in> set (docs w TBL_RAW_TX_INFO) \<Longrightarrow> matches (info_key t) d \<Longrightarrow>
      txstate_of (docs w) t = Some (Brief_State (MsgTxBriefInfo_of_doc d))" for d
    using wf info_doc_unique [of "docs w" d t]
    by (simp add: wf_db_def txstate_of_def MsgTxBriefInfo_of_doc_def)
  have n: "\<forall>d \<in> set (docs w TBL_RAW_TX_INFO). \<not> matches (info_key t) d \<Longrightarrow>
      txstate_of (docs w) t = None"
    by (simp add: txstate_of_def info_docs_def filter_empty_conv)
  from g show ?thesis unfolding GetMsgTxBriefInfo_def andThen_def
    by (cases rule: attempt_eqE)
       (use u n in \<open>auto simp: ret_def fail_def dest!: GetOne_res\<close>)
qed

lemma SetMsgTxState_res:
  assumes wf: "wf_db (docs w) (uniq w)" and g: "SetMsgTxState drv t s w = (r, w')"
  shows "wf_db (docs w') (uniq w') \<and> points_of (docs w') = points_of (docs w) \<and>
    (case r of Ok u \<Rightarrow> t \<in> dom (txstate_of (docs w)) \<and> txstate_of (docs w') = (txstate_of (docs w))(t \<mapsto> s)
     | Fail e \<Rightarrow> txstate_of (docs w') = txstate_of (docs w)
     | Stop x \<Rightarrow> False)"
proof (cases "s \<in> {TX_STATE_NEW, TX_STATE_OPEN, TX_STATE_CLOSED}")
  case False
  then show ?thesis using assms by (auto simp: SetMsgTxState_def fail_def)
next
  case True
  with g have "UpdateOne drv TBL_RAW_TX_INFO (info_key t) [(STATE, BInt s)] w = (r, w')"
    by (simp add: SetMsgTxState_def)
  note up = UpdateOne_res [OF this]
  have dist: "distinct (map raw_id (docs w TBL_RAW_TX_INFO))" using wf by (simp add: wf_db_def)
  show ?thesis
  proof (cases r)
    case (Ok u)
    then obtain i where i: "i < length (docs w TBL_RAW_TX_INFO)"
      "matches (info_key t) (docs w TBL_RAW_TX_INFO ! i)"
      "docs w' = (docs w)(TBL_RAW_TX_INFO := (docs w TBL_RAW_TX_INFO)
          [i := set_fields [(STATE, BInt s)] (docs w TBL_RAW_TX_INFO ! i)])" "uniq w' = uniq w"
      using up by auto
    note st = txstate_of_update [OF dist i(1,2,3)]
    then show ?thesis
      using wf Ok i(4) by (simp add: wf_db_def points_of_def i(3))
  qed (use up wf in auto)
qed

lemma is_ledger:
  "ledger drv (\<lambda>w. points_of (docs w)) (\<lambda>w. txstate_of (docs w)) (\<lambda>w. wf_db (docs w) (uniq w))"
proof (unfold_locales, goal_cases)
  case (1 w t i r w')
  then show ?case using RepoGetTxPoint_res [OF 1] by (simp add: same_def)
next
  case (2 w p r w')
  then show ?case using AddTxPoint_res [OF 2] by simp
next
  case (3 w t r w')
  then show ?case using GetMsgTxBriefInfo_res [OF 3] by (simp add: same_def)
next
  case (4 w t s r w')
  then show ?case using SetMsgTxState_res [OF 4] by simp
next
  case (5 w)
  then show ?case by (simp add: wf_db_def)
qed

end

sublocale mongo \<subseteq> led: ledger drv "\<lambda>w. points_of (docs w)" "\<lambda>w. txstate_of (docs w)"
  "\<lambda>w. wf_db (docs w) (uniq w)"
  by (rule is_ledger)

text \<open>
  The interface of a store that is up: lookups fail only when there is nothing, inserts
  only on duplicates, and the state of a known transaction can be set.
\<close>

locale ledger_up = ledger +
  assumes get_point_up: "wf w \<Longrightarrow> RepoGetTxPoint drv t i TX_POINT_TYPE_VOUT w = (Fail e, w') \<Longrightarrow> is_not_found e"
    and add_point_up: "wf w \<Longrightarrow> AddTxPoint drv p w = (Fail e, w') \<Longrightarrow> is_duplicate e"
    and get_brief_up: "wf w \<Longrightarrow> GetMsgTxBriefInfo drv t w = (Fail e, w') \<Longrightarrow> is_not_found e"
    and set_state_up: "wf w \<Longrightarrow> t \<in> dom (txstate w) \<Longrightarrow>
      s \<in> {TX_STATE_NEW, TX_STATE_OPEN, TX_STATE_CLOSED} \<Longrightarrow> SetMsgTxState drv t s w \<noteq> (Fail e, w')"

context mongo_up
begin

lemma is_ledger_up:
  "ledger_up drv (\<lambda>w. points_of (docs w)) (\<lambda>w. txstate_of (docs w)) (\<lambda>w. wf_db (docs w) (uniq w))"
proof (intro_locales, unfold_locales, goal_cases)
  case (1 w t i e w')
  then show ?case
    by (auto simp: RepoGetTxPoint_def tx_point_consts andThen_def ret_def fail_def
        elim!: attempt_eqE dest: GetOne_Fail_up)
next
  case (2 w p e w')
  then show ?case by (auto simp: AddTxPoint_def dest: Insert_Fail_up)
next
  case (3 w t e w')
  then show ?case
    by (auto simp: GetMsgTxBriefInfo_def andThen_def ret_def fail_def elim!: attempt_eqE dest: GetOne_Fail_up)
next
  case (4 w t s e w')
  have "info_docs (docs w) t \<noteq> []" using 4(2) by (auto simp: txstate_of_def)
  then obtain d where "d \<in> set (docs w TBL_RAW_TX_INFO)" "matches (info_key t) d"
    by (auto simp: info_docs_def filter_empty_conv)
  moreover have "UpdateOne drv TBL_RAW_TX_INFO (info_key t) [(STATE, BInt s)] w \<noteq> (Fail e, w')"
    using calculation UpdateOne_Fail_up UpdateOne_res by fastforce
  ultimately show ?case using 4(3) by (simp add: SetMsgTxState_def)
qed

end

sublocale mongo_up \<subseteq> led_up: ledger_up drv "\<lambda>w. points_of (docs w)" "\<lambda>w. txstate_of (docs w)"
  "\<lambda>w. wf_db (docs w) (uniq w)"
  by (rule is_ledger_up)


section \<open>An in-memory ledger\<close>

text \<open>The database with given points and transaction documents, for the witnesses.\<close>

definition mem_ledger :: "TxPoint list \<Rightarrow> RawTxInfo list \<Rightarrow> mem" where
  "mem_ledger pts infos =
     \<lparr>mem_docs = (\<lambda>c. [])(TBL_TX_POINT := map doc_of_TxPoint pts,
        TBL_RAW_TX_INFO := map doc_of_RawTxInfo infos),
      mem_uniq = (\<lambda>c. [])(TBL_TX_POINT := [[TXID, INDEX, TYPE_FIELD]], TBL_RAW_TX_INFO := [[TXID, INDEX]])\<rparr>"

lemma doc_of_RawTxInfo_fields [simp]:
  "doc_of_RawTxInfo r TXID = Some (BStr (Raw_Txid r))"
  "doc_of_RawTxInfo r INDEX = Some (BInt (Raw_Index r))"
  "get_int (doc_of_RawTxInfo r) STATE = Raw_State r"
  by (auto simp: doc_of_RawTxInfo_def omit_int_def omit_str_def get_int_def map_add_def)

lemma points_of_mem_ledger [simp]: "points_of (mem_docs (mem_ledger pts infos)) = pts"
  by (simp add: points_of_def mem_ledger_def comp_def)

lemma wf_mem_ledger:
  assumes "distinct (map point_id pts)" "distinct (map (\<lambda>r. (Raw_Txid r, Raw_Index r)) infos)"
  shows "wf_db (mem_docs (mem_ledger pts infos)) (\<lambda>c. set (mem_uniq (mem_ledger pts infos) c))"
proof -
  have "map (raw_id \<circ> doc_of_RawTxInfo) infos =
      map (\<lambda>(t, i). (Some (BStr t), Some (BInt i))) (map (\<lambda>r. (Raw_Txid r, Raw_Index r)) infos)"
    by (simp add: raw_id_def)
  moreover have "inj_on (\<lambda>(t, i). (Some (BStr t), Some (BInt i))) A" for A by (auto simp: inj_on_def)
  ultimately have "distinct (map (raw_id \<circ> doc_of_RawTxInfo) infos)"
    using assms(2) by (simp add: distinct_map del: map_map)
  then show ?thesis
    using assms(1) by (simp add: wf_db_def mem_ledger_def points_of_def comp_def)
qed

lemma txstate_mem_ledger:
  "txstate_of (mem_docs (mem_ledger pts infos)) t =
     map_option Raw_State (find (\<lambda>r. Raw_Txid r = t \<and> Raw_Index r = TX_INFO_INDEX) infos)"
proof -
  have m: "matches (info_key t) (doc_of_RawTxInfo r) \<longleftrightarrow> Raw_Txid r = t \<and> Raw_Index r = TX_INFO_INDEX" for r
    by (simp add: matches_info_key raw_id_def)
  show ?thesis
    by (induction infos) (auto simp: txstate_of_def info_docs_def mem_ledger_def m)
qed

end
