(* ===== verification/Tx_Sort.thy ===== *)
theory Tx_Sort
  imports Wire
begin

text \<open>
  Ordering a batch of transactions so that each comes after those it spends from:
  \<open>SortMsgTx\<close>, which the service uses, and \<open>DfsSortAndDistinctMsgTxs\<close>, which it does not
  (both \<open>src/util/bitcoin_util.go\<close>). The argument \<open>h\<close> is \<open>func(t) = t.TxHash().String()\<close>.
\<close>

section \<open>The code\<close>

definition swap :: "'a list \<Rightarrow> nat \<Rightarrow> nat \<Rightarrow> 'a list" where
  "swap xs i j = xs[i := xs ! j, j := xs ! i]"

text \<open>The innermost loop: some input spends a transaction of the batch not yet placed.\<close>

definition hasPre :: "(string \<rightharpoonup> bool) \<Rightarrow> MsgTx \<Rightarrow> bool" where
  "hasPre txid2InResult t = list_ex (\<lambda>p. txid2InResult p = Some False) (pre_hashes t)"

function SortMsgTx_j ::
  "(MsgTx \<Rightarrow> string) \<Rightarrow> nat \<Rightarrow> nat \<Rightarrow> MsgTx list \<Rightarrow> (string \<rightharpoonup> bool) \<Rightarrow> MsgTx list \<times> (string \<rightharpoonup> bool)"
  where
  "SortMsgTx_j h i j msgTxs txid2InResult =
     (if j < length msgTxs
      then if hasPre txid2InResult (msgTxs ! j)
           then SortMsgTx_j h i (Suc j) msgTxs txid2InResult
           else (swap msgTxs i j, txid2InResult(h (msgTxs ! j) \<mapsto> True))
      else (msgTxs, txid2InResult))"
  by pat_completeness auto
termination
  by (relation "measure (\<lambda>(h, i, j, msgTxs, r). length msgTxs - j)") auto

declare SortMsgTx_j.simps [simp del]

lemma length_SortMsgTx_j [simp]: "length (fst (SortMsgTx_j h i j ts r)) = length ts"
  by (induction h i j ts r rule: SortMsgTx_j.induct)
     (subst SortMsgTx_j.simps, simp add: swap_def)

function SortMsgTx_i :: "(MsgTx \<Rightarrow> string) \<Rightarrow> nat \<Rightarrow> MsgTx list \<Rightarrow> (string \<rightharpoonup> bool) \<Rightarrow> MsgTx list"
  where
  "SortMsgTx_i h i msgTxs txid2InResult =
     (if i < length msgTxs
      then SortMsgTx_i h (Suc i) (fst (SortMsgTx_j h i i msgTxs txid2InResult))
             (snd (SortMsgTx_j h i i msgTxs txid2InResult))
      else msgTxs)"
  by pat_completeness auto
termination
  by (relation "measure (\<lambda>(h, i, msgTxs, r). length msgTxs - i)")
     (auto simp: case_prod_unfold)

declare SortMsgTx_i.simps [simp del]

definition SortMsgTx :: "(MsgTx \<Rightarrow> string) \<Rightarrow> MsgTx list \<Rightarrow> MsgTx list" where
  "SortMsgTx h msgTxs =
     SortMsgTx_i h 0 msgTxs (foldl (\<lambda>m t. m(h t \<mapsto> False)) Map.empty msgTxs)"


section \<open>The contract\<close>

text \<open>
  \<open>dep\<close> relates the hash of a transaction of the batch to the hash of one that spends it;
  it is acyclic because a transaction's hash covers the hashes it spends. \<open>topo\<close> says that
  what a transaction spends inside the batch stands before it.
\<close>

definition dep :: "(MsgTx \<Rightarrow> string) \<Rightarrow> MsgTx list \<Rightarrow> (string \<times> string) set" where
  "dep h ts = {(p, h t) | p t. t \<in> set ts \<and> p \<in> set (pre_hashes t) \<and> p \<in> h ` set ts}"

definition topo :: "(MsgTx \<Rightarrow> string) \<Rightarrow> MsgTx list \<Rightarrow> bool" where
  "topo h ts \<longleftrightarrow>
     (\<forall>i < length ts. \<forall>p \<in> set (pre_hashes (ts ! i)).
        p \<in> h ` set ts \<longrightarrow> p \<in> h ` set (take i ts))"

locale tx_sorter =
  fixes h :: "MsgTx \<Rightarrow> string" and sorter :: "MsgTx list \<Rightarrow> MsgTx list"
  assumes sorter_mset: "mset (sorter ts) = mset ts"
    and sorter_topo: "acyclic (dep h ts) \<Longrightarrow> topo h (sorter ts)"
begin

lemma sorter_set: "set (sorter ts) = set ts"
  using sorter_mset by (metis set_mset_mset)

lemma sorter_length: "length (sorter ts) = length ts"
  using sorter_mset by (metis size_mset)

lemma sorter_pre_before:
  assumes "acyclic (dep h ts)" and "sorter ts = xs @ t # ys"
    and "p \<in> set (pre_hashes t)" and "p \<in> h ` set ts"
  shows "p \<in> h ` set xs"
proof -
  have "topo h (xs @ t # ys)" using sorter_topo [OF assms(1)] assms(2) by simp
  then have "p \<in> h ` set (xs @ t # ys) \<longrightarrow> p \<in> h ` set (take (length xs) (xs @ t # ys))"
    using assms(3) unfolding topo_def
    by (metis length_append list.size(4) less_add_same_cancel1 zero_less_Suc add_Suc_right
        nth_append_length)
  moreover have "set (xs @ t # ys) = set ts" using sorter_set [of ts] assms(2) by simp
  ultimately show ?thesis using assms(4) by auto
qed

end


section \<open>SortMsgTx meets the contract\<close>

lemma length_swap [simp]: "length (swap xs i j) = length xs"
  by (simp add: swap_def)

lemma mset_swap: "i < length xs \<Longrightarrow> j < length xs \<Longrightarrow> mset (swap xs i j) = mset xs"
  by (simp add: swap_def mset_swap)

lemma SortMsgTx_j_mset: "i \<le> j \<Longrightarrow> mset (fst (SortMsgTx_j h i j ts r)) = mset ts"
proof (induction h i j ts r rule: SortMsgTx_j.induct)
  case (1 h i j ts r)
  then show ?case by (subst SortMsgTx_j.simps) (auto simp: mset_swap)
qed

text \<open>The scan stops at the first placeable transaction, if there is one.\<close>

lemma SortMsgTx_j_found:
  assumes "j \<le> k" "k < length ts" "\<not> hasPre r (ts ! k)"
  shows "\<exists>k'. j \<le> k' \<and> k' < length ts \<and> \<not> hasPre r (ts ! k') \<and>
    SortMsgTx_j h i j ts r = (swap ts i k', r(h (ts ! k') \<mapsto> True))"
  using assms
proof (induction h i j ts r rule: SortMsgTx_j.induct)
  case (1 h i j ts r)
  show ?case
  proof (cases "hasPre r (ts ! j)")
    case True
    then have "j \<noteq> k" using 1(4) by auto
    then have "\<exists>k'. Suc j \<le> k' \<and> k' < length ts \<and> \<not> hasPre r (ts ! k') \<and>
        SortMsgTx_j h i (Suc j) ts r = (swap ts i k', r(h (ts ! k') \<mapsto> True))"
      using 1(2-4) True by (intro 1(1)) auto
    moreover have "SortMsgTx_j h i j ts r = SortMsgTx_j h i (Suc j) ts r"
      using True 1(2,3) by (subst SortMsgTx_j.simps) simp
    ultimately show ?thesis by (metis Suc_leD)
  next
    case False
    then show ?thesis
      using 1(2,3) by (subst SortMsgTx_j.simps) (intro exI [of _ j], auto)
  qed
qed

text \<open>
  The loop invariant: the first \<open>i\<close> transactions are placed and in order, and the flags
  say which hashes of the batch they have.
\<close>

definition sort_inv :: "(MsgTx \<Rightarrow> string) \<Rightarrow> MsgTx list \<Rightarrow> nat \<Rightarrow> MsgTx list \<Rightarrow> (string \<rightharpoonup> bool) \<Rightarrow> bool"
  where
  "sort_inv h ts0 i ts r \<longleftrightarrow>
     mset ts = mset ts0 \<and>
     (\<forall>p. r p = (if p \<in> h ` set (take i ts) then Some True
                 else if p \<in> h ` set ts0 then Some False else None)) \<and>
     (\<forall>k < i. k < length ts \<longrightarrow> (\<forall>p \<in> set (pre_hashes (ts ! k)).
        p \<in> h ` set ts0 \<longrightarrow> p \<in> h ` set (take k ts)))"

lemma sort_inv_init: "sort_inv h ts 0 ts (foldl (\<lambda>m t. m(h t \<mapsto> False)) Map.empty ts)"
proof -
  have "foldl (\<lambda>m t. m(h t \<mapsto> False)) m ts p = (if p \<in> h ` set ts then Some False else m p)" for m p
    by (induction ts arbitrary: m) auto
  then show ?thesis by (simp add: sort_inv_def)
qed

lemma sort_inv_placeable:
  assumes inv: "sort_inv h ts0 i ts r" and i: "i < length ts" and ac: "acyclic (dep h ts0)"
  shows "\<exists>k. i \<le> k \<and> k < length ts \<and> \<not> hasPre r (ts ! k)"
proof -
  have set0: "set ts = set ts0" using inv unfolding sort_inv_def by (metis set_mset_mset)
  have "dep h ts0 \<subseteq> h ` set ts0 \<times> h ` set ts0" by (auto simp: dep_def)
  then have "finite (dep h ts0)" by (rule finite_subset) simp
  then have "wf (dep h ts0)" using ac by (rule finite_acyclic_wf)
  moreover have "h (ts ! i) \<in> h ` set (drop i ts)"
    using i by (metis Cons_nth_drop_Suc image_eqI list.set_intros(1))
  ultimately obtain m where m: "m \<in> h ` set (drop i ts)"
    and min: "\<And>p. (p, m) \<in> dep h ts0 \<Longrightarrow> p \<notin> h ` set (drop i ts)"
    by (rule wfE_min) blast
  from m obtain t where "t \<in> set (drop i ts)" and mt: "m = h t" by blast
  then obtain k0 where "k0 < length (drop i ts)" "drop i ts ! k0 = t"
    by (metis in_set_conv_nth)
  then have k: "i \<le> i + k0" "i + k0 < length ts" "ts ! (i + k0) = t" using i by auto
  have tts: "t \<in> set ts0" using k set0 by (metis nth_mem)
  have "\<not> hasPre r t"
  proof
    assume "hasPre r t"
    then obtain p where p: "p \<in> set (pre_hashes t)" "r p = Some False"
      by (auto simp: hasPre_def list_ex_iff)
    then have p0: "p \<in> h ` set ts0" and "p \<notin> h ` set (take i ts)"
      using inv by (auto simp: sort_inv_def split: if_splits)
    moreover have "set ts = set (take i ts) \<union> set (drop i ts)"
      by (metis append_take_drop_id set_append)
    ultimately have "p \<in> h ` set (drop i ts)" using set0 by auto
    moreover have "(p, m) \<in> dep h ts0" using p(1) p0 tts mt by (auto simp: dep_def)
    ultimately show False using min by blast
  qed
  with k show ?thesis by metis
qed

lemma sort_inv_step:
  assumes inv: "sort_inv h ts0 i ts r" and k: "i \<le> k" "k < length ts" and np: "\<not> hasPre r (ts ! k)"
  shows "sort_inv h ts0 (Suc i) (swap ts i k) (r(h (ts ! k) \<mapsto> True))"
proof -
  let ?s = "swap ts i k"
  have ms: "mset ?s = mset ts0" using inv k by (simp add: mset_swap sort_inv_def)
  have tk: "take m ?s = take m ts" if "m \<le> i" for m
    using that k by (simp add: swap_def)
  have si: "?s ! i = ts ! k" using k by (simp add: swap_def nth_list_update)
  have sk: "?s ! m = ts ! m" if "m < i" for m
    using that k by (simp add: swap_def)
  have "take (Suc i) ?s = take i ts @ [ts ! k]"
    using k tk [of i] si by (simp add: take_Suc_conv_app_nth swap_def)
  then have tS: "h ` set (take (Suc i) ?s) = insert (h (ts ! k)) (h ` set (take i ts))" by simp
  have hk: "h (ts ! k) \<in> h ` set ts0"
    using k inv unfolding sort_inv_def by (metis image_eqI nth_mem set_mset_mset)
  have "p \<in> h ` set (take i ts)" if "p \<in> set (pre_hashes (ts ! k))" "p \<in> h ` set ts0" for p
    using np that inv by (auto simp: hasPre_def list_ex_iff sort_inv_def split: if_splits)
  then show ?thesis
    using ms tS hk inv k unfolding sort_inv_def
    by (auto simp: less_Suc_eq tk si sk)
qed

lemma SortMsgTx_i_topo:
  assumes "sort_inv h ts0 i ts r" "acyclic (dep h ts0)" "i \<le> length ts"
  shows "\<exists>r'. sort_inv h ts0 (length ts) (SortMsgTx_i h i ts r) r' \<and>
    length (SortMsgTx_i h i ts r) = length ts"
  using assms
proof (induction h i ts r rule: SortMsgTx_i.induct)
  case (1 h i ts r)
  show ?case
  proof (cases "i < length ts")
    case False
    then have "SortMsgTx_i h i ts r = ts" by (simp add: SortMsgTx_i.simps [of h i ts r])
    moreover have "i = length ts" using False 1(4) by simp
    ultimately show ?thesis using 1(2) by auto
  next
    case True
    obtain k where k: "i \<le> k" "k < length ts" "\<not> hasPre r (ts ! k)"
      and e: "SortMsgTx_j h i i ts r = (swap ts i k, r(h (ts ! k) \<mapsto> True))"
      using sort_inv_placeable [OF 1(2) True 1(3)] SortMsgTx_j_found by (metis (no_types))
    have "sort_inv h ts0 (Suc i) (swap ts i k) (r(h (ts ! k) \<mapsto> True))"
      by (rule sort_inv_step) (use 1(2) k in auto)
    with 1(1) [OF True, unfolded e fst_conv snd_conv] 1(3) True have
      "\<exists>r'. sort_inv h ts0 (length ts) (SortMsgTx_i h (Suc i) (swap ts i k) (r(h (ts ! k) \<mapsto> True))) r'
        \<and> length (SortMsgTx_i h (Suc i) (swap ts i k) (r(h (ts ! k) \<mapsto> True))) = length ts"
      by (simp add: fun_upd_def)
    moreover have "SortMsgTx_i h i ts r = SortMsgTx_i h (Suc i) (swap ts i k) (r(h (ts ! k) \<mapsto> True))"
      using True by (subst SortMsgTx_i.simps) (simp add: e)
    ultimately show ?thesis by simp
  qed
qed

lemma SortMsgTx_i_mset: "mset (SortMsgTx_i h i ts r) = mset ts"
proof (induction h i ts r rule: SortMsgTx_i.induct)
  case (1 h i ts r)
  then show ?case by (subst SortMsgTx_i.simps) (simp add: SortMsgTx_j_mset)
qed

interpretation SortMsgTx: tx_sorter h "SortMsgTx h" for h
proof unfold_locales
  fix ts
  show "mset (SortMsgTx h ts) = mset ts"
    by (simp add: SortMsgTx_def SortMsgTx_i_mset)
  assume "acyclic (dep h ts)"
  from SortMsgTx_i_topo [OF sort_inv_init this]
  show "topo h (SortMsgTx h ts)"
    by (auto simp: sort_inv_def topo_def SortMsgTx_def dest: mset_eq_setD)
qed



section \<open>DfsSortAndDistinctMsgTxs\<close>

text \<open>
  The work list is a queue (\<open>PushBack\<close>, \<open>Remove(Front())\<close>). Each round appends the hash of
  \<open>msgTx\<close>, the transaction of the outer loop, and not of \<open>topMsgTx\<close>, which it has just taken
  from the queue; on a cyclic batch the loop does not end (\<open>None\<close>).
\<close>

definition preTxs :: "(string \<rightharpoonup> MsgTx) \<Rightarrow> MsgTx \<Rightarrow> MsgTx list" where
  "preTxs txid2MsgTxs t = List.map_filter txid2MsgTxs (pre_hashes t)"

partial_function (option) Dfs_loop ::
  "(MsgTx \<Rightarrow> string) \<Rightarrow> (string \<rightharpoonup> MsgTx) \<Rightarrow> MsgTx \<Rightarrow> MsgTx list \<Rightarrow> string list \<Rightarrow> string list option"
  where [code]:
  "Dfs_loop h txid2MsgTxs msgTx msgTxList txids =
     (case msgTxList of
        [] \<Rightarrow> Some txids
      | topMsgTx # rest \<Rightarrow>
          Dfs_loop h txid2MsgTxs msgTx (rest @ preTxs txid2MsgTxs topMsgTx) (txids @ [h msgTx]))"

fun Dfs_roots ::
  "(MsgTx \<Rightarrow> string) \<Rightarrow> (string \<rightharpoonup> MsgTx) \<Rightarrow> MsgTx list \<Rightarrow> string list \<Rightarrow> string list option" where
  "Dfs_roots h m [] txids = Some txids"
| "Dfs_roots h m (t # ts) txids =
     (case Dfs_loop h m t [t] txids of None \<Rightarrow> None | Some txids' \<Rightarrow> Dfs_roots h m ts txids')"

fun Dfs_collect :: "(MsgTx \<Rightarrow> string) \<Rightarrow> (string \<rightharpoonup> MsgTx) \<Rightarrow> string list \<Rightarrow> MsgTx list" where
  "Dfs_collect h m [] = []"
| "Dfs_collect h m (x # xs) =
     (case m x of Some t \<Rightarrow> t # Dfs_collect h (m(h t := None)) xs | None \<Rightarrow> Dfs_collect h m xs)"

definition DfsSortAndDistinctMsgTxs :: "(MsgTx \<Rightarrow> string) \<Rightarrow> MsgTx list \<Rightarrow> MsgTx list option" where
  "DfsSortAndDistinctMsgTxs h msgTxs =
     (let m = foldl (\<lambda>m t. m(h t \<mapsto> t)) Map.empty msgTxs
      in map_option (\<lambda>txids. Dfs_collect h m (rev txids)) (Dfs_roots h m msgTxs []))"


section \<open>Properties\<close>

text \<open>
  C25: \<open>SortMsgTx\<close> orders a batch. It permutes its argument, whatever the argument, and
  when the spending relation inside the batch is acyclic, every transaction of the
  result comes after all transactions of the batch that it spends.
\<close>

theorem SortMsgTx_correct:
  assumes "acyclic (dep h ts)"
  shows "mset (SortMsgTx h ts) = mset ts \<and> topo h (SortMsgTx h ts)"
  using assms by (simp add: SortMsgTx.sorter_mset SortMsgTx.sorter_topo)

text \<open>A batch for the witnesses: hashes are taken from the lock time, \<open>2\<close> spends \<open>1\<close>, \<open>1\<close> spends \<open>0\<close>.\<close>

definition demo_hash :: "MsgTx \<Rightarrow> string" where
  "demo_hash t = replicate (nat (LockTime t)) CHR ''a''"

definition demo_tx :: "int \<Rightarrow> int list \<Rightarrow> MsgTx" where
  "demo_tx n ps = \<lparr>Version = 2,
     TxIns = map (\<lambda>p. NewTxIn \<lparr>Hash = replicate (nat p) CHR ''a'', OutIndex = 0\<rparr> []) ps,
     TxOuts = [], LockTime = n\<rparr>"

definition demo_batch :: "MsgTx list" where
  "demo_batch = [demo_tx 2 [1], demo_tx 1 [0], demo_tx 0 []]"

lemma demo_batch_acyclic: "acyclic (dep demo_hash demo_batch)"
proof -
  have "dep demo_hash demo_batch \<subseteq> inv_image {(m, n). m < n} length"
    by (auto simp: dep_def demo_batch_def demo_tx_def demo_hash_def pre_hashes_def NewTxIn_def
        numeral_2_eq_2)
  moreover have "wf (inv_image {(m, n). m < (n :: nat)} length)"
    by (simp add: wf_less)
  ultimately show ?thesis by (meson wf_acyclic wf_subset)
qed

theorem SortMsgTx_correct_witness:
  "mset (SortMsgTx demo_hash demo_batch) = mset demo_batch \<and>
   topo demo_hash (SortMsgTx demo_hash demo_batch)"
  by (rule SortMsgTx_correct [OF demo_batch_acyclic])

text \<open>
  \<open>DfsSortAndDistinctMsgTxs\<close> does not order a batch: a parent given before its child
  comes out after it, because the loop records the wrong transaction's hash.
\<close>

theorem DfsSort_not_topological:
  "\<exists>h ts ts'. acyclic (dep h ts) \<and> DfsSortAndDistinctMsgTxs h ts = Some ts' \<and> \<not> topo h ts'"
proof -
  let ?p = "demo_tx 0 []" and ?c = "demo_tx 1 [0]"
  let ?ts = "[?p, ?c]"
  have "DfsSortAndDistinctMsgTxs demo_hash ?ts = Some [?c, ?p]"
    by (simp add: DfsSortAndDistinctMsgTxs_def Let_def demo_tx_def demo_hash_def preTxs_def
        pre_hashes_def NewTxIn_def Dfs_loop.simps List.map_filter_def)
  moreover have "\<not> topo demo_hash [?c, ?p]"
    by (auto simp: topo_def demo_tx_def demo_hash_def pre_hashes_def NewTxIn_def)
  moreover have "acyclic (dep demo_hash ?ts)"
  proof (rule acyclic_subset [OF demo_batch_acyclic])
    show "dep demo_hash ?ts \<subseteq> dep demo_hash demo_batch"
      by (auto simp: dep_def demo_batch_def)
  qed
  ultimately show ?thesis by blast
qed

end
