(* ===== verification/Tx_Processing.thy ===== *)
theory Tx_Processing
  imports Ledger_Store Tx_Sort
begin

text \<open>
  The core of \<open>src/services/touchstone_server.go\<close>: how a transaction becomes badge points
  (\<open>GetTxPoint\<close>, \<open>ParseMsgTx\<close>), how the points are stored (\<open>ParseAndAddTxPoints\<close>) and how
  the processing state of the transaction follows (\<open>ProcessMsgTx\<close>, \<open>ProcessMsgTxs\<close>).
\<close>

section \<open>The code\<close>

text \<open>What a server is configured with: the database, the libraries, the globals of \<open>conf\<close>.\<close>

record ('w, 'a) env =
  Db :: "'w mgo"
  TxL :: tx_lib
  AddrL :: "'a addr_lib"
  Conf :: gconfig

record TxInventory =
  Vins :: "TxPoint list"
  Vouts :: "TxPoint list"

definition NewTxInventory :: TxInventory where
  "NewTxInventory = \<lparr>Vins = [], Vouts = []\<rparr>"

definition unknow_utxo :: "string \<Rightarrow> int \<Rightarrow> goerr" where
  "unknow_utxo txid index =
     NewCodeError ERR_UNKNOW_UTXO_CODE (''unknow utxo '' @ txid @ '':'' @ format_int index)"

definition illegal_vin :: goerr where
  "illegal_vin = NewCodeError ERR_ILLEGAL_VIN_CODE ''illegal vin''"

definition GetTxPoint :: "('w, 'a) env \<Rightarrow> string \<Rightarrow> int \<Rightarrow> ('w, TxPoint) io" where
  "GetTxPoint env txid index =
     attempt (RepoGetTxPoint (Db env) txid index TX_POINT_TYPE_VOUT)
       (\<lambda>err. if \<not> is_not_found err then fail err
          else attempt (GetMsgTxBriefInfo (Db env) txid)
            (\<lambda>err. if \<not> is_not_found err then fail err else fail (unknow_utxo txid index))
            (\<lambda>msgTxBriefInfo.
               if Brief_State msgTxBriefInfo \<noteq> TX_STATE_CLOSED then fail (unknow_utxo txid index)
               else attempt (RepoGetTxPoint (Db env) txid index TX_POINT_TYPE_VOUT)
                 (\<lambda>err. if \<not> is_not_found err then fail err else fail illegal_vin)
                 ret))
       ret"

definition string_of_bytes :: "byte list \<Rightarrow> string" where
  "string_of_bytes bs = map (\<lambda>b. char_of (unat b)) bs"

text \<open>The test of an input: its signature script ends with the badge flag.\<close>

definition is_badge_vin :: "TxIn \<Rightarrow> bool" where
  "is_badge_vin vin \<longleftrightarrow>
     length (SignatureScript vin) \<ge> length BADGE_FLAG \<and>
     string_of_bytes (drop (length (SignatureScript vin) - length BADGE_FLAG) (SignatureScript vin))
       = BADGE_FLAG"

text \<open>\<open>badgeValues\<close> is a Go map; only its size and, when it has one entry, that entry are used.\<close>

fun badge_add :: "string \<Rightarrow> int \<Rightarrow> (string \<times> int) list \<Rightarrow> (string \<times> int) list" where
  "badge_add code v [] = [(code, add64 0 v)]"
| "badge_add code v ((c, x) # m) = (if c = code then (c, add64 x v) # m else (c, x) # badge_add code v m)"

definition vin_point :: "string \<Rightarrow> int \<Rightarrow> int \<Rightarrow> TxPoint \<Rightarrow> TxPoint" where
  "vin_point txid timestamp index txPoint =
     \<lparr>Addr = Addr txPoint, Txid = txid, Index = index, Type = TX_POINT_TYPE_VIN,
      Value = wrap64 (- Value txPoint), PreTxid = Txid txPoint, PreIndex = Index txPoint,
      BadgeCode = BadgeCode txPoint, Timestamp = timestamp, State = TX_POINT_STATE_MAY_BE_UNSPENT\<rparr>"

text \<open>
  The loop over the inputs. On the error \<open>illegal vin\<close> the code sets a flag and goes on, but
  \<open>txPoint\<close> is \<open>nil\<close> then and \<open>txPoint.BadgeCode\<close> dereferences it: \<open>txPoint\<close> is an option,
  and \<open>None\<close> there is a panic.
\<close>

fun ParseMsgTx_vins ::
  "('w, 'a) env \<Rightarrow> string \<Rightarrow> int \<Rightarrow> (int \<times> TxIn) list \<Rightarrow> TxPoint list \<Rightarrow> (string \<times> int) list \<Rightarrow> bool
     \<Rightarrow> ('w, TxPoint list \<times> (string \<times> int) list \<times> bool) io" where
  "ParseMsgTx_vins env txid timestamp [] vins badgeValues illegalVin = ret (vins, badgeValues, illegalVin)"
| "ParseMsgTx_vins env txid timestamp ((index, vin) # rest) vins badgeValues illegalVin =
     (if \<not> is_badge_vin vin
      then ParseMsgTx_vins env txid timestamp rest vins badgeValues illegalVin
      else andThen
        (attempt (GetTxPoint env (Hash (PreviousOutPoint vin)) (OutIndex (PreviousOutPoint vin)))
          (\<lambda>err. case err of
             Error s \<Rightarrow> fail err
           | CodeError code s \<Rightarrow>
               if code \<noteq> ERR_ILLEGAL_VIN_CODE then fail err else ret (None, True))
          (\<lambda>txPoint. ret (Some txPoint, illegalVin)))
        (\<lambda>(txPoint, illegalVin'). case txPoint of
           None \<Rightarrow> of_res (Panic ''nil pointer dereference'')
         | Some p \<Rightarrow>
             ParseMsgTx_vins env txid timestamp rest (vins @ [vin_point txid timestamp index p])
               (badge_add (BadgeCode p) (Value p) badgeValues) illegalVin'))"

definition vout_point :: "'a addr_lib \<Rightarrow> string \<Rightarrow> int \<Rightarrow> string \<Rightarrow> int \<Rightarrow> 'a BadgeVout \<Rightarrow> TxPoint" where
  "vout_point lib txid timestamp badgeCode index badgeVout =
     \<lparr>Addr = AddrString lib (Address badgeVout), Txid = txid, Index = index, Type = TX_POINT_TYPE_VOUT,
      Value = BadgeValue badgeVout, PreTxid = [], PreIndex = -1, BadgeCode = badgeCode,
      Timestamp = timestamp, State = TX_POINT_STATE_MAY_BE_UNSPENT\<rparr>"

text \<open>
  The loop over the outputs: \<open>Some\<close> points when it runs to its end, \<open>None\<close> when it returns
  because more was sent than is there.
\<close>

fun ParseMsgTx_vouts ::
  "('w, 'a) env \<Rightarrow> string \<Rightarrow> int \<Rightarrow> string \<Rightarrow> int \<Rightarrow> (int \<times> TxOut) list \<Rightarrow> TxPoint list
     \<Rightarrow> TxPoint list option res" where
  "ParseMsgTx_vouts env txid timestamp badgeCode badgeValue [] points = Ok (Some points)"
| "ParseMsgTx_vouts env txid timestamp badgeCode badgeValue ((index, vout) # rest) points =
     (case ParseBadgeVoutScript (AddrL env) (PkScript vout) (GNetParam (Conf env)) of
        Fail e \<Rightarrow> ParseMsgTx_vouts env txid timestamp badgeCode badgeValue rest points
      | Stop s \<Rightarrow> Stop s
      | Ok badgeVout \<Rightarrow>
          (let badgeValue' = sub64 badgeValue (BadgeValue badgeVout)
           in if badgeValue' < 0 then Ok None
              else ParseMsgTx_vouts env txid timestamp badgeCode badgeValue' rest
                (points @ [vout_point (AddrL env) txid timestamp badgeCode index badgeVout])))"

definition ParseMsgTx :: "('w, 'a) env \<Rightarrow> MsgTx \<Rightarrow> int \<Rightarrow> ('w, TxInventory) io" where
  "ParseMsgTx env msgTx timestamp =
     (let txid = TxHash (TxL env) msgTx
      in andThen (ParseMsgTx_vins env txid timestamp (indexed (TxIns msgTx)) [] [] False)
        (\<lambda>(vins, badgeValues, illegalVin).
           if illegalVin then ret \<lparr>Vins = vins, Vouts = []\<rparr>
           else if length badgeValues > 1 then ret \<lparr>Vins = vins, Vouts = []\<rparr>
           else let (badgeCode, badgeValue) =
               (case badgeValues of [] \<Rightarrow> (txid, MAX_CREATE_BADGE_VALUE) | (c, v) # _ \<Rightarrow> (c, v))
             in andThen (of_res (ParseMsgTx_vouts env txid timestamp badgeCode badgeValue
                   (indexed (TxOuts msgTx)) []))
               (\<lambda>r. case r of
                  None \<Rightarrow> ret \<lparr>Vins = vins, Vouts = []\<rparr>
                | Some points \<Rightarrow> ret \<lparr>Vins = vins, Vouts = points\<rparr>)))"

definition add_point_ignore_dup :: "('w, 'a) env \<Rightarrow> TxPoint \<Rightarrow> ('w, unit) io" where
  "add_point_ignore_dup env txPoint =
     attempt (AddTxPoint (Db env) txPoint) (\<lambda>err. if \<not> is_duplicate err then fail err else ret ()) ret"

definition ParseAndAddTxPoints :: "('w, 'a) env \<Rightarrow> MsgTx \<Rightarrow> int \<Rightarrow> ('w, TxInventory) io" where
  "ParseAndAddTxPoints env msgTx timestamp =
     andThen (ParseMsgTx env msgTx timestamp) (\<lambda>txInventory.
     andThen (for_each (add_point_ignore_dup env) (Vins txInventory)) (\<lambda>_.
     andThen (for_each (add_point_ignore_dup env) (Vouts txInventory)) (\<lambda>_.
       ret txInventory)))"

definition ProcessMsgTx :: "('w, 'a) env \<Rightarrow> MsgTx \<Rightarrow> int \<Rightarrow> ('w, TxInventory) io" where
  "ProcessMsgTx env msgTx timestamp =
     attempt (ParseAndAddTxPoints env msgTx timestamp)
       (\<lambda>err. if \<not> contains (err_str err) ''unknow utxo'' then fail err
          else andThen (SetMsgTxState (Db env) (TxHash (TxL env) msgTx) TX_STATE_OPEN) (\<lambda>_. fail err))
       (\<lambda>txInventory.
          andThen (SetMsgTxState (Db env) (TxHash (TxL env) msgTx) TX_STATE_CLOSED)
            (\<lambda>_. ret txInventory))"

record TxidMsg =
  Msg_Txid :: string
  Msg :: string

record ProcessMsgTxsResult =
  TxInventorys :: "TxInventory list"
  ErrTxs :: "TxidMsg list"

fun ProcessMsgTxs_loop ::
  "('w, 'a) env \<Rightarrow> int \<Rightarrow> MsgTx list \<Rightarrow> ProcessMsgTxsResult \<Rightarrow> ('w, ProcessMsgTxsResult) io" where
  "ProcessMsgTxs_loop env timestamp [] result = ret result"
| "ProcessMsgTxs_loop env timestamp (msgTx # rest) result =
     attempt (ProcessMsgTx env msgTx timestamp)
       (\<lambda>err. ProcessMsgTxs_loop env timestamp rest (result\<lparr>ErrTxs := ErrTxs result
          @ [\<lparr>Msg_Txid = TxHash (TxL env) msgTx, Msg = err_str err\<rparr>]\<rparr>))
       (\<lambda>inventory. ProcessMsgTxs_loop env timestamp rest
          (result\<lparr>TxInventorys := TxInventorys result @ [inventory]\<rparr>))"

definition ProcessMsgTxs :: "('w, 'a) env \<Rightarrow> MsgTx list \<Rightarrow> int \<Rightarrow> ('w, ProcessMsgTxsResult) io" where
  "ProcessMsgTxs env msgTxs timestamp =
     ProcessMsgTxs_loop env timestamp (SortMsgTx (TxHash (TxL env)) msgTxs)
       \<lparr>TxInventorys = [], ErrTxs = []\<rparr>"


section \<open>Outputs\<close>

definition badge_outs :: "('w, 'a) env \<Rightarrow> (int \<times> TxOut) list \<Rightarrow> (int \<times> 'a BadgeVout) list" where
  "badge_outs env outs = List.map_filter (\<lambda>(i, vout).
     case ParseBadgeVoutScript (AddrL env) (PkScript vout) (GNetParam (Conf env)) of
       Ok bv \<Rightarrow> Some (i, bv) | _ \<Rightarrow> None) outs"

definition badge_total :: "(int \<times> 'a BadgeVout) list \<Rightarrow> int" where
  "badge_total bvs = sum_list (map (BadgeValue \<circ> snd) bvs)"

lemma badge_outs_simps [simp]:
  "badge_outs env [] = []"
  "badge_outs env ((i, vout) # outs) =
     (case ParseBadgeVoutScript (AddrL env) (PkScript vout) (GNetParam (Conf env)) of
        Ok bv \<Rightarrow> (i, bv) # badge_outs env outs | _ \<Rightarrow> badge_outs env outs)"
  by (simp_all add: badge_outs_def List.map_filter_def split: res.splits)

lemma badge_total_simps [simp]: "badge_total [] = 0" "badge_total ((i, bv) # bvs) = BadgeValue bv + badge_total bvs"
  by (simp_all add: badge_total_def)

lemma ParseBadgeVoutScript_not_Stop:
  assumes "addr_lib_ok lib"
  shows "ParseBadgeVoutScript lib s net \<noteq> Stop x"
proof (cases "length s = 83")
  case True
  then have "length (take 20 (drop 13 s)) = 20" by simp
  then obtain a where "NewAddressPubKeyHash lib (take 20 (drop 13 s)) net = Ok a"
    using assms unfolding addr_lib_ok_def by blast
  then show ?thesis by (simp add: ParseBadgeVoutScript_def Let_def PUBKEY_HASH_LEN_def)
qed (simp add: ParseBadgeVoutScript_def)

lemma total_badge_outs_nonneg: "0 \<le> badge_total (badge_outs env outs)"
  by (induction outs)
     (auto dest!: ParseBadgeVoutScript_value(1) split: res.splits)

text \<open>
  The running subtraction of the loop is exact: the outputs are accepted, all of them, if
  and only if their values sum up to at most what is there.
\<close>

lemma ParseMsgTx_vouts_eq:
  assumes lib: "addr_lib_ok (AddrL env)" and "0 \<le> v" "v \<le> max_int64"
  shows "ParseMsgTx_vouts env txid ts code v outs pts =
    Ok (if badge_total (badge_outs env outs) \<le> v
        then Some (pts @ map (\<lambda>(i, bv). vout_point (AddrL env) txid ts code i bv) (badge_outs env outs))
        else None)"
  using assms(2,3)
proof (induction outs arbitrary: v pts)
  case (Cons io outs)
  obtain i vout where io: "io = (i, vout)" by fastforce
  show ?case
  proof (cases "ParseBadgeVoutScript (AddrL env) (PkScript vout) (GNetParam (Conf env))")
    case (Ok bv)
    note b = ParseBadgeVoutScript_value [OF Ok]
    then have sub: "sub64 v (BadgeValue bv) = v - BadgeValue bv"
      using Cons.prems by (simp add: sub64_def wrap64_id is_int64_def)
    show ?thesis
    proof (cases "v < BadgeValue bv")
      case True
      then show ?thesis
        using Ok sub total_badge_outs_nonneg [of env outs] by (simp add: io Let_def)
    next
      case False
      then show ?thesis
        using Ok b Cons.prems Cons.IH [of "v - BadgeValue bv"] by (auto simp: io Let_def sub)
    qed
  next
    case (Fail e)
    then show ?thesis using Cons by (simp add: io)
  next
    case (Stop x)
    then show ?thesis using ParseBadgeVoutScript_not_Stop [OF lib] by blast
  qed
qed simp


section \<open>Inputs\<close>

definition badge_ins :: "MsgTx \<Rightarrow> (int \<times> TxIn) list" where
  "badge_ins msgTx = filter (\<lambda>(i, vin). is_badge_vin vin) (indexed (TxIns msgTx))"

definition vin_id :: "TxIn \<Rightarrow> string \<times> int \<times> int" where
  "vin_id vin = (Hash (PreviousOutPoint vin), OutIndex (PreviousOutPoint vin), TX_POINT_TYPE_VOUT)"

definition vin_utxo_error :: "TxIn \<Rightarrow> goerr" where
  "vin_utxo_error vin = unknow_utxo (Hash (PreviousOutPoint vin)) (OutIndex (PreviousOutPoint vin))"

text \<open>The stored output an input spends.\<close>

definition spent_point :: "TxPoint list \<Rightarrow> TxIn \<Rightarrow> TxPoint option" where
  "spent_point pts vin = find (\<lambda>p. point_id p = vin_id vin) pts"

lemma spent_point_Some:
  assumes "distinct (map point_id pts)" "p \<in> set pts" "point_id p = vin_id vin"
  shows "spent_point pts vin = Some p"
proof -
  obtain q where q: "spent_point pts vin = Some q"
    using assms(2,3) by (cases "spent_point pts vin") (auto simp: spent_point_def find_eq_None)
  then have "q \<in> set pts" "point_id q = vin_id vin"
    by (auto simp: spent_point_def dest: find_SomeD)
  moreover have "inj_on point_id (set pts)" using assms(1) by (simp add: distinct_map)
  ultimately have "q = p" using assms(2,3) by (metis inj_onD)
  with q show ?thesis by simp
qed

lemma spent_point_SomeD: "spent_point pts vin = Some p \<Longrightarrow> p \<in> set pts \<and> point_id p = vin_id vin"
  by (auto simp: spent_point_def dest: find_SomeD)

lemma spent_point_None: "spent_point pts vin = None \<longleftrightarrow> vin_id vin \<notin> point_id ` set pts"
  unfolding spent_point_def find_eq_None by force

text \<open>
  What the loop over the inputs computes, given the stored points and the states: the
  first input whose output is not stored decides, by whether its transaction is closed.
\<close>

fun vins_spec ::
  "TxPoint list \<Rightarrow> (string \<rightharpoonup> int) \<Rightarrow> string \<Rightarrow> int \<Rightarrow> (int \<times> TxIn) list \<Rightarrow> (TxPoint list \<times> TxPoint list) res"
  where
  "vins_spec pts st txid ts [] = Ok ([], [])"
| "vins_spec pts st txid ts ((i, vin) # l) =
     (case spent_point pts vin of
        None \<Rightarrow> if st (Hash (PreviousOutPoint vin)) = Some TX_STATE_CLOSED
          then Panic ''nil pointer dereference'' else Fail (vin_utxo_error vin)
      | Some p \<Rightarrow> bind_res (vins_spec pts st txid ts l)
          (\<lambda>(spent, vins). Ok (p # spent, vin_point txid ts i p # vins)))"

lemma plain_error_not_code [simp]: "\<not> plain_error (CodeError c s)"
  by (simp add: plain_error_def)

lemma plain_errorE:
  assumes "plain_error e"
  obtains s where "e = Error s"
  using assms by (cases e) auto

context ledger
begin

definition unchanged :: "'w \<Rightarrow> 'w \<Rightarrow> bool" where
  "unchanged w w' \<longleftrightarrow> wf w' \<and> points w' = points w \<and> txstate w' = txstate w"

lemma GetTxPoint_res:
  assumes "Db env = drv" "wf w"
    and "GetTxPoint env (Hash (PreviousOutPoint vin)) (OutIndex (PreviousOutPoint vin)) w = (r, w')"
  shows "unchanged w w' \<and>
    ((\<exists>e. r = Fail e \<and> plain_error e) \<or>
     r = (case spent_point (points w) vin of Some p \<Rightarrow> Ok p
          | None \<Rightarrow> if txstate w (Hash (PreviousOutPoint vin)) = Some TX_STATE_CLOSED
              then Fail illegal_vin else Fail (vin_utxo_error vin)))"
proof -
  note st = spent_point_Some [OF distinct_points [OF \<open>wf w\<close>]]
  let ?t = "Hash (PreviousOutPoint vin)" and ?i = "OutIndex (PreviousOutPoint vin)"
  have get: "unchanged v v' \<and> (case q of Ok p \<Rightarrow> spent_point (points v) vin = Some p
      | Fail e \<Rightarrow> plain_error e \<and> (is_not_found e \<longrightarrow> spent_point (points v) vin = None)
      | Stop x \<Rightarrow> False)"
    if "wf v" "RepoGetTxPoint drv ?t ?i TX_POINT_TYPE_VOUT v = (q, v')" for q v v'
    using get_point [OF that] spent_point_Some [OF distinct_points [OF that(1)]]
    by (auto simp: unchanged_def vin_id_def spent_point_None split: res.splits)
  have brief: "unchanged v v' \<and> (case q of Ok b \<Rightarrow> txstate v ?t = Some (Brief_State b)
      | Fail e \<Rightarrow> plain_error e \<and> (is_not_found e \<longrightarrow> txstate v ?t = None) | Stop x \<Rightarrow> False)"
    if "wf v" "GetMsgTxBriefInfo drv ?t v = (q, v')" for q v v'
    using get_brief [OF that] by (simp add: unchanged_def)
  from assms(3) [unfolded GetTxPoint_def assms(1)] show ?thesis
  proof (cases rule: attempt_eqE)
    case (Ok x w1)
    then show ?thesis using get [OF \<open>wf w\<close> Ok(1)] by (auto simp: ret_def)
  next
    case (Stop p)
    then show ?thesis using get [OF \<open>wf w\<close> Stop(1)] by simp
  next
    case (Fail e w1)
    note g1 = get [OF \<open>wf w\<close> Fail(1)]
    show ?thesis
    proof (cases "is_not_found e")
      case False
      then show ?thesis using Fail(2) g1 by (auto simp: fail_def)
    next
      case True
      then have none: "spent_point (points w) vin = None" and u1: "unchanged w w1" and "wf w1"
        using g1 by (auto simp: unchanged_def)
      from Fail(2) True have "attempt (GetMsgTxBriefInfo drv ?t)
          (\<lambda>err. if \<not> is_not_found err then fail err else fail (unknow_utxo ?t ?i))
          (\<lambda>b. if Brief_State b \<noteq> TX_STATE_CLOSED then fail (unknow_utxo ?t ?i)
             else attempt (RepoGetTxPoint drv ?t ?i TX_POINT_TYPE_VOUT)
               (\<lambda>err. if \<not> is_not_found err then fail err else fail illegal_vin) ret) w1 = (r, w')"
        by simp
      then show ?thesis
      proof (cases rule: attempt_eqE)
        case (Ok b w2)
        note b2 = brief [OF \<open>wf w1\<close> Ok(1)]
        then have "wf w2" and u2: "unchanged w w2" using u1 by (auto simp: unchanged_def)
        show ?thesis
        proof (cases "Brief_State b = TX_STATE_CLOSED")
          case False
          then show ?thesis
            using Ok(2) b2 u1 none by (auto simp: fail_def unchanged_def vin_utxo_error_def)
        next
          case True
          with Ok(2) have "attempt (RepoGetTxPoint drv ?t ?i TX_POINT_TYPE_VOUT)
               (\<lambda>err. if \<not> is_not_found err then fail err else fail illegal_vin) ret w2 = (r, w')"
            by simp
          then show ?thesis
            by (cases rule: attempt_eqE)
               (use get [OF \<open>wf w2\<close>] u2 none b2 u1 True in
                 \<open>fastforce simp: ret_def fail_def unchanged_def split: if_splits\<close>)+
        qed
      qed (use brief [OF \<open>wf w1\<close>] u1 none in
            \<open>fastforce simp: fail_def unchanged_def vin_utxo_error_def split: if_splits\<close>)+
    qed
  qed
qed

lemma ParseMsgTx_vins_res:
  assumes "Db env = drv" "wf w"
    and "ParseMsgTx_vins env txid ts l vins bvs ill w = (r, w')"
  shows "unchanged w w' \<and>
    ((\<exists>e. r = Fail e \<and> plain_error e) \<or>
     r = bind_res (vins_spec (points w) (txstate w) txid ts (filter (\<lambda>(i, vin). is_badge_vin vin) l))
          (\<lambda>(spent, vs). Ok (vins @ vs, fold (\<lambda>p. badge_add (BadgeCode p) (Value p)) spent bvs, ill)))"
  using assms(2,3)
proof (induction l arbitrary: w vins bvs ill)
  case Nil
  then show ?case by (auto simp: ret_def unchanged_def)
next
  case (Cons iv l)
  obtain i vin where iv: "iv = (i, vin)" by fastforce
  show ?case
  proof (cases "is_badge_vin vin")
    case False
    then show ?thesis using Cons by (simp add: iv)
  next
    case True
    obtain q w1 where g: "GetTxPoint env (Hash (PreviousOutPoint vin))
        (OutIndex (PreviousOutPoint vin)) w = (q, w1)" by fastforce
    note res = GetTxPoint_res [OF assms(1) Cons.prems(1) g]
    then have u: "unchanged w w1" and "wf w1" by (auto simp: unchanged_def)
    show ?thesis
    proof (cases "\<exists>e. q = Fail e \<and> plain_error e")
      case True
      then obtain s where "q = Fail (Error s)" "plain_error (Error s)"
        by (metis plain_errorE)
      then show ?thesis using Cons.prems(2) g u \<open>is_badge_vin vin\<close>
        by (auto simp: iv andThen_def attempt_def fail_def)
    next
      case False
      show ?thesis
      proof (cases "spent_point (points w) vin")
        case None
        then show ?thesis
          using Cons.prems(2) g u res False \<open>is_badge_vin vin\<close>
          by (auto simp: iv andThen_def attempt_def fail_def ret_def of_res_def illegal_vin_def
              vin_utxo_error_def unknow_utxo_def NewCodeError_def error_codes split: if_splits)
      next
        case (Some p)
        then have q: "q = Ok p" using res False by simp
        have "ParseMsgTx_vins env txid ts l (vins @ [vin_point txid ts i p])
            (badge_add (BadgeCode p) (Value p) bvs) ill w1 = (r, w')"
          using Cons.prems(2) g q \<open>is_badge_vin vin\<close> by (simp add: iv andThen_def attempt_def ret_def)
        from Cons.IH [OF \<open>wf w1\<close> this] show ?thesis
          using u Some \<open>is_badge_vin vin\<close>
          by (auto simp: iv unchanged_def bind_res_assoc case_prod_unfold intro!: bind_res_cong)
      qed
    qed
  qed
qed

end


section \<open>The specification of ParseMsgTx\<close>

definition available :: "TxPoint list \<Rightarrow> int" where
  "available spent = (if spent = [] then max_int64 else sum_list (map Value spent))"

definition badge_code_of :: "string \<Rightarrow> TxPoint list \<Rightarrow> string" where
  "badge_code_of txid spent = (case spent of [] \<Rightarrow> txid | p # _ \<Rightarrow> BadgeCode p)"

definition single_code :: "TxPoint list \<Rightarrow> bool" where
  "single_code spent \<longleftrightarrow> (\<forall>p \<in> set spent. \<forall>q \<in> set spent. BadgeCode p = BadgeCode q)"

text \<open>
  The badge protocol: a transaction whose badge inputs are all known spends them; its
  badge outputs count if the inputs carry one badge code (or there are none, which makes
  the transaction an issuance under its own hash) and the outputs do not exceed them.
\<close>

definition parse_spec ::
  "('w, 'a) env \<Rightarrow> TxPoint list \<Rightarrow> (string \<rightharpoonup> int) \<Rightarrow> MsgTx \<Rightarrow> int \<Rightarrow> TxInventory res" where
  "parse_spec env pts st msgTx ts =
     (let txid = TxHash (TxL env) msgTx; outs = badge_outs env (indexed (TxOuts msgTx))
      in bind_res (vins_spec pts st txid ts (badge_ins msgTx)) (\<lambda>(spent, vins).
           Ok \<lparr>Vins = vins,
               Vouts = (if single_code spent \<and> badge_total outs \<le> available spent
                 then map (\<lambda>(i, bv). vout_point (AddrL env) txid ts (badge_code_of txid spent) i bv) outs
                 else [])\<rparr>))"

text \<open>
  The spent values are amounts and, when they are of one badge, their sum is an \<open>int64\<close>.
  Without this the sum wraps around.
\<close>

definition no_overflow :: "TxPoint list \<Rightarrow> MsgTx \<Rightarrow> bool" where
  "no_overflow pts msgTx \<longleftrightarrow>
     (let spent = List.map_filter (spent_point pts) (map snd (badge_ins msgTx))
      in (\<forall>p \<in> set spent. 0 \<le> Value p \<and> Value p \<le> max_int64) \<and>
         (single_code spent \<longrightarrow> sum_list (map Value spent) \<le> max_int64))"

lemma vins_spec_Ok:
  "vins_spec pts st txid ts l = Ok (spent, vins) \<Longrightarrow>
     spent = List.map_filter (spent_point pts) (map snd l) \<and>
     list_all2 (\<lambda>(i, vin) p. spent_point pts vin = Some p) l spent \<and>
     vins = map2 (\<lambda>(i, vin) p. vin_point txid ts i p) l spent"
  by (induction l arbitrary: spent vins)
     (auto simp: List.map_filter_def split: option.splits if_splits)

lemma fold_badge_add_same:
  assumes "\<forall>p \<in> set ps. BadgeCode p = c"
  shows "fold (\<lambda>p. badge_add (BadgeCode p) (Value p)) ps [(c, wrap64 x)] =
    [(c, wrap64 (x + sum_list (map Value ps)))]"
  using assms
proof (induction ps arbitrary: x)
  case (Cons p ps)
  have "add64 (wrap64 x) (Value p) = wrap64 (x + Value p)"
    by (simp add: add64_def wrap64_def algebra_simps mod_simps)
  then show ?case using Cons by (simp add: add.assoc)
qed simp

lemma badge_add_keys: "set (map fst (badge_add c v m)) = insert c (set (map fst m))"
  by (induction c v m rule: badge_add.induct) auto

lemma fold_badge_add_keys:
  "set (map fst (fold (\<lambda>p. badge_add (BadgeCode p) (Value p)) ps m)) =
     set (map fst m) \<union> BadgeCode ` set ps"
  by (induction ps arbitrary: m) (auto simp: badge_add_keys simp del: set_map)

lemma fold_badge_add:
  "fold (\<lambda>p. badge_add (BadgeCode p) (Value p)) ps [] =
     (case ps of [] \<Rightarrow> [] | p # _ \<Rightarrow> [(BadgeCode p, wrap64 (sum_list (map Value ps)))])"
  if "single_code ps"
proof (cases ps)
  case (Cons p qs)
  then have "\<forall>q \<in> set qs. BadgeCode q = BadgeCode p"
    using that unfolding single_code_def by (metis list.set_intros)
  then show ?thesis using fold_badge_add_same [of qs "BadgeCode p" "Value p"] Cons by (simp add: add64_def)
qed simp

lemma fold_badge_add_length:
  "length (fold (\<lambda>p. badge_add (BadgeCode p) (Value p)) ps []) > 1 \<longleftrightarrow> \<not> single_code ps"
proof
  let ?m = "fold (\<lambda>p. badge_add (BadgeCode p) (Value p)) ps []"
  show "length ?m > 1 \<Longrightarrow> \<not> single_code ps"
    using fold_badge_add [of ps] by (auto split: list.splits)
  assume "\<not> single_code ps"
  then obtain p q where pq: "p \<in> set ps" "q \<in> set ps" "BadgeCode p \<noteq> BadgeCode q"
    unfolding single_code_def by blast
  then have "{BadgeCode p, BadgeCode q} \<subseteq> set (map fst ?m)"
    unfolding fold_badge_add_keys by auto
  then have "card {BadgeCode p, BadgeCode q} \<le> card (set (map fst ?m))"
    by (rule card_mono [OF finite_set])
  also have "\<dots> \<le> length (map fst ?m)" by (rule card_length)
  finally show "length ?m > 1" using pq(3) by simp
qed

lemma sum_list_pos_ne: "\<forall>v \<in> set vs. 0 \<le> (v :: int) \<Longrightarrow> 0 \<le> sum_list vs"
  by (induction vs) auto

lemma parse_spec_eq_vouts:
  assumes lib: "addr_lib_ok (AddrL env)" and no: "no_overflow pts msgTx"
    and sp: "vins_spec pts st txid ts (badge_ins msgTx) = Ok (spent, vins)" and single: "single_code spent"
  shows "(case fold (\<lambda>p. badge_add (BadgeCode p) (Value p)) spent [] of
      [] \<Rightarrow> (txid, MAX_CREATE_BADGE_VALUE) | (c, v) # _ \<Rightarrow> (c, v))
    = (badge_code_of txid spent, available spent) \<and> 0 \<le> available spent \<and> available spent \<le> max_int64"
proof -
  have "spent = List.map_filter (spent_point pts) (map snd (badge_ins msgTx))"
    using vins_spec_Ok [OF sp] by simp
  then have v: "\<forall>v \<in> set (map Value spent). 0 \<le> v" "sum_list (map Value spent) \<le> max_int64"
    using no single by (simp_all add: no_overflow_def Let_def)
  then have "wrap64 (sum_list (map Value spent)) = sum_list (map Value spent)"
    using sum_list_pos_ne [OF v(1)] by (simp add: wrap64_id is_int64_nonneg)
  then show ?thesis
    unfolding fold_badge_add [OF single] using sum_list_pos_ne [OF v(1)] v(2)
    by (cases spent) (simp_all add: badge_code_of_def available_def MAX_CREATE_BADGE_VALUE_def)
qed

lemma badge_outs_value: "(i, bv) \<in> set (badge_outs env outs) \<Longrightarrow> 0 \<le> BadgeValue bv"
  by (induction outs) (auto dest: ParseBadgeVoutScript_value(1) split: res.splits)

lemma sum_vin_points:
  assumes "list_all2 (\<lambda>(i, vin) p. Q i vin p) l spent" "\<forall>p \<in> set spent. 0 \<le> Value p \<and> Value p \<le> max_int64"
  shows "sum_list (map Value (map2 (\<lambda>(i, vin) p. vin_point txid ts i p) l spent)) =
    - sum_list (map Value spent)"
  using assms
proof (induction rule: list_all2_induct)
  case (Cons iv l p ps)
  then have "wrap64 (- Value p) = - Value p" by (simp add: wrap64_id is_int64_def)
  then show ?case using Cons by (simp add: vin_point_def split: prod.splits)
qed simp

lemma vin_point_codes:
  assumes "list_all2 (\<lambda>(i, vin) p. Q i vin p) l spent"
  shows "map BadgeCode (map2 (\<lambda>(i, vin) p. vin_point txid ts i p) l spent) = map BadgeCode spent"
  using assms by (induction rule: list_all2_induct) (auto simp: vin_point_def split: prod.splits)

lemma value_le_sum: "p \<in> set ps \<Longrightarrow> \<forall>q \<in> set ps. 0 \<le> Value q \<Longrightarrow> Value p \<le> sum_list (map Value ps)"
  by (metis (no_types, lifting) imageE image_eqI member_le_sum_list set_map)

lemma parse_spec_conservation:
  assumes sp: "parse_spec env pts st msgTx ts = Ok invt" and no: "no_overflow pts msgTx"
  shows "sum_list (map Value (Vins invt @ Vouts invt)) \<le> (if Vins invt = [] then max_int64 else 0) \<and>
    (\<forall>p \<in> set (Vouts invt). 0 \<le> Value p \<and> Txid p = TxHash (TxL env) msgTx \<and>
       (\<forall>q \<in> set (Vins invt @ Vouts invt). BadgeCode q = BadgeCode p) \<and>
       (Vins invt = [] \<longrightarrow> BadgeCode p = TxHash (TxL env) msgTx))"
proof -
  let ?txid = "TxHash (TxL env) msgTx" and ?outs = "badge_outs env (indexed (TxOuts msgTx))"
  obtain spent vins where v: "vins_spec pts st ?txid ts (badge_ins msgTx) = Ok (spent, vins)"
    and invt: "invt = \<lparr>Vins = vins, Vouts = (if single_code spent \<and> badge_total ?outs \<le> available spent
         then map (\<lambda>(i, bv). vout_point (AddrL env) ?txid ts (badge_code_of ?txid spent) i bv) ?outs
         else [])\<rparr>"
    using sp by (auto simp: parse_spec_def Let_def)
  note o = vins_spec_Ok [OF v]
  then have vals: "\<forall>p \<in> set spent. 0 \<le> Value p \<and> Value p \<le> max_int64"
    using no by (simp add: no_overflow_def Let_def)
  have sum_in: "sum_list (map Value vins) = - sum_list (map Value spent)"
    using o sum_vin_points [OF _ vals] by blast
  have len: "length (badge_ins msgTx) = length spent" using o by (auto dest: list_all2_lengthD)
  then have nil: "vins = [] \<longleftrightarrow> spent = []" using o by auto
  have "map BadgeCode vins = map BadgeCode spent"
    using o [THEN conjunct2] vin_point_codes [of "\<lambda>i vin p. spent_point pts vin = Some p"] by blast
  then have codes: "BadgeCode ` set vins = BadgeCode ` set spent" by (metis set_map)
  have out: "sum_list (map Value (map (\<lambda>(i, bv). vout_point (AddrL env) ?txid ts c i bv) bs)) = badge_total bs" for c bs
    by (induction bs) (auto simp: vout_point_def)
  have "0 \<le> sum_list (map Value spent)" using vals by (intro sum_list_nonneg) auto
  then have "sum_list (map Value (Vins invt @ Vouts invt)) \<le> (if Vins invt = [] then max_int64 else 0)"
    using out sum_in nil by (auto simp: invt available_def)
  moreover have "BadgeCode q = badge_code_of ?txid spent" if sc: "single_code spent" and q: "q \<in> set vins" for q
  proof -
    obtain p where p: "p \<in> set spent" "BadgeCode q = BadgeCode p" using q codes by blast
    then obtain p0 ps where s: "spent = p0 # ps" by (cases spent) auto
    then have "BadgeCode p = BadgeCode p0" using sc p(1) unfolding single_code_def by auto
    then show ?thesis using s p(2) by (simp add: badge_code_of_def)
  qed
  ultimately show ?thesis
    using nil by (auto simp: invt vout_point_def badge_code_of_def dest: badge_outs_value split: if_splits)
qed

context ledger
begin

text \<open>
  \<open>ParseMsgTx\<close> implements the specification: it changes nothing, and it returns what the
  specification says for the stored points and states, unless the database fails.
\<close>

lemma ParseMsgTx_refines:
  assumes "Db env = drv" "wf w" and lib: "addr_lib_ok (AddrL env)"
    and no: "no_overflow (points w) msgTx"
    and run: "ParseMsgTx env msgTx ts w = (r, w')"
  shows "unchanged w w' \<and>
    ((\<exists>e. r = Fail e \<and> plain_error e) \<or> r = parse_spec env (points w) (txstate w) msgTx ts)"
proof -
  let ?txid = "TxHash (TxL env) msgTx"
  let ?spec = "vins_spec (points w) (txstate w) ?txid ts (badge_ins msgTx)"
  let ?fold = "\<lambda>spent. fold (\<lambda>p. badge_add (BadgeCode p) (Value p)) spent []"
  obtain q w1 where q: "ParseMsgTx_vins env ?txid ts (indexed (TxIns msgTx)) [] [] False w = (q, w1)"
    by fastforce
  from ParseMsgTx_vins_res [OF assms(1,2) q] have u: "unchanged w w1"
    and cases: "(\<exists>e. q = Fail e \<and> plain_error e) \<or>
      q = bind_res ?spec (\<lambda>(spent, vs). Ok (vs, ?fold spent, False))"
    by (simp_all add: badge_ins_def)
  show ?thesis
  proof (cases q)
    case (Fail e)
    then show ?thesis
      using run q u cases
      by (cases ?spec) (auto simp: ParseMsgTx_def Let_def andThen_def attempt_def fail_def parse_spec_def)
  next
    case (Stop s)
    then show ?thesis
      using run q u cases
      by (cases ?spec) (auto simp: ParseMsgTx_def Let_def andThen_def attempt_def fail_def parse_spec_def)
  next
    case (Ok x)
    then obtain spent vins where sp: "?spec = Ok (spent, vins)" and x: "x = (vins, ?fold spent, False)"
      using cases by (cases ?spec) auto
    show ?thesis
    proof (cases "single_code spent")
      case False
      then have "r = Ok \<lparr>Vins = vins, Vouts = []\<rparr>" "w' = w1"
        using run q Ok x fold_badge_add_length [of spent]
        by (simp_all add: ParseMsgTx_def Let_def andThen_def attempt_def ret_def)
      then show ?thesis using u False sp by (simp add: parse_spec_def)
    next
      case True
      note a = parse_spec_eq_vouts [OF lib no sp True]
      note v = ParseMsgTx_vouts_eq [OF lib a [THEN conjunct2, THEN conjunct1]
          a [THEN conjunct2, THEN conjunct2]]
      have len: "\<not> length (?fold spent) > 1" using True fold_badge_add_length by blast
      have "r = Ok \<lparr>Vins = vins, Vouts = (if badge_total (badge_outs env (indexed (TxOuts msgTx))) \<le> available spent
            then map (\<lambda>(i, bv). vout_point (AddrL env) ?txid ts (badge_code_of ?txid spent) i bv)
              (badge_outs env (indexed (TxOuts msgTx))) else [])\<rparr>" "w' = w1"
        using run q Ok x len a [THEN conjunct1] v
        by (auto simp: ParseMsgTx_def Let_def andThen_def attempt_def ret_def of_res_def split: if_splits)
      then show ?thesis using u True sp by (simp add: parse_spec_def Let_def)
    qed
  qed
qed

end


section \<open>Storing the points\<close>

definition unknow_error :: "goerr \<Rightarrow> bool" where
  "unknow_error e \<longleftrightarrow> contains (err_str e) ''unknow utxo''"

lemma unknow_error_vin [simp]: "unknow_error (vin_utxo_error vin)"
proof -
  have "contains (''unknow utxo'' @ x) ''unknow utxo''" for x by (rule contains_append)
  from this [of "'' '' @ Hash (PreviousOutPoint vin) @ '':'' @ format_int (OutIndex (PreviousOutPoint vin))"]
  show ?thesis
    by (simp add: unknow_error_def vin_utxo_error_def unknow_utxo_def NewCodeError_def)
qed

lemma plain_error_not_unknow: "plain_error e \<Longrightarrow> \<not> unknow_error e"
  by (cases e) (auto simp: plain_error_def unknow_error_def)

text \<open>Adding points, where one whose key is taken is skipped.\<close>

fun add_new :: "TxPoint list \<Rightarrow> TxPoint list \<Rightarrow> TxPoint list" where
  "add_new pts [] = pts"
| "add_new pts (p # ps) = add_new (if point_id p \<in> point_id ` set pts then pts else pts @ [p]) ps"

lemma add_new_append: "add_new pts (ps @ qs) = add_new (add_new pts ps) qs"
  by (induction pts ps rule: add_new.induct) auto

lemma add_new_extends: "\<exists>qs. add_new pts ps = pts @ qs \<and> set qs \<subseteq> set ps"
proof (induction pts ps rule: add_new.induct)
  case (2 pts p ps)
  then show ?case by (auto split: if_splits)
qed simp

lemma add_new_ids: "point_id ` set (add_new pts ps) = point_id ` set pts \<union> point_id ` set ps"
  by (induction pts ps rule: add_new.induct) auto

lemma add_new_present: "point_id ` set ps \<subseteq> point_id ` set pts \<Longrightarrow> add_new pts ps = pts"
  by (induction pts ps rule: add_new.induct) auto

context ledger
begin

lemma unchanged_trans: "unchanged w w1 \<Longrightarrow> unchanged w1 w2 \<Longrightarrow> unchanged w w2"
  by (simp add: unchanged_def)

lemma add_point_ignore_dup_res:
  assumes "Db env = drv" "wf w" "add_point_ignore_dup env p w = (r, w')"
  shows "wf w' \<and> txstate w' = txstate w \<and>
    (r = Ok () \<and> points w' = add_new (points w) [p] \<or>
     (\<exists>e. r = Fail e \<and> plain_error e) \<and> points w' = points w)"
  using assms(3) unfolding add_point_ignore_dup_def assms(1)
  by (cases rule: attempt_eqE)
     (auto simp: ret_def fail_def split: if_splits dest!: add_point [OF assms(2)])

lemma add_points_res:
  assumes "Db env = drv" "wf w" "for_each (add_point_ignore_dup env) ps w = (r, w')"
  shows "wf w' \<and> txstate w' = txstate w \<and> (\<exists>k. points w' = add_new (points w) (take k ps)) \<and>
    (r = Ok () \<and> points w' = add_new (points w) ps \<or> (\<exists>e. r = Fail e \<and> plain_error e))"
  using assms(2,3)
proof (induction ps arbitrary: w)
  case Nil
  then show ?case by (auto simp: ret_def)
next
  case (Cons p ps)
  obtain q w1 where q: "add_point_ignore_dup env p w = (q, w1)" by fastforce
  note one = add_point_ignore_dup_res [OF assms(1) Cons.prems(1) q]
  show ?case
  proof (cases "q = Ok ()")
    case True
    then have "for_each (add_point_ignore_dup env) ps w1 = (r, w')"
      using Cons.prems(2) q by (simp add: andThen_def)
    from Cons.IH [OF _ this] one True obtain k where
      "wf w' \<and> txstate w' = txstate w1" "points w' = add_new (points w1) (take k ps)"
      "r = Ok () \<and> points w' = add_new (points w1) ps \<or> (\<exists>e. r = Fail e \<and> plain_error e)"
      by auto
    then show ?thesis
      using one True by (auto intro!: exI [of _ "Suc k"])
  next
    case False
    then obtain e where "q = Fail e" "plain_error e" "points w1 = points w" using one by auto
    then show ?thesis
      using Cons.prems(2) q one by (auto simp: andThen_def fail_def intro!: exI [of _ 0])
  qed
qed

text \<open>
  One transaction: either the database fails, or the specification decides. Points are
  only ever added, and only points of the inventory.
\<close>

lemma ParseAndAddTxPoints_res:
  assumes "Db env = drv" "wf w" and lib: "addr_lib_ok (AddrL env)"
    and no: "no_overflow (points w) msgTx"
    and run: "ParseAndAddTxPoints env msgTx ts w = (r, w')"
  defines "spec \<equiv> parse_spec env (points w) (txstate w) msgTx ts"
  shows "wf w' \<and> txstate w' = txstate w \<and>
    ((\<exists>e. r = Fail e \<and> plain_error e) \<or> r = spec) \<and>
    (case spec of Ok invt \<Rightarrow>
        (\<exists>k. points w' = add_new (points w) (take k (Vins invt @ Vouts invt))) \<and>
        (r = spec \<longrightarrow> points w' = add_new (points w) (Vins invt @ Vouts invt))
     | _ \<Rightarrow> points w' = points w)"
proof -
  obtain q w1 where q: "ParseMsgTx env msgTx ts w = (q, w1)" by fastforce
  note p = ParseMsgTx_refines [OF assms(1,2) lib no q, folded spec_def]
  then have u: "unchanged w w1" and "wf w1" by (auto simp: unchanged_def)
  show ?thesis
  proof (cases q)
    case (Ok invt)
    then have spec: "spec = Ok invt" using p by auto
    obtain a w2 where a: "for_each (add_point_ignore_dup env) (Vins invt) w1 = (a, w2)" by fastforce
    obtain b w3 where b: "for_each (add_point_ignore_dup env) (Vouts invt) w2 = (b, w3)" by fastforce
    note ra = add_points_res [OF assms(1) \<open>wf w1\<close> a]
    then have "wf w2" by simp
    note rb = add_points_res [OF assms(1) this b]
    show ?thesis
    proof (cases "a = Ok ()")
      case True
      then have "for_each (add_point_ignore_dup env) (Vouts invt) w2 = (b, w3)"
        and rw: "(r, w') = (case b of Ok _ \<Rightarrow> Ok invt | Fail e \<Rightarrow> Fail e | Stop s \<Rightarrow> Stop s, w3)"
        using run q Ok a b
        by (auto simp: ParseAndAddTxPoints_def andThen_def attempt_def ret_def fail_def split: res.splits)
      obtain k where k: "points w3 = add_new (points w2) (take k (Vouts invt))" using rb by auto
      have "points w3 = add_new (points w) (take (length (Vins invt) + k) (Vins invt @ Vouts invt))"
        using ra k True u by (auto simp: add_new_append unchanged_def)
      then have "\<exists>k. points w3 = add_new (points w) (take k (Vins invt @ Vouts invt))" by blast
      moreover have "b = Ok () \<longrightarrow> points w3 = add_new (points w) (Vins invt @ Vouts invt)"
        using ra rb True u by (auto simp: add_new_append unchanged_def)
      moreover have "b = Ok () \<or> (\<exists>e. b = Fail e \<and> plain_error e)" using rb by auto
      ultimately show ?thesis
        using rw ra rb u spec by (auto simp: unchanged_def simp del: take_append)
    next
      case False
      then obtain e where e: "a = Fail e" "plain_error e" using ra by auto
      then have "r = Fail e" "w' = w2"
        using run q Ok a by (auto simp: ParseAndAddTxPoints_def andThen_def attempt_def fail_def)
      moreover obtain k where "points w2 = add_new (points w1) (take k (Vins invt))" using ra by auto
      then have "points w2 = add_new (points w) (take (min k (length (Vins invt))) (Vins invt @ Vouts invt))"
        using u by (simp add: unchanged_def min_def)
      then have "\<exists>k. points w2 = add_new (points w) (take k (Vins invt @ Vouts invt))" by blast
      ultimately show ?thesis
        using e ra u spec by (auto simp: unchanged_def simp del: take_append)
    qed
  next
    case (Fail e)
    then have "r = Fail e" "w' = w1"
      using run q by (auto simp: ParseAndAddTxPoints_def andThen_def attempt_def fail_def)
    then show ?thesis
      using p u Fail by (auto simp: unchanged_def split: res.splits intro!: exI [of _ 0])
  next
    case (Stop s)
    then have "r = Stop s" "w' = w1"
      using run q by (auto simp: ParseAndAddTxPoints_def andThen_def attempt_def)
    then show ?thesis using p u Stop by (auto simp: unchanged_def)
  qed
qed

end


section \<open>Processing a transaction\<close>

text \<open>
  What can be said without any bound on the amounts: the inputs alone decide between
  success, a missing output and the panic, and the outputs never stop the parser.
\<close>

lemma ParseMsgTx_vouts_Ok:
  assumes "addr_lib_ok (AddrL env)"
  shows "\<exists>x. ParseMsgTx_vouts env txid ts code v outs pts = Ok x"
  using ParseBadgeVoutScript_not_Stop [OF assms]
  by (induction env txid ts code v outs pts rule: ParseMsgTx_vouts.induct)
     (auto simp: Let_def split: res.splits)

definition inputs_of :: "('w, 'a) env \<Rightarrow> TxPoint list \<Rightarrow> (string \<rightharpoonup> int) \<Rightarrow> MsgTx \<Rightarrow> int
    \<Rightarrow> (TxPoint list \<times> TxPoint list) res" where
  "inputs_of env pts st msgTx ts = vins_spec pts st (TxHash (TxL env) msgTx) ts (badge_ins msgTx)"

lemma vin_utxo_error_not_plain [simp]: "\<not> plain_error (vin_utxo_error vin)"
  by (simp add: vin_utxo_error_def unknow_utxo_def NewCodeError_def)

lemma vins_spec_Fail: "vins_spec pts st txid ts l = Fail e \<Longrightarrow> unknow_error e \<and> \<not> plain_error e"
  by (induction l) (auto simp: bind_res_eq_Fail split: option.splits if_splits)

context ledger
begin

lemma ParseMsgTx_outcome:
  assumes "Db env = drv" "wf w" and lib: "addr_lib_ok (AddrL env)"
    and run: "ParseMsgTx env msgTx ts w = (r, w')"
  shows "unchanged w w' \<and> ((\<exists>e. r = Fail e \<and> plain_error e) \<or>
    (case inputs_of env (points w) (txstate w) msgTx ts of
       Ok (spent, vins) \<Rightarrow> \<exists>vouts. r = Ok \<lparr>Vins = vins, Vouts = vouts\<rparr>
     | Fail e \<Rightarrow> r = Fail e | Stop s \<Rightarrow> r = Stop s))"
proof -
  let ?txid = "TxHash (TxL env) msgTx"
  obtain q w1 where q: "ParseMsgTx_vins env ?txid ts (indexed (TxIns msgTx)) [] [] False w = (q, w1)"
    by fastforce
  note v = ParseMsgTx_vins_res [OF assms(1,2) q]
  have out: "\<exists>x. ParseMsgTx_vouts env ?txid ts c x0 os pts = Ok x" for c x0 os pts
    by (rule ParseMsgTx_vouts_Ok [OF lib])
  show ?thesis
  proof (cases q)
    case (Ok x)
    then obtain spent vins where sp: "inputs_of env (points w) (txstate w) msgTx ts = Ok (spent, vins)"
      and x: "x = (vins, fold (\<lambda>p. badge_add (BadgeCode p) (Value p)) spent [], False)"
      using v by (cases "inputs_of env (points w) (txstate w) msgTx ts")
        (auto simp: inputs_of_def badge_ins_def)
    obtain c x0 where c: "(case fold (\<lambda>p. badge_add (BadgeCode p) (Value p)) spent [] of
        [] \<Rightarrow> (?txid, MAX_CREATE_BADGE_VALUE) | (c, v) # _ \<Rightarrow> (c, v)) = (c, x0)" by fastforce
    obtain y where "ParseMsgTx_vouts env ?txid ts c x0 (indexed (TxOuts msgTx)) [] = Ok y"
      using out by blast
    then have "\<exists>vouts. r = Ok \<lparr>Vins = vins, Vouts = vouts\<rparr> \<and> w' = w1"
      using run q Ok x c
      by (cases y) (auto simp: ParseMsgTx_def Let_def andThen_def attempt_def ret_def of_res_def
          split: if_splits)
    then show ?thesis using v sp by auto
  next
    case (Fail e)
    then have "r = Fail e \<and> w' = w1"
      using run q by (simp add: ParseMsgTx_def Let_def andThen_def attempt_def fail_def)
    then show ?thesis using v Fail
      by (cases "inputs_of env (points w) (txstate w) msgTx ts") (auto simp: inputs_of_def badge_ins_def)
  next
    case (Stop s)
    then have "r = Stop s \<and> w' = w1"
      using run q by (simp add: ParseMsgTx_def Let_def andThen_def attempt_def)
    then show ?thesis using v Stop
      by (cases "inputs_of env (points w) (txstate w) msgTx ts") (auto simp: inputs_of_def badge_ins_def)
  qed
qed

lemma ParseAndAddTxPoints_outcome:
  assumes "Db env = drv" "wf w" and lib: "addr_lib_ok (AddrL env)"
    and run: "ParseAndAddTxPoints env msgTx ts w = (r, w')"
  shows "wf w' \<and> txstate w' = txstate w \<and> ((\<exists>e. r = Fail e \<and> plain_error e) \<or>
    (case inputs_of env (points w) (txstate w) msgTx ts of
       Ok (spent, vins) \<Rightarrow> \<exists>vouts. r = Ok \<lparr>Vins = vins, Vouts = vouts\<rparr> \<and>
         points w' = add_new (points w) (vins @ vouts)
     | Fail e \<Rightarrow> r = Fail e \<and> points w' = points w | Stop s \<Rightarrow> r = Stop s \<and> points w' = points w))"
proof -
  obtain q w1 where q: "ParseMsgTx env msgTx ts w = (q, w1)" by fastforce
  note p = ParseMsgTx_outcome [OF assms(1,2) lib q]
  then have u: "points w1 = points w" "txstate w1 = txstate w" and "wf w1" by (auto simp: unchanged_def)
  show ?thesis
  proof (cases q)
    case (Ok invt)
    obtain a w2 where a: "for_each (add_point_ignore_dup env) (Vins invt) w1 = (a, w2)" by fastforce
    obtain b w3 where b: "for_each (add_point_ignore_dup env) (Vouts invt) w2 = (b, w3)" by fastforce
    note ra = add_points_res [OF assms(1) \<open>wf w1\<close> a]
    then have "wf w2" by simp
    note rb = add_points_res [OF assms(1) this b]
    have "(r, w') = (case a of Ok _ \<Rightarrow> (case b of Ok _ \<Rightarrow> Ok invt | Fail e \<Rightarrow> Fail e | Stop s \<Rightarrow> Stop s, w3)
        | Fail e \<Rightarrow> (Fail e, w2) | Stop s \<Rightarrow> (Stop s, w2))"
      using run q Ok a b
      by (auto simp: ParseAndAddTxPoints_def andThen_def attempt_def ret_def fail_def split: res.splits)
    then show ?thesis
      using ra rb u p Ok by (auto simp: add_new_append split: res.splits prod.splits)
  next
    case (Fail e)
    then have "r = Fail e \<and> w' = w1"
      using run q by (simp add: ParseAndAddTxPoints_def andThen_def attempt_def fail_def)
    then show ?thesis using p Fail u \<open>wf w1\<close> by (auto split: res.splits)
  next
    case (Stop s)
    then have "r = Stop s \<and> w' = w1"
      using run q by (simp add: ParseAndAddTxPoints_def andThen_def attempt_def)
    then show ?thesis using p Stop u \<open>wf w1\<close> by (auto split: res.splits)
  qed
qed

text \<open>The state machine of a transaction.\<close>

lemma ProcessMsgTx_outcome:
  assumes "Db env = drv" "wf w" and lib: "addr_lib_ok (AddrL env)"
    and run: "ProcessMsgTx env msgTx ts w = (r, w')"
  defines "txid \<equiv> TxHash (TxL env) msgTx"
    and "ins \<equiv> inputs_of env (points w) (txstate w) msgTx ts"
  shows "wf w' \<and> (case r of
      Ok invt \<Rightarrow> (\<exists>spent. ins = Ok (spent, Vins invt)) \<and>
        txid \<in> dom (txstate w) \<and> txstate w' = (txstate w)(txid \<mapsto> TX_STATE_CLOSED) \<and>
        points w' = add_new (points w) (Vins invt @ Vouts invt)
    | Fail e \<Rightarrow> txstate w' = txstate w \<or>
        ins = Fail e \<and> txid \<in> dom (txstate w) \<and> txstate w' = (txstate w)(txid \<mapsto> TX_STATE_OPEN) \<and>
        points w' = points w
    | Stop s \<Rightarrow> ins = Stop s \<and> unchanged w w')"
proof -
  from run [unfolded ProcessMsgTx_def, folded txid_def] show ?thesis
  proof (cases rule: attempt_eqE)
    case (Ok invt w1)
    note p = ParseAndAddTxPoints_outcome [OF assms(1,2) lib Ok(1), folded ins_def]
    then have "wf w1" and st: "txstate w1 = txstate w" by auto
    from p obtain spent where "ins = Ok (spent, Vins invt)"
      "points w1 = add_new (points w) (Vins invt @ Vouts invt)"
      by (cases ins) auto
    then show ?thesis
      using Ok(2) st set_state [OF \<open>wf w1\<close>] unfolding andThen_def assms(1)
      by (fastforce elim!: attempt_eqE simp: ret_def fail_def)
  next
    case (Fail e w1)
    note p = ParseAndAddTxPoints_outcome [OF assms(1,2) lib Fail(1), folded ins_def]
    then have "wf w1" and st: "txstate w1 = txstate w" by auto
    show ?thesis
    proof (cases "unknow_error e")
      case False
      then show ?thesis using Fail(2) p st by (auto simp: fail_def unknow_error_def)
    next
      case True
      then have "\<not> plain_error e" using plain_error_not_unknow by blast
      then have i: "ins = Fail e" "points w1 = points w" using p by (auto split: res.splits)
      have "andThen (SetMsgTxState drv txid TX_STATE_OPEN) (\<lambda>_. fail e) w1 = (r, w')"
        using Fail(2) True by (simp add: unknow_error_def assms(1))
      then show ?thesis
        using i st set_state [OF \<open>wf w1\<close>] unfolding andThen_def
        by (fastforce elim!: attempt_eqE simp: fail_def)
    qed
  next
    case (Stop s)
    note p = ParseAndAddTxPoints_outcome [OF assms(1,2) lib Stop(1), folded ins_def]
    then show ?thesis using Stop(2) by (auto simp: unchanged_def split: res.splits)
  qed
qed

end

context ledger_up
begin

lemma get_wf:
  "wf w \<Longrightarrow> RepoGetTxPoint drv t i TX_POINT_TYPE_VOUT w = (rp, w') \<Longrightarrow> wf w'"
  "wf w \<Longrightarrow> GetMsgTxBriefInfo drv t w = (rb, w') \<Longrightarrow> wf w'"
  using get_point get_brief by blast+

lemma GetTxPoint_up:
  assumes "wf w" "Db env = drv" "GetTxPoint env t i w = (Fail e, w')"
  shows "\<not> plain_error e"
  using assms(3) assms(1) unfolding GetTxPoint_def assms(2)
  by (auto simp: fail_def ret_def unknow_utxo_def illegal_vin_def NewCodeError_def
      elim!: attempt_eqE split: if_splits)
     (meson get_point_up get_brief_up get_wf)+

lemma ParseMsgTx_vins_up:
  assumes "Db env = drv"
  shows "wf w \<Longrightarrow> ParseMsgTx_vins env txid ts l vins bvs ill w = (Fail e, w') \<Longrightarrow> \<not> plain_error e"
proof (induction l arbitrary: w vins bvs ill)
  case (Cons iv l)
  obtain i vin where iv: "iv = (i, vin)" by fastforce
  show ?case
  proof (cases "is_badge_vin vin")
    case False
    then show ?thesis using Cons by (simp add: iv)
  next
    case True
    obtain q w1 where g: "GetTxPoint env (Hash (PreviousOutPoint vin))
        (OutIndex (PreviousOutPoint vin)) w = (q, w1)" by fastforce
    have "wf w1" using GetTxPoint_res [OF assms Cons.prems(1) g] by (simp add: unchanged_def)
    then show ?thesis
      using True Cons.prems g Cons.IH [OF \<open>wf w1\<close>] GetTxPoint_up [OF Cons.prems(1) assms]
      by (cases q) (auto simp: iv andThen_def attempt_def fail_def ret_def of_res_def
          split: goerr.splits if_splits)
  qed
qed (simp add: ret_def)

text \<open>On a store that is up, \<open>ParseMsgTx\<close> is the specification.\<close>

lemma ParseMsgTx_up:
  assumes "Db env = drv" "wf w" and lib: "addr_lib_ok (AddrL env)" and no: "no_overflow (points w) msgTx"
  shows "fst (ParseMsgTx env msgTx ts w) = parse_spec env (points w) (txstate w) msgTx ts"
proof -
  obtain r w' where run: "ParseMsgTx env msgTx ts w = (r, w')" by fastforce
  have "\<not> plain_error e" if "r = Fail e" for e
    using run that ParseMsgTx_vouts_Ok [OF lib] ParseMsgTx_vins_up [OF assms(1,2)]
    by (auto simp: ParseMsgTx_def Let_def andThen_def attempt_def fail_def ret_def of_res_def
        split: prod.splits res.splits if_splits option.splits) (metis res.distinct(1))+
  with ParseMsgTx_refines [OF assms run] run show ?thesis by auto
qed

end


section \<open>Properties\<close>

text \<open>
  C9: \<open>ParseMsgTx\<close> implements the badge protocol. For every server that keeps the driver's
  contract and every well-formed database, it writes nothing and returns what the
  specification \<open>parse_spec\<close> says for the stored points and transaction states (badge
  inputs spent, outputs accepted if and only if the inputs carry one badge and cover
  them), or passes on an error of the database.
\<close>

theorem ParseMsgTx_protocol:
  assumes "mongo (Db env) docs uniq" and "wf_db (docs w) (uniq w)" and "addr_lib_ok (AddrL env)"
    and "no_overflow (points_of (docs w)) msgTx" and "ParseMsgTx env msgTx ts w = (r, w')"
  shows "points_of (docs w') = points_of (docs w) \<and> txstate_of (docs w') = txstate_of (docs w) \<and>
    (r = parse_spec env (points_of (docs w)) (txstate_of (docs w)) msgTx ts \<or>
     (\<exists>e. r = Fail e \<and> plain_error e))"
proof -
  note l = mongo.is_ledger [OF assms(1)]
  from ledger.ParseMsgTx_refines [OF l refl assms(2-5)] show ?thesis
    unfolding ledger.unchanged_def [OF l] by blast
qed

text \<open>A server, a stored point and a transaction that spends it, for the witnesses.\<close>

definition demo_lib :: "MsgTx \<Rightarrow> tx_lib" where
  "demo_lib t0 =
     \<lparr>TxHash = (\<lambda>t. hex_encode (replicate 31 0 @ [word_of_int (LockTime t)])),
      Serialize = (\<lambda>t. [word_of_int (LockTime t)]),
      Deserialize = (\<lambda>bs. Ok t0), NewHashFromStr = Ok\<rparr>"

definition demo_env :: "(mem, byte list) env" where
  "demo_env =
     \<lparr>Db = mem_mgo, TxL = demo_lib (NewMsgTx 2), AddrL = hash_addr_lib,
      Conf = \<lparr>GStartHeight = 0, GNetParam = RegressionNetParams\<rparr>\<rparr>"

definition demo_txid :: "int \<Rightarrow> string" where
  "demo_txid n = hex_encode (replicate 31 0 @ [word_of_int n])"

definition demo_point :: "int \<Rightarrow> int \<Rightarrow> TxPoint" where
  "demo_point n v =
     \<lparr>Addr = ''a'', Txid = demo_txid n, Index = 0, Type = TX_POINT_TYPE_VOUT, Value = v, PreTxid = [],
      PreIndex = -1, BadgeCode = demo_txid n, Timestamp = 5, State = TX_POINT_STATE_MAY_BE_UNSPENT\<rparr>"

definition demo_info :: "int \<Rightarrow> int \<Rightarrow> RawTxInfo" where
  "demo_info n st =
     \<lparr>Raw_Txid = demo_txid n, Raw_Index = TX_INFO_INDEX, Raw_Data = [], Raw_Height = 10,
      Raw_BlockHash = ''b'', Raw_Timestamp = 5, Raw_State = st\<rparr>"

definition badge_sig :: "byte list" where
  "badge_sig = [0x62, 0x61, 0x64, 0x67, 0x65]"

definition demo_spend :: "int \<Rightarrow> int \<Rightarrow> int \<Rightarrow> MsgTx" where
  "demo_spend n p v =
     \<lparr>Version = 2, TxIns = [NewTxIn \<lparr>Hash = demo_txid p, OutIndex = 0\<rparr> badge_sig],
      TxOuts = [\<lparr>OutValue = 888, PkScript = badge_script (replicate 20 7) v\<rparr>], LockTime = n\<rparr>"

definition demo_world :: mem where
  "demo_world = mem_ledger [demo_point 1 100] [demo_info 1 TX_STATE_CLOSED, demo_info 2 TX_STATE_NEW]"

lemma demo_env_simps [simp]:
  "Db demo_env = mem_mgo" "AddrL demo_env = hash_addr_lib" "TxL demo_env = demo_lib (NewMsgTx 2)"
  "TxHash (demo_lib t0) t = demo_txid (LockTime t)"
  by (simp_all add: demo_env_def demo_lib_def demo_txid_def)

lemma demo_txid_eq: "demo_txid m = demo_txid n \<longleftrightarrow> (word_of_int m :: byte) = word_of_int n"
  by (simp add: demo_txid_def)

lemma is_badge_vin_demo [simp]: "is_badge_vin (NewTxIn x badge_sig)"
  by (simp add: is_badge_vin_def NewTxIn_def badge_sig_def BADGE_FLAG_def string_of_bytes_def) code_simp

lemma demo_world_wf: "wf_db (mem_docs demo_world) (\<lambda>c. set (mem_uniq demo_world c))"
  unfolding demo_world_def
  by (rule wf_mem_ledger) (simp_all add: demo_point_def demo_info_def demo_txid_eq)

lemma demo_points [simp]: "points_of (mem_docs demo_world) = [demo_point 1 100]"
  by (simp add: demo_world_def)

lemma badge_ins_demo_spend [simp]:
  "badge_ins (demo_spend n p v) = [(0, NewTxIn \<lparr>Hash = demo_txid p, OutIndex = 0\<rparr> badge_sig)]"
  by (simp add: badge_ins_def demo_spend_def indexed_def)

lemma spent_point_demo [simp]:
  "spent_point [demo_point 1 100] (NewTxIn \<lparr>Hash = demo_txid 1, OutIndex = 0\<rparr> badge_sig)
     = Some (demo_point 1 100)"
  by (simp add: spent_point_def point_id_def vin_id_def demo_point_def NewTxIn_def)

lemma demo_no_overflow: "no_overflow (points_of (mem_docs demo_world)) (demo_spend n 1 v)"
proof -
  have "Value (demo_point 1 100) = 100" by (simp add: demo_point_def)
  then show ?thesis by (simp add: no_overflow_def List.map_filter_def)
qed

lemma demo_mongo: "mongo (Db demo_env) mem_docs (\<lambda>w c. set (mem_uniq w c))"
  by (simp add: mem.mongo_axioms)

lemma demo_addr: "addr_lib_ok (AddrL demo_env)"
  by (simp add: hash_addr_lib_ok)

theorem ParseMsgTx_protocol_witness:
  "wf_db (mem_docs demo_world) (\<lambda>c. set (mem_uniq demo_world c)) \<and>
   no_overflow (points_of (mem_docs demo_world)) (demo_spend 2 1 60) \<and>
   (fst (ParseMsgTx demo_env (demo_spend 2 1 60) 7 demo_world)
      = parse_spec demo_env [demo_point 1 100] (txstate_of (mem_docs demo_world)) (demo_spend 2 1 60) 7 \<or>
    (\<exists>e. fst (ParseMsgTx demo_env (demo_spend 2 1 60) 7 demo_world) = Fail e \<and> plain_error e))"
  using ParseMsgTx_protocol [OF demo_mongo demo_world_wf demo_addr demo_no_overflow [of 2 60]
      prod.collapse [symmetric], of 7] demo_world_wf demo_no_overflow [of 2 60]
  by simp

text \<open>
  C10: conservation. A transaction whose badge outputs are accepted carries one badge. If it
  spends badge inputs, the outputs are of the inputs' badge and their sum is at most the
  sum of the inputs (which are recorded with negated values); if it spends none it
  issues a new badge, named by its own hash. No accepted value is negative.
\<close>

theorem ParseMsgTx_conservation:
  assumes "mongo (Db env) docs uniq" and "wf_db (docs w) (uniq w)" and "addr_lib_ok (AddrL env)"
    and "no_overflow (points_of (docs w)) msgTx" and "ParseMsgTx env msgTx ts w = (Ok invt, w')"
  shows "sum_list (map Value (Vins invt @ Vouts invt)) \<le> (if Vins invt = [] then max_int64 else 0) \<and>
    (\<forall>p \<in> set (Vouts invt). 0 \<le> Value p \<and> Txid p = TxHash (TxL env) msgTx \<and>
       (\<forall>q \<in> set (Vins invt @ Vouts invt). BadgeCode q = BadgeCode p) \<and>
       (Vins invt = [] \<longrightarrow> BadgeCode p = TxHash (TxL env) msgTx))"
proof -
  note l = mongo.is_ledger [OF assms(1)]
  from ledger.ParseMsgTx_refines [OF l refl assms(2-5)]
  have "parse_spec env (points_of (docs w)) (txstate_of (docs w)) msgTx ts = Ok invt" by auto
  from parse_spec_conservation [OF this assms(4)] show ?thesis .
qed

lemma demo_parse: "\<exists>invt w'. ParseMsgTx demo_env (demo_spend 2 1 60) 7 demo_world = (Ok invt, w')"
proof -
  have "fst (ParseMsgTx demo_env (demo_spend 2 1 60) 7 demo_world) =
      parse_spec demo_env [demo_point 1 100] (txstate_of (mem_docs demo_world)) (demo_spend 2 1 60) 7"
    using mem.led_up.ParseMsgTx_up [of demo_env demo_world "demo_spend 2 1 60" 7]
      demo_world_wf demo_addr demo_no_overflow by simp
  also have "\<exists>x. \<dots> = Ok x" by (simp add: parse_spec_def Let_def)
  finally show ?thesis by (metis prod.collapse)
qed

theorem ParseMsgTx_conservation_witness:
  "\<exists>invt w'. ParseMsgTx demo_env (demo_spend 2 1 60) 7 demo_world = (Ok invt, w') \<and>
     sum_list (map Value (Vins invt @ Vouts invt)) \<le> (if Vins invt = [] then max_int64 else 0)"
proof -
  obtain invt w' where run: "ParseMsgTx demo_env (demo_spend 2 1 60) 7 demo_world = (Ok invt, w')"
    using demo_parse by blast
  from ParseMsgTx_conservation [OF demo_mongo demo_world_wf demo_addr demo_no_overflow this]
  show ?thesis using run by blast
qed

end
