(* ===== verification/Tx_Batch.thy ===== *)
theory Tx_Batch
  imports Tx_Processing
begin

text \<open>
  \<open>ProcessMsgTx\<close> and \<open>ProcessMsgTxs\<close> (\<open>src/services/touchstone_server.go\<close>) on a store that is
  up: the state machine of one transaction, and that a batch whose parents are known is
  processed to the end in one pass, because \<open>SortMsgTx\<close> orders it.
\<close>

section \<open>One transaction\<close>

text \<open>The first badge input whose output is not stored decides what becomes of a transaction.\<close>

definition unresolved :: "TxPoint list \<Rightarrow> MsgTx \<Rightarrow> (int \<times> TxIn) option" where
  "unresolved pts t = find (\<lambda>(i, vin). vin_id vin \<notin> point_id ` set pts) (badge_ins t)"

text \<open>An input that spends an output of a closed transaction which is no badge output.\<close>

definition illegal_input :: "TxPoint list \<Rightarrow> (string \<rightharpoonup> int) \<Rightarrow> TxIn \<Rightarrow> bool" where
  "illegal_input pts st vin \<longleftrightarrow>
     st (Hash (PreviousOutPoint vin)) = Some TX_STATE_CLOSED \<and> vin_id vin \<notin> point_id ` set pts"

lemma vins_spec_find:
  "case find (\<lambda>(i, vin). vin_id vin \<notin> point_id ` set pts) l of
     None \<Rightarrow> \<exists>spent vins. vins_spec pts st txid ts l = Ok (spent, vins) \<and> length vins = length l
   | Some (i, vin) \<Rightarrow> vins_spec pts st txid ts l =
       (if illegal_input pts st vin then Panic ''nil pointer dereference'' else Fail (vin_utxo_error vin))"
proof (induction l)
  case (Cons iv l)
  obtain i vin where iv: "iv = (i, vin)" by fastforce
  show ?case
  proof (cases "spent_point pts vin")
    case None
    then show ?thesis using spent_point_None [of pts vin] by (simp add: iv illegal_input_def)
  next
    case (Some p)
    then have "vin_id vin \<in> point_id ` set pts" using spent_point_None [of pts vin] by auto
    then show ?thesis using Cons Some by (auto simp: iv split: option.splits)
  qed
qed simp

lemma inputs_of_unresolved:
  "case unresolved pts t of
     None \<Rightarrow> \<exists>spent vins. inputs_of env pts st t ts = Ok (spent, vins) \<and> length vins = length (badge_ins t)
   | Some (i, vin) \<Rightarrow> inputs_of env pts st t ts =
       (if illegal_input pts st vin then Panic ''nil pointer dereference'' else Fail (vin_utxo_error vin))"
  unfolding unresolved_def inputs_of_def by (rule vins_spec_find)

lemma unresolved_Some: "unresolved pts t = Some (i, vin) \<Longrightarrow> (i, vin) \<in> set (badge_ins t)"
  unfolding unresolved_def by (metis find_Some_iff nth_mem)

context ledger_up
begin

lemma add_points_up:
  assumes "Db env = drv"
  shows "wf w \<Longrightarrow> for_each (add_point_ignore_dup env) ps w \<noteq> (Fail e, w')"
proof (induction ps arbitrary: w)
  case (Cons p ps)
  obtain q w1 where q: "add_point_ignore_dup env p w = (q, w1)" by fastforce
  note res = add_point_ignore_dup_res [OF assms Cons.prems q]
  have "q \<noteq> Fail e'" for e'
    using q add_point_up [OF Cons.prems] unfolding add_point_ignore_dup_def assms
    by (auto simp: ret_def fail_def elim!: attempt_eqE split: if_splits)
  then have "q = Ok ()" "wf w1" using res by auto
  then show ?case using Cons.IH q by (simp add: andThen_def)
qed (simp add: ret_def)

lemma ParseMsgTx_Fail_up:
  assumes "Db env = drv" "wf w" and lib: "addr_lib_ok (AddrL env)"
    and run: "ParseMsgTx env msgTx ts w = (Fail e, w')"
  shows "\<not> plain_error e"
  using run ParseMsgTx_vouts_Ok [OF lib] ParseMsgTx_vins_up [OF assms(1,2)]
  by (auto simp: ParseMsgTx_def Let_def andThen_def attempt_def fail_def ret_def of_res_def
      split: prod.splits res.splits if_splits option.splits) (metis res.distinct(1))+

lemma ProcessMsgTx_up:
  assumes "Db env = drv" "wf w" and lib: "addr_lib_ok (AddrL env)"
    and run: "ProcessMsgTx env msgTx ts w = (r, w')"
  defines "txid \<equiv> TxHash (TxL env) msgTx"
  assumes known: "txid \<in> dom (txstate w)"
  shows "wf w' \<and> (case inputs_of env (points w) (txstate w) msgTx ts of
      Ok (spent, vins) \<Rightarrow> (\<exists>vouts. r = Ok \<lparr>Vins = vins, Vouts = vouts\<rparr> \<and>
        points w' = add_new (points w) (vins @ vouts)) \<and>
        txstate w' = (txstate w)(txid \<mapsto> TX_STATE_CLOSED)
    | Fail e \<Rightarrow> r = Fail e \<and> points w' = points w \<and> txstate w' = (txstate w)(txid \<mapsto> TX_STATE_OPEN)
    | Stop s \<Rightarrow> r = Stop s \<and> unchanged w w')"
proof -
  obtain q w1 where q: "ParseAndAddTxPoints env msgTx ts w = (q, w1)" by fastforce
  note out = ParseAndAddTxPoints_outcome [OF assms(1,2) lib q]
  have np: "\<not> plain_error e" if "q = Fail e" for e
  proof -
    obtain a wa where a: "ParseMsgTx env msgTx ts w = (a, wa)" by fastforce
    have "wf wa" using ParseMsgTx_outcome [OF assms(1,2) lib a] by (simp add: unchanged_def)
    have "wf wb" if "for_each (add_point_ignore_dup env) ps wa = (b, wb)" for ps b wb
      using add_points_res [OF assms(1) \<open>wf wa\<close> that] by blast
    then show ?thesis
      using q that a add_points_up [OF assms(1)] \<open>wf wa\<close> ParseMsgTx_Fail_up [OF assms(1,2) lib]
      by (cases a) (auto simp: ParseAndAddTxPoints_def andThen_def attempt_def ret_def fail_def
          split: res.splits prod.splits)
  qed
  have "wf w1" and st: "txstate w1 = txstate w" using out by auto
  have set: "SetMsgTxState drv txid s w1 = (u, w2) \<Longrightarrow> u = Ok () \<and> wf w2 \<and> points w2 = points w1 \<and>
      txstate w2 = (txstate w1)(txid \<mapsto> s)" if "s \<in> {TX_STATE_OPEN, TX_STATE_CLOSED}" for s u w2
    using set_state [OF \<open>wf w1\<close>, of txid s u w2] set_state_up [OF \<open>wf w1\<close>, of txid s] known st that
    by (cases u) auto
  obtain u2 w2 where s2: "SetMsgTxState drv txid TX_STATE_OPEN w1 = (u2, w2)" by fastforce
  obtain u3 w3 where s3: "SetMsgTxState drv txid TX_STATE_CLOSED w1 = (u3, w3)" by fastforce
  note sets = set [OF _ s2] set [OF _ s3]
  have run': "(r, w') = (case q of Ok invt \<Rightarrow> (Ok invt, w3)
      | Fail e \<Rightarrow> if unknow_error e then (Fail e, w2) else (Fail e, w1) | Stop s \<Rightarrow> (Stop s, w1))"
    using run q sets s2 s3 unfolding txid_def assms(1) ProcessMsgTx_def
    by (auto simp: andThen_def attempt_def ret_def fail_def unknow_error_def split: res.splits)
  show ?thesis
  proof (cases "inputs_of env (points w) (txstate w) msgTx ts")
    case (Ok x)
    then show ?thesis using out np run' sets st by (auto split: prod.splits)
  next
    case (Fail e)
    then have "unknow_error e" using vins_spec_Fail by (auto simp: inputs_of_def)
    then show ?thesis using out np run' sets st Fail by auto
  next
    case (Stop s)
    then show ?thesis using out np run' by (auto simp: unchanged_def)
  qed
qed

end


section \<open>A batch\<close>

text \<open>The inputs of each transaction are of transactions closed by then.\<close>

fun ready :: "(MsgTx \<Rightarrow> string) \<Rightarrow> (string \<rightharpoonup> int) \<Rightarrow> MsgTx list \<Rightarrow> bool" where
  "ready h st [] \<longleftrightarrow> True"
| "ready h st (t # ts) \<longleftrightarrow>
     (\<forall>(i, vin) \<in> set (badge_ins t). st (Hash (PreviousOutPoint vin)) = Some TX_STATE_CLOSED) \<and>
     ready h (st(h t \<mapsto> TX_STATE_CLOSED)) ts"

lemma vins_spec_ready:
  "\<forall>(i, vin) \<in> set l. st (Hash (PreviousOutPoint vin)) = Some TX_STATE_CLOSED \<Longrightarrow>
     vins_spec pts st txid ts l \<noteq> Fail e"
  by (induction l) (auto simp: bind_res_eq_Fail split: option.splits)

lemma badge_ins_pre_hashes: "(i, vin) \<in> set (badge_ins t) \<Longrightarrow> Hash (PreviousOutPoint vin) \<in> set (pre_hashes t)"
  by (auto simp: badge_ins_def in_set_indexed pre_hashes_def)

lemma topo_ready:
  assumes "topo h (xs @ ys)" "\<forall>x \<in> set xs. st (h x) = Some TX_STATE_CLOSED"
    and "\<And>t i vin. t \<in> set ys \<Longrightarrow> (i, vin) \<in> set (badge_ins t) \<Longrightarrow>
      Hash (PreviousOutPoint vin) \<in> h ` set (xs @ ys) \<or> st (Hash (PreviousOutPoint vin)) = Some TX_STATE_CLOSED"
  shows "ready h st ys"
  using assms
proof (induction ys arbitrary: xs st)
  case (Cons t ys)
  have "st (Hash (PreviousOutPoint vin)) = Some TX_STATE_CLOSED" if v: "(i, vin) \<in> set (badge_ins t)" for i vin
  proof (cases "Hash (PreviousOutPoint vin) \<in> h ` set (xs @ t # ys)")
    case True
    have "\<forall>p \<in> set (pre_hashes ((xs @ t # ys) ! length xs)). p \<in> h ` set (xs @ t # ys) \<longrightarrow>
        p \<in> h ` set (take (length xs) (xs @ t # ys))"
      using Cons.prems(1) unfolding topo_def by (metis add_Suc_right length_append less_add_Suc1 list.size(4) add.right_neutral)
    then have "Hash (PreviousOutPoint vin) \<in> h ` set xs" using badge_ins_pre_hashes [OF v] True by auto
    then show ?thesis using Cons.prems(2) by auto
  next
    case False
    then show ?thesis using Cons.prems(3) [OF _ v] by auto
  qed
  moreover have "ready h (st(h t \<mapsto> TX_STATE_CLOSED)) ys"
  proof (rule Cons.IH [of "xs @ [t]"])
    show "topo h ((xs @ [t]) @ ys)" using Cons.prems(1) by simp
    show "\<forall>x \<in> set (xs @ [t]). (st(h t \<mapsto> TX_STATE_CLOSED)) (h x) = Some TX_STATE_CLOSED"
      using Cons.prems(2) by simp
    show "Hash (PreviousOutPoint vin) \<in> h ` set ((xs @ [t]) @ ys) \<or>
        (st(h t \<mapsto> TX_STATE_CLOSED)) (Hash (PreviousOutPoint vin)) = Some TX_STATE_CLOSED"
      if "u \<in> set ys" "(i, vin) \<in> set (badge_ins u)" for u i vin
      using Cons.prems(3) [of u i vin] that by auto
  qed
  ultimately show ?case by auto
qed simp

context ledger_up
begin

lemma ProcessMsgTxs_loop_ready:
  assumes "Db env = drv" and lib: "addr_lib_ok (AddrL env)"
  shows "wf w \<Longrightarrow> ready (TxHash (TxL env)) (txstate w) ts \<Longrightarrow>
    \<forall>t \<in> set ts. TxHash (TxL env) t \<in> dom (txstate w) \<Longrightarrow>
    ProcessMsgTxs_loop env timestamp ts res w = (r, w') \<Longrightarrow>
    wf w' \<and> (r = Panic ''nil pointer dereference'' \<and>
       (\<exists>t \<in> set ts. \<exists>(i, vin) \<in> set (badge_ins t). illegal_input (points w') (txstate w') vin) \<or> (\<exists>invts. r = Ok (res\<lparr>TxInventorys := TxInventorys res @ invts\<rparr>) \<and>
      length invts = length ts \<and>
      (\<forall>u. txstate w' u = (if u \<in> TxHash (TxL env) ` set ts then Some TX_STATE_CLOSED else txstate w u))))"
proof (induction ts arbitrary: w res)
  case (Cons t ts)
  let ?h = "TxHash (TxL env)"
  obtain q w1 where q: "ProcessMsgTx env t timestamp w = (q, w1)" by fastforce
  have known: "?h t \<in> dom (txstate w)" using Cons.prems(3) by simp
  note one = ProcessMsgTx_up [OF assms(1) Cons.prems(1) lib q known]
  have nf: "inputs_of env (points w) (txstate w) t timestamp \<noteq> Fail e" for e
    using Cons.prems(2) by (auto simp: inputs_of_def intro!: vins_spec_ready)
  show ?case
  proof (cases "inputs_of env (points w) (txstate w) t timestamp")
    case (Ok x)
    then obtain invt where i: "q = Ok invt" "wf w1" "txstate w1 = (txstate w)(?h t \<mapsto> TX_STATE_CLOSED)"
      using one by (auto split: prod.splits)
    have run: "ProcessMsgTxs_loop env timestamp ts (res\<lparr>TxInventorys := TxInventorys res @ [invt]\<rparr>) w1 = (r, w')"
      using Cons.prems(4) q i(1) by simp
    have "ready ?h (txstate w1) ts" "\<forall>t \<in> set ts. ?h t \<in> dom (txstate w1)"
      using Cons.prems(2,3) i(3) by auto
    from Cons.IH [OF i(2) this run] have "wf w'" and "r = Panic ''nil pointer dereference'' \<and>
        (\<exists>t \<in> set ts. \<exists>(i, vin) \<in> set (badge_ins t). illegal_input (points w') (txstate w') vin) \<or>
        (\<exists>invts. r = Ok (res\<lparr>TxInventorys := TxInventorys res @ invt # invts\<rparr>) \<and> length invts = length ts \<and>
          (\<forall>u. txstate w' u = (if u \<in> ?h ` set ts then Some TX_STATE_CLOSED else txstate w1 u)))"
      by simp_all
    then show ?thesis
    proof (elim disjE exE conjE)
      fix invts
      assume "r = Ok (res\<lparr>TxInventorys := TxInventorys res @ invt # invts\<rparr>)" "length invts = length ts"
        "\<forall>u. txstate w' u = (if u \<in> ?h ` set ts then Some TX_STATE_CLOSED else txstate w1 u)"
      then show ?thesis
        using \<open>wf w'\<close> i(3) by (intro conjI disjI2 exI [of _ "invt # invts"]) auto
    qed (use \<open>wf w'\<close> in auto)
  next
    case (Stop s)
    then obtain i vin where v: "unresolved (points w) t = Some (i, vin)" "illegal_input (points w) (txstate w) vin"
      "s = Panicked ''nil pointer dereference''"
      using inputs_of_unresolved [of env "points w" "txstate w" t timestamp]
      by (auto split: option.splits prod.splits if_splits)
    then show ?thesis
      using Stop one Cons.prems(4) q unresolved_Some [OF v(1)] by (auto simp: unchanged_def)
  qed (use nf in blast)
qed (auto simp: ret_def intro!: exI [of _ "[]"])

end


section \<open>Instances for the witnesses\<close>

lemma vins_spec_stored:
  "\<forall>(i, vin) \<in> set l. vin_id vin \<in> point_id ` set pts \<Longrightarrow>
     \<exists>spent vins. vins_spec pts st txid ts l = Ok (spent, vins) \<and> length vins = length l"
proof (induction l)
  case (Cons iv l)
  obtain i vin where iv: "iv = (i, vin)" by fastforce
  then obtain p where "spent_point pts vin = Some p"
    using Cons.prems spent_point_None [of pts vin] by (cases "spent_point pts vin") auto
  moreover obtain spent vins where "vins_spec pts st txid ts l = Ok (spent, vins)" "length vins = length l"
    using Cons by auto
  ultimately show ?case by (simp add: iv)
qed simp

lemma demo_spend_lock [simp]: "LockTime (demo_spend n p v) = n"
  by (simp add: demo_spend_def)

lemma demo_known: "demo_txid 2 \<in> dom (txstate_of (mem_docs demo_world))"
  by (simp add: demo_world_def txstate_mem_ledger dom_def demo_info_def)

definition demo_chain :: mem where
  "demo_chain = mem_ledger [demo_point 1 100]
     [demo_info 1 TX_STATE_CLOSED, demo_info 2 TX_STATE_NEW, demo_info 3 TX_STATE_NEW]"

lemma demo_chain_wf: "wf_db (mem_docs demo_chain) (\<lambda>c. set (mem_uniq demo_chain c))"
  unfolding demo_chain_def
  by (rule wf_mem_ledger) (simp_all add: demo_point_def demo_info_def demo_txid_eq)

lemma demo_chain_acyclic: "acyclic (dep (TxHash (TxL demo_env)) [demo_spend 3 2 50, demo_spend 2 1 60])"
proof -
  have "dep (TxHash (TxL demo_env)) [demo_spend 3 2 50, demo_spend 2 1 60] \<subseteq> {(demo_txid 2, demo_txid 3)}"
    by (auto simp: dep_def pre_hashes_def demo_spend_def NewTxIn_def demo_txid_eq)
  moreover have "acyclic ({} :: (string \<times> string) set)" by (simp add: acyclic_def)
  then have "acyclic {(demo_txid 2, demo_txid 3)}" by (simp add: demo_txid_eq)
  ultimately show ?thesis by (rule acyclic_subset [rotated])
qed

lemma demo_chain_known:
  "\<forall>t \<in> set [demo_spend 3 2 50, demo_spend 2 1 60].
     TxHash (TxL demo_env) t \<in> dom (txstate_of (mem_docs demo_chain)) \<and>
     (\<forall>(i, vin) \<in> set (badge_ins t).
        Hash (PreviousOutPoint vin) \<in> TxHash (TxL demo_env) ` set [demo_spend 3 2 50, demo_spend 2 1 60] \<or>
        txstate_of (mem_docs demo_chain) (Hash (PreviousOutPoint vin)) = Some TX_STATE_CLOSED)"
  by (auto simp: NewTxIn_def demo_chain_def txstate_mem_ledger demo_info_def demo_txid_eq dom_def)


lemma demo_mongo_up: "mongo_up (Db demo_env) mem_docs (\<lambda>w c. set (mem_uniq w c))"
  by (simp add: mem.mongo_up_axioms)

lemma process_stored:
  assumes "mongo_up (Db env) docs uniq" and "wf_db (docs w) (uniq w)" and "addr_lib_ok (AddrL env)"
    and "TxHash (TxL env) msgTx \<in> dom (txstate_of (docs w))"
    and "\<forall>(i, vin) \<in> set (badge_ins msgTx). vin_id vin \<in> point_id ` set (points_of (docs w))"
  shows "\<exists>invt w'. ProcessMsgTx env msgTx ts w = (Ok invt, w') \<and>
    length (Vins invt) = length (badge_ins msgTx) \<and>
    txstate_of (docs w') (TxHash (TxL env) msgTx) = Some TX_STATE_CLOSED"
proof -
  note l = mongo_up.is_ledger_up [OF assms(1)]
  obtain r w' where run: "ProcessMsgTx env msgTx ts w = (r, w')" by fastforce
  obtain spent vins where "inputs_of env (points_of (docs w)) (txstate_of (docs w)) msgTx ts = Ok (spent, vins)"
    and "length vins = length (badge_ins msgTx)"
    using vins_spec_stored [OF assms(5)] unfolding inputs_of_def by metis
  then show ?thesis
    using ledger_up.ProcessMsgTx_up [OF l refl assms(2,3) run assms(4)] run by auto
qed

lemma demo_stored:
  "\<forall>(i, vin) \<in> set (badge_ins (demo_spend n 1 v)). vin_id vin \<in> point_id ` set (points_of (mem_docs demo_world))"
  by (simp add: demo_point_def vin_id_def point_id_def NewTxIn_def)

lemma demo_closes: "\<exists>invt w1. ProcessMsgTx demo_env (demo_spend 2 1 60) 7 demo_world = (Ok invt, w1)"
  using process_stored [OF demo_mongo_up demo_world_wf demo_addr _ demo_stored, of 2 60 7]
  by (auto simp: demo_known)


section \<open>Properties\<close>

text \<open>
  C23: the state machine of a transaction. On a store that is up, what \<open>ProcessMsgTx\<close> does to a recorded transaction
  is decided by its first badge input whose output is not stored. If there is none, it returns an inventory
  with one entry per badge input, adds the points of the inventory that are missing and moves the transaction
  to CLOSED. If the output belongs to a transaction that is not closed, it reports an unknown output and moves
  the transaction to OPEN, without touching the points. Otherwise it panics and changes nothing. No other
  transaction changes its state.
\<close>

theorem ProcessMsgTx_state_machine:
  assumes "mongo_up (Db env) docs uniq" and "wf_db (docs w) (uniq w)" and "addr_lib_ok (AddrL env)"
    and "TxHash (TxL env) msgTx \<in> dom (txstate_of (docs w))" and "ProcessMsgTx env msgTx ts w = (r, w')"
  shows "case unresolved (points_of (docs w)) msgTx of
      None \<Rightarrow> \<exists>invt. r = Ok invt \<and> length (Vins invt) = length (badge_ins msgTx) \<and>
        txstate_of (docs w') = (txstate_of (docs w))(TxHash (TxL env) msgTx \<mapsto> TX_STATE_CLOSED) \<and>
        points_of (docs w') = add_new (points_of (docs w)) (Vins invt @ Vouts invt)
    | Some (i, vin) \<Rightarrow>
        if txstate_of (docs w) (Hash (PreviousOutPoint vin)) \<noteq> Some TX_STATE_CLOSED
        then (\<exists>e. r = Fail e \<and> contains (err_str e) ''unknow utxo'') \<and>
          txstate_of (docs w') = (txstate_of (docs w))(TxHash (TxL env) msgTx \<mapsto> TX_STATE_OPEN) \<and>
          points_of (docs w') = points_of (docs w)
        else r = Panic ''nil pointer dereference'' \<and>
          txstate_of (docs w') = txstate_of (docs w) \<and> points_of (docs w') = points_of (docs w)"
proof -
  let ?pts = "points_of (docs w)" and ?st = "txstate_of (docs w)"
  note l = mongo_up.is_ledger_up [OF assms(1)]
  note l0 = mongo.is_ledger [OF mongo_up.axioms(1) [OF assms(1)]]
  note out = ledger_up.ProcessMsgTx_up [OF l refl assms(2,3,5,4)]
  note ins = inputs_of_unresolved [of env ?pts ?st msgTx ts]
  show ?thesis
  proof (cases "unresolved ?pts msgTx")
    case None
    then show ?thesis using ins out by auto
  next
    case (Some iv)
    obtain i vin where iv: "iv = (i, vin)" by fastforce
    have "illegal_input ?pts ?st vin \<longleftrightarrow> ?st (Hash (PreviousOutPoint vin)) = Some TX_STATE_CLOSED"
      using Some unfolding unresolved_def iv illegal_input_def by (auto dest!: find_Some_iff [THEN iffD1])
    then show ?thesis
      using ins out unknow_error_vin [of vin] by (auto simp: Some iv unknow_error_def ledger.unchanged_def [OF l0])
  qed
qed

text \<open>A transaction that waits for its parent, and is closed once the parent is.\<close>

theorem ProcessMsgTx_state_machine_witness:
  "txstate_of (mem_docs (snd (ProcessMsgTx demo_env (demo_spend 3 2 50) 7 demo_chain))) (demo_txid 3) = Some TX_STATE_OPEN \<and>
   txstate_of (mem_docs (snd (ProcessMsgTx demo_env (demo_spend 2 1 60) 7 demo_chain))) (demo_txid 2) = Some TX_STATE_CLOSED"
proof -
  have known: "demo_txid 2 \<in> dom (txstate_of (mem_docs demo_chain))" "demo_txid 3 \<in> dom (txstate_of (mem_docs demo_chain))"
    "txstate_of (mem_docs demo_chain) (demo_txid 2) \<noteq> Some TX_STATE_CLOSED"
    by (simp_all add: demo_chain_def txstate_mem_ledger demo_info_def demo_txid_eq dom_def TX_STATE_NEW_def TX_STATE_CLOSED_def)
  have "unresolved (points_of (mem_docs demo_chain)) (demo_spend 3 2 50) =
      Some (0, NewTxIn \<lparr>Hash = demo_txid 2, OutIndex = 0\<rparr> badge_sig)"
    "unresolved (points_of (mem_docs demo_chain)) (demo_spend 2 1 60) = None"
    by (simp_all add: unresolved_def demo_chain_def vin_id_def NewTxIn_def demo_point_def point_id_def demo_txid_eq)
  then show ?thesis
    using ProcessMsgTx_state_machine [OF demo_mongo_up demo_chain_wf demo_addr _ prod.collapse [symmetric], of "demo_spend 3 2 50" 7]
      ProcessMsgTx_state_machine [OF demo_mongo_up demo_chain_wf demo_addr _ prod.collapse [symmetric], of "demo_spend 2 1 60" 7]
      known by (auto simp: NewTxIn_def)
qed

text \<open>
  Progress. On a store that is up, \<open>ProcessMsgTx\<close> closes every known transaction whose
  badge inputs are all stored: it returns an inventory with one entry per badge input,
  whatever the outputs are.
\<close>

theorem ProcessMsgTx_closes:
  assumes "mongo_up (Db env) docs uniq" and "wf_db (docs w) (uniq w)" and "addr_lib_ok (AddrL env)"
    and "TxHash (TxL env) msgTx \<in> dom (txstate_of (docs w))"
    and "\<forall>(i, vin) \<in> set (badge_ins msgTx). vin_id vin \<in> point_id ` set (points_of (docs w))"
  shows "\<exists>invt w'. ProcessMsgTx env msgTx ts w = (Ok invt, w') \<and>
    length (Vins invt) = length (badge_ins msgTx) \<and>
    txstate_of (docs w') (TxHash (TxL env) msgTx) = Some TX_STATE_CLOSED"
  by (rule process_stored [OF assms])

theorem ProcessMsgTx_closes_witness:
  "\<exists>invt w'. ProcessMsgTx demo_env (demo_spend 2 1 60) 7 demo_world = (Ok invt, w') \<and>
     length (Vins invt) = 1 \<and> txstate_of (mem_docs w') (demo_txid 2) = Some TX_STATE_CLOSED"
  using ProcessMsgTx_closes [OF demo_mongo_up demo_world_wf demo_addr _ demo_stored, of 2 60 7]
  by (auto simp: demo_known)

text \<open>
  C11: one pass over a batch is enough. If the spending relation inside the batch is acyclic
  and every badge input is of a transaction of the batch or of one already closed, then,
  on a store that is up, \<open>ProcessMsgTxs\<close> reports no error and closes every transaction of
  the batch and no other. The only exception is a transaction of the batch with an input that spends an
  output of a closed transaction which is no badge output: there it panics.
\<close>

theorem ProcessMsgTxs_closes_batch:
  assumes "mongo_up (Db env) docs uniq" and "wf_db (docs w) (uniq w)" and "addr_lib_ok (AddrL env)"
    and "acyclic (dep (TxHash (TxL env)) batch)"
    and "\<forall>t \<in> set batch. TxHash (TxL env) t \<in> dom (txstate_of (docs w)) \<and>
      (\<forall>(i, vin) \<in> set (badge_ins t). Hash (PreviousOutPoint vin) \<in> TxHash (TxL env) ` set batch \<or>
         txstate_of (docs w) (Hash (PreviousOutPoint vin)) = Some TX_STATE_CLOSED)"
    and "ProcessMsgTxs env batch ts w = (r, w')"
  shows "r = Panic ''nil pointer dereference'' \<and> (\<exists>t \<in> set batch. \<exists>(i, vin) \<in> set (badge_ins t).
      txstate_of (docs w') (Hash (PreviousOutPoint vin)) = Some TX_STATE_CLOSED \<and>
      vin_id vin \<notin> point_id ` set (points_of (docs w'))) \<or>
    (\<exists>res. r = Ok res \<and> ErrTxs res = [] \<and> length (TxInventorys res) = length batch \<and>
      (\<forall>u. txstate_of (docs w') u =
         (if u \<in> TxHash (TxL env) ` set batch then Some TX_STATE_CLOSED else txstate_of (docs w) u)))"
proof -
  let ?h = "TxHash (TxL env)" and ?s = "SortMsgTx (TxHash (TxL env)) batch"
  note l = mongo_up.is_ledger_up [OF assms(1)]
  have "ready ?h (txstate_of (docs w)) ?s"
    by (rule topo_ready [of _ "[]"])
       (use SortMsgTx.sorter_topo [OF assms(4)] assms(5) in \<open>auto simp: SortMsgTx.sorter_set\<close>)
  moreover have "\<forall>t \<in> set ?s. ?h t \<in> dom (txstate_of (docs w))"
    using assms(5) by (auto simp: SortMsgTx.sorter_set)
  ultimately show ?thesis
    using ledger_up.ProcessMsgTxs_loop_ready [OF l refl assms(3,2) _ _ assms(6) [unfolded ProcessMsgTxs_def]]
    by (fastforce simp: SortMsgTx.sorter_set SortMsgTx.sorter_length illegal_input_def)
qed

text \<open>A child that comes before its parent: both are closed.\<close>

theorem ProcessMsgTxs_closes_batch_witness:
  "\<exists>res w'. ProcessMsgTxs demo_env [demo_spend 3 2 50, demo_spend 2 1 60] 7 demo_chain = (Ok res, w') \<and> ErrTxs res = [] \<and>
     txstate_of (mem_docs w') (demo_txid 2) = Some TX_STATE_CLOSED \<and>
     txstate_of (mem_docs w') (demo_txid 3) = Some TX_STATE_CLOSED"
proof -
  let ?b = "[demo_spend 3 2 50, demo_spend 2 1 60]"
  have "succeeds (ProcessMsgTxs demo_env ?b 7 demo_chain)" by code_simp
  then obtain res where run: "ProcessMsgTxs demo_env ?b 7 demo_chain = (Ok res, snd (ProcessMsgTxs demo_env ?b 7 demo_chain))"
    by (rule succeedsE)
  from ProcessMsgTxs_closes_batch [OF demo_mongo_up demo_chain_wf demo_addr demo_chain_acyclic demo_chain_known run]
  have "ErrTxs res = []" "txstate_of (mem_docs (snd (ProcessMsgTxs demo_env ?b 7 demo_chain))) (demo_txid 2) = Some TX_STATE_CLOSED"
    "txstate_of (mem_docs (snd (ProcessMsgTxs demo_env ?b 7 demo_chain))) (demo_txid 3) = Some TX_STATE_CLOSED"
    by auto
  with run show ?thesis by blast
qed

text \<open>
  C32: an input that spends an output which is no badge output crashes the parser. When the
  first badge input of a transaction refers to a closed transaction that has no stored
  point there, \<open>ParseMsgTx\<close> dereferences a nil pointer instead of treating the input as
  illegal.
\<close>

theorem ParseMsgTx_illegal_vin_panics:
  assumes "mongo_up (Db env) docs uniq" and "wf_db (docs w) (uniq w)" and "addr_lib_ok (AddrL env)"
    and "badge_ins msgTx = (i, vin) # rest"
    and "txstate_of (docs w) (Hash (PreviousOutPoint vin)) = Some TX_STATE_CLOSED"
    and "vin_id vin \<notin> point_id ` set (points_of (docs w))"
  shows "fst (ParseMsgTx env msgTx ts w) = Panic ''nil pointer dereference''"
proof -
  note l = mongo_up.is_ledger_up [OF assms(1)]
  note l0 = mongo.is_ledger [OF mongo_up.axioms(1) [OF assms(1)]]
  obtain r w' where run: "ParseMsgTx env msgTx ts w = (r, w')" by fastforce
  have "inputs_of env (points_of (docs w)) (txstate_of (docs w)) msgTx ts = Panic ''nil pointer dereference''"
    using assms(4-6) by (simp add: inputs_of_def spent_point_None [THEN iffD2])
  with ledger.ParseMsgTx_outcome [OF l0 refl assms(2,3) run] ledger_up.ParseMsgTx_Fail_up [OF l refl assms(2,3)] run
  show ?thesis by auto
qed

theorem ParseMsgTx_illegal_vin_panics_witness:
  "fst (ParseMsgTx demo_env (demo_spend 2 1 60) 7 (mem_ledger [] [demo_info 1 TX_STATE_CLOSED]))
     = Panic ''nil pointer dereference''"
proof -
  have wf: "wf_db (mem_docs (mem_ledger [] [demo_info 1 TX_STATE_CLOSED]))
      (\<lambda>c. set (mem_uniq (mem_ledger [] [demo_info 1 TX_STATE_CLOSED]) c))"
    by (rule wf_mem_ledger) simp_all
  show ?thesis
    by (rule ParseMsgTx_illegal_vin_panics [OF demo_mongo_up wf demo_addr badge_ins_demo_spend])
       (simp_all add: txstate_mem_ledger demo_info_def NewTxIn_def)
qed

end
