(* ===== verification/Supply.thy ===== *)
theory Supply
  imports Tx_Batch
begin

text \<open>
  The supply of a badge. Over any sequence of \<open>ProcessMsgTx\<close> calls, with replays, failing
  databases and arbitrary order, the stored points of a badge sum up to an amount
  between zero and the largest that can be issued, provided the transactions obey the
  rule of the chain that an output is spent at most once. In particular the 64-bit sums
  of the parser never wrap.
\<close>

section \<open>Histories\<close>

fun run_all :: "('w, 'a) env \<Rightarrow> (MsgTx \<times> int) list \<Rightarrow> 'w \<Rightarrow> 'w" where
  "run_all env [] w = w"
| "run_all env ((t, ts) # l) w = run_all env l (snd (ProcessMsgTx env t ts w))"

definition no_double_spend :: "MsgTx set \<Rightarrow> bool" where
  "no_double_spend S \<longleftrightarrow>
     (\<forall>t \<in> S. \<forall>t' \<in> S. \<forall>(i, vin) \<in> set (badge_ins t). \<forall>(i', vin') \<in> set (badge_ins t').
        vin_id vin = vin_id vin' \<longrightarrow> t = t' \<and> i = i')"

text \<open>The balance of a badge at an address, and the supply of a badge.\<close>

definition balance :: "TxPoint list \<Rightarrow> string \<Rightarrow> string \<Rightarrow> int" where
  "balance pts addr code =
     sum_list (map Value (filter (\<lambda>p. Addr p = addr \<and> BadgeCode p = code) pts))"

definition total_supply :: "TxPoint list \<Rightarrow> string \<Rightarrow> int" where
  "total_supply pts code = sum_list (map Value (filter (\<lambda>p. BadgeCode p = code) pts))"

lemma sum_list_group:
  assumes "g ` set xs \<subseteq> A" "finite A"
  shows "sum_list (map f xs) = (\<Sum>y \<in> A. sum_list (map f (filter (\<lambda>x. g x = y) xs)))"
  using assms(1)
proof (induction xs)
  case (Cons x xs)
  have "(\<Sum>y \<in> A. sum_list (map f (filter (\<lambda>z. g z = y) (x # xs)))) =
      (\<Sum>y \<in> A. (if g x = y then f x else 0) + sum_list (map f (filter (\<lambda>z. g z = y) xs)))"
    by (rule sum.cong) auto
  also have "\<dots> = f x + sum_list (map f xs)"
    using Cons assms(2) by (simp add: sum.distrib)
  finally show ?case by simp
qed simp


section \<open>The inventory of a transaction does not change\<close>

definition strip :: "TxPoint \<Rightarrow> TxPoint" where
  "strip p = p\<lparr>Timestamp := 0, State := TX_POINT_STATE_MAY_BE_UNSPENT\<rparr>"

lemma strip_simps [simp]:
  "Value (strip p) = Value p" "BadgeCode (strip p) = BadgeCode p" "Txid (strip p) = Txid p"
  "Type (strip p) = Type p" "Index (strip p) = Index p" "Addr (strip p) = Addr p"
  "PreTxid (strip p) = PreTxid p" "PreIndex (strip p) = PreIndex p" "point_id (strip p) = point_id p"
  by (simp_all add: strip_def point_id_def)

lemma vins_spec_iff:
  "vins_spec pts st txid ts l = Ok (spent, vins) \<longleftrightarrow>
     list_all2 (\<lambda>(i, vin) p. spent_point pts vin = Some p) l spent \<and>
     vins = map2 (\<lambda>(i, vin) p. vin_point txid ts i p) l spent"
proof (induction l arbitrary: spent vins)
  case (Cons iv l)
  obtain i vin where iv: "iv = (i, vin)" by fastforce
  show ?case
  proof (cases spent)
    case (Cons p ps)
    then show ?thesis
      by (auto simp: iv Cons.IH split: option.splits if_splits)
  qed (auto simp: iv split: option.splits if_splits)
qed auto

lemma spent_point_append: "spent_point pts vin = Some p \<Longrightarrow> spent_point (pts @ qs) vin = Some p"
  by (induction pts) (auto simp: spent_point_def)

lemma vins_spec_append:
  "vins_spec pts st txid ts l = Ok x \<Longrightarrow> vins_spec (pts @ qs) st' txid ts l = Ok x"
  by (cases x) (auto simp: vins_spec_iff intro: list_all2_mono spent_point_append split: prod.splits)

lemma parse_spec_append:
  "parse_spec env pts st t ts = Ok invt \<Longrightarrow> parse_spec env (pts @ qs) st' t ts = Ok invt"
  unfolding parse_spec_def Let_def
  by (cases "vins_spec pts st (TxHash (TxL env) t) ts (badge_ins t)") (simp_all add: vins_spec_append)

lemma no_overflow_append:
  assumes "parse_spec env pts st t ts = Ok invt" "no_overflow pts t"
  shows "no_overflow (pts @ qs) t"
proof -
  obtain spent vins where v: "vins_spec pts st (TxHash (TxL env) t) ts (badge_ins t) = Ok (spent, vins)"
    using assms(1) by (auto simp: parse_spec_def Let_def)
  note o = vins_spec_Ok [OF v] vins_spec_Ok [OF vins_spec_append [OF v]]
  have "List.map_filter (spent_point (pts @ qs)) (map snd (badge_ins t)) =
      List.map_filter (spent_point pts) (map snd (badge_ins t))"
    using o(1) [THEN conjunct1] o(2) [THEN conjunct1] by metis
  then show ?thesis using assms(2) by (simp add: no_overflow_def)
qed

lemma parse_spec_strip:
  assumes "parse_spec env pts st t ts = Ok invt"
  shows "\<exists>i0. parse_spec env pts st' t 0 = Ok i0 \<and>
    map strip (Vins invt) = Vins i0 \<and> map strip (Vouts invt) = Vouts i0"
proof -
  let ?h = "TxHash (TxL env) t"
  obtain spent vins where v: "vins_spec pts st ?h ts (badge_ins t) = Ok (spent, vins)"
    using assms by (auto simp: parse_spec_def Let_def)
  then have v0: "vins_spec pts st' ?h 0 (badge_ins t) = Ok (spent, map strip vins)"
    by (auto simp: vins_spec_iff vin_point_def strip_def)
  show ?thesis
    using assms v v0 by (auto simp: parse_spec_def Let_def vout_point_def strip_def)
qed

lemma parse_spec_restamp:
  assumes "parse_spec env pts st t ts = Ok invt"
  shows "\<exists>i'. parse_spec env pts st' t ts' = Ok i' \<and>
    map strip (Vins invt @ Vouts invt) = map strip (Vins i' @ Vouts i')"
proof -
  let ?h = "TxHash (TxL env) t"
  obtain spent vins where v: "vins_spec pts st ?h ts (badge_ins t) = Ok (spent, vins)"
    using assms by (auto simp: parse_spec_def Let_def)
  let ?v = "map2 (\<lambda>(i, vin) p. vin_point ?h ts' i p) (badge_ins t) spent"
  have v': "vins_spec pts st' ?h ts' (badge_ins t) = Ok (spent, ?v)" using v by (simp add: vins_spec_iff)
  have "map strip vins = map strip ?v" using v by (auto simp: vins_spec_iff vin_point_def strip_def)
  then show ?thesis
    using assms v v' by (auto simp: parse_spec_def Let_def vout_point_def strip_def)
qed


section \<open>Points of one transaction\<close>

lemma badge_outs_range: "(i, bv) \<in> set (badge_outs env outs) \<Longrightarrow> 0 \<le> BadgeValue bv \<and> BadgeValue bv \<le> max_int64"
  by (induction outs) (auto dest: ParseBadgeVoutScript_value split: res.splits)

lemma badge_outs_fst: "(i, bv) \<in> set (badge_outs env outs) \<Longrightarrow> i \<in> fst ` set outs"
  by (induction outs) (auto split: res.splits)

lemma badge_outs_distinct: "distinct (map fst outs) \<Longrightarrow> distinct (map fst (badge_outs env outs))"
proof (induction outs)
  case (Cons io outs)
  then show ?case using badge_outs_fst [of _ _ env outs] by (cases io) (auto split: res.splits)
qed simp

lemma distinct_map_fst_indexed: "distinct (map fst (indexed xs))"
  by (simp add: distinct_map)

lemma distinct_badge_outs: "distinct (map fst (badge_outs env (indexed xs)))"
  by (rule badge_outs_distinct [OF distinct_map_fst_indexed])

lemma distinct_badge_ins: "distinct (map fst (badge_ins t))"
  unfolding badge_ins_def by (rule distinct_map_filter [OF distinct_map_fst_indexed])

text \<open>What an inventory consists of.\<close>

lemma parse_spec_cases:
  assumes "parse_spec env pts st t ts = Ok invt"
  obtains spent where
    "list_all2 (\<lambda>(i, vin) p. spent_point pts vin = Some p) (badge_ins t) spent"
    "spent = List.map_filter (spent_point pts) (map snd (badge_ins t))"
    "Vins invt = map2 (\<lambda>(i, vin) p. vin_point (TxHash (TxL env) t) ts i p) (badge_ins t) spent"
    "Vouts invt = [] \<or> single_code spent \<and>
       badge_total (badge_outs env (indexed (TxOuts t))) \<le> available spent \<and>
       Vouts invt = map (\<lambda>(i, bv). vout_point (AddrL env) (TxHash (TxL env) t) ts
         (badge_code_of (TxHash (TxL env) t) spent) i bv) (badge_outs env (indexed (TxOuts t)))"
proof -
  obtain spent vins where v: "vins_spec pts st (TxHash (TxL env) t) ts (badge_ins t) = Ok (spent, vins)"
    using assms by (auto simp: parse_spec_def Let_def)
  with assms show thesis
    by (intro that [of spent]) (auto simp: parse_spec_def Let_def dest: vins_spec_Ok split: if_splits)
qed

lemma parse_spec_ids:
  assumes "parse_spec env pts st t ts = Ok invt"
  shows "distinct (map point_id (Vins invt @ Vouts invt))"
    and "p \<in> set (Vins invt) \<Longrightarrow> Txid p = TxHash (TxL env) t \<and> Type p = TX_POINT_TYPE_VIN"
    and "p \<in> set (Vouts invt) \<Longrightarrow> Txid p = TxHash (TxL env) t \<and> Type p = TX_POINT_TYPE_VOUT"
proof -
  from assms obtain spent where s: "list_all2 (\<lambda>(i, vin) p. spent_point pts vin = Some p) (badge_ins t) spent"
    "Vins invt = map2 (\<lambda>(i, vin) p. vin_point (TxHash (TxL env) t) ts i p) (badge_ins t) spent"
    "Vouts invt = [] \<or> Vouts invt = map (\<lambda>(i, bv). vout_point (AddrL env) (TxHash (TxL env) t) ts
         (badge_code_of (TxHash (TxL env) t) spent) i bv) (badge_outs env (indexed (TxOuts t)))"
    by (rule parse_spec_cases) auto
  show ins: "\<And>p. p \<in> set (Vins invt) \<Longrightarrow> Txid p = TxHash (TxL env) t \<and> Type p = TX_POINT_TYPE_VIN"
    unfolding s(2) by (auto simp: vin_point_def)
  show outs: "\<And>p. p \<in> set (Vouts invt) \<Longrightarrow> Txid p = TxHash (TxL env) t \<and> Type p = TX_POINT_TYPE_VOUT"
    using s(3) by (auto simp: vout_point_def)
  have "length (badge_ins t) = length spent" using s(1) by (rule list_all2_lengthD)
  then have "map Index (Vins invt) = map fst (badge_ins t)"
    unfolding s(2) by (auto simp: vin_point_def map_fst_zip [symmetric] simp flip: map_map intro!: nth_equalityI split: prod.splits)
  then have "distinct (map Index (Vins invt))" using distinct_badge_ins by metis
  moreover have "map Index (Vouts invt) = [] \<or> map Index (Vouts invt) = map fst (badge_outs env (indexed (TxOuts t)))"
    using s(3) by (auto simp: vout_point_def comp_def case_prod_unfold)
  then have "distinct (map Index (Vouts invt))" using distinct_badge_outs by (metis distinct.simps(1))
  ultimately show "distinct (map point_id (Vins invt @ Vouts invt))"
    using ins outs by (auto simp: distinct_map inj_on_def point_id_def tx_point_consts)
qed

lemma parse_spec_vout_value:
  assumes "parse_spec env pts st t ts = Ok invt" "p \<in> set (Vouts invt)"
  shows "0 \<le> Value p \<and> Value p \<le> max_int64"
proof (rule parse_spec_cases [OF assms(1)])
  fix spent
  assume "Vouts invt = [] \<or> single_code spent \<and>
       badge_total (badge_outs env (indexed (TxOuts t))) \<le> available spent \<and>
       Vouts invt = map (\<lambda>(i, bv). vout_point (AddrL env) (TxHash (TxL env) t) ts
         (badge_code_of (TxHash (TxL env) t) spent) i bv) (badge_outs env (indexed (TxOuts t)))"
  then obtain i bv where "(i, bv) \<in> set (badge_outs env (indexed (TxOuts t)))" "Value p = BadgeValue bv"
    using assms(2) by (auto simp: vout_point_def)
  then show ?thesis using badge_outs_range by metis
qed

text \<open>
  However much of an inventory is stored, the stored part of any badge sums up to at most
  zero, or, if the transaction has the badge's name, to what can be issued.
\<close>

lemma sum_list_filter_prefix:
  assumes "\<forall>x \<in> set xs. 0 \<le> (f x :: int)"
  shows "sum_list (map f (filter P (take k xs))) \<le> sum_list (map f xs)"
  using assms
proof (induction xs arbitrary: k)
  case (Cons x xs)
  have "0 \<le> sum_list (map f xs)" using Cons.prems by (intro sum_list_nonneg) auto
  moreover have "sum_list (map f (filter P (take m xs))) \<le> sum_list (map f xs)" for m using Cons by simp
  ultimately show ?case using Cons.prems by (cases k) (auto intro: add_increasing)
qed simp

lemma sum_list_nonpos: "(\<And>x. x \<in> set xs \<Longrightarrow> x \<le> (0 :: int)) \<Longrightarrow> sum_list xs \<le> 0"
  by (induction xs) (auto intro: add_nonpos_nonpos)

lemma prefix_supply:
  assumes sp: "parse_spec env pts st t ts = Ok invt" and no: "no_overflow pts t"
  shows "sum_list (map Value (filter (\<lambda>p. BadgeCode p = c) (take k (Vins invt @ Vouts invt)))) \<le>
    (if TxHash (TxL env) t = c then max_int64 else 0)"
proof -
  let ?s = "\<lambda>ps. sum_list (map Value (filter (\<lambda>p. BadgeCode p = c) ps))"
  note cons = parse_spec_conservation [OF sp no]
  obtain spent where s: "list_all2 (\<lambda>(i, vin) p. spent_point pts vin = Some p) (badge_ins t) spent"
    "spent = List.map_filter (spent_point pts) (map snd (badge_ins t))"
    "Vins invt = map2 (\<lambda>(i, vin) p. vin_point (TxHash (TxL env) t) ts i p) (badge_ins t) spent"
    by (rule parse_spec_cases [OF sp]) blast
  have "\<forall>p \<in> set spent. 0 \<le> Value p \<and> Value p \<le> max_int64"
    using no s(2) by (simp add: no_overflow_def Let_def)
  then have neg: "Value p \<le> 0" if "p \<in> set (Vins invt)" for p
    using that unfolding s(3) by (auto simp: vin_point_def wrap64_id is_int64_def dest!: set_zip_rightD)
  show ?thesis
  proof (cases "k \<le> length (Vins invt) \<or> Vouts invt = []")
    case True
    then have "set (take k (Vins invt @ Vouts invt)) \<subseteq> set (Vins invt)"
      by (auto dest: in_set_takeD)
    then have "?s (take k (Vins invt @ Vouts invt)) \<le> 0" using neg by (intro sum_list_nonpos) auto
    then show ?thesis by simp
  next
    case False
    then obtain p0 where p0: "p0 \<in> set (Vouts invt)" by (cases "Vouts invt") auto
    let ?d = "BadgeCode p0"
    have codes: "\<forall>q \<in> set (Vins invt @ Vouts invt). BadgeCode q = ?d"
      and pos: "\<forall>q \<in> set (Vouts invt). 0 \<le> Value q"
      and iss: "Vins invt = [] \<longrightarrow> ?d = TxHash (TxL env) t" using cons p0 by blast+
    have split: "take k (Vins invt @ Vouts invt) = Vins invt @ take (k - length (Vins invt)) (Vouts invt)"
      using False by simp
    show ?thesis
    proof (cases "c = ?d")
      case False
      then have "filter (\<lambda>p. BadgeCode p = c) (take k (Vins invt @ Vouts invt)) = []"
        using codes by (auto simp: filter_empty_conv dest!: in_set_takeD)
      then show ?thesis by simp
    next
      case True
      have "filter (\<lambda>p. BadgeCode p = c) (Vins invt) = Vins invt" using codes True by (simp add: filter_id_conv)
      moreover have "?s (take (k - length (Vins invt)) (Vouts invt)) \<le> sum_list (map Value (Vouts invt))"
        by (rule sum_list_filter_prefix [OF pos])
      ultimately have "?s (take k (Vins invt @ Vouts invt)) \<le> sum_list (map Value (Vins invt @ Vouts invt))"
        unfolding split by simp
      also have "\<dots> \<le> (if Vins invt = [] then max_int64 else 0)" using cons by blast
      also have "\<dots> \<le> (if TxHash (TxL env) t = c then max_int64 else 0)"
        using iss True by simp
      finally show ?thesis .
    qed
  qed
qed


section \<open>The invariant\<close>

definition points_of_tx :: "('w, 'a) env \<Rightarrow> TxPoint list \<Rightarrow> MsgTx \<Rightarrow> TxPoint list" where
  "points_of_tx env pts t = filter (\<lambda>p. Txid p = TxHash (TxL env) t) pts"

text \<open>
  Every stored point belongs to a transaction of the history, and what is stored of a
  transaction is an initial part of its inventory.
\<close>

definition stored_ok :: "('w, 'a) env \<Rightarrow> TxPoint list \<Rightarrow> MsgTx \<Rightarrow> bool" where
  "stored_ok env pts t \<longleftrightarrow> points_of_tx env pts t = [] \<or>
     (\<exists>invt k. parse_spec env pts Map.empty t 0 = Ok invt \<and> no_overflow pts t \<and>
        map strip (points_of_tx env pts t) = take k (Vins invt @ Vouts invt))"

definition good :: "('w, 'a) env \<Rightarrow> MsgTx set \<Rightarrow> TxPoint list \<Rightarrow> bool" where
  "good env S pts \<longleftrightarrow> distinct (map point_id pts) \<and>
     (\<forall>p \<in> set pts. \<exists>t \<in> S. Txid p = TxHash (TxL env) t) \<and> (\<forall>t \<in> S. stored_ok env pts t)"

lemma good_Nil: "good env S []"
  by (simp add: good_def stored_ok_def points_of_tx_def)

lemma good_supply:
  assumes "good env S pts"
  shows "total_supply pts c \<le> max_int64"
proof -
  let ?h = "TxHash (TxL env)" and ?A = "Txid ` set pts"
  let ?g = "\<lambda>y. sum_list (map Value (filter (\<lambda>p. Txid p = y) (filter (\<lambda>p. BadgeCode p = c) pts)))"
  have group: "?g y \<le> (if y = c then max_int64 else 0)" if y: "y \<in> ?A" for y
  proof -
    obtain t where t: "t \<in> S" "y = ?h t" using y assms unfolding good_def by blast
    then have ok: "stored_ok env pts t" using assms by (simp add: good_def)
    have g: "?g y = sum_list (map Value (filter (\<lambda>p. BadgeCode p = c) (map strip (points_of_tx env pts t))))"
      by (simp add: points_of_tx_def t(2) filter_map comp_def conj_commute)
    from ok show ?thesis
      unfolding stored_ok_def
    proof (elim disjE exE conjE)
      fix invt k
      assume "parse_spec env pts Map.empty t 0 = Ok invt" "no_overflow pts t"
        "map strip (points_of_tx env pts t) = take k (Vins invt @ Vouts invt)"
      then show ?thesis using prefix_supply g t(2) by metis
    qed (simp only: g, simp)
  qed
  have "total_supply pts c = (\<Sum>y \<in> ?A. ?g y)"
    unfolding total_supply_def by (rule sum_list_group) auto
  also have "\<dots> \<le> (\<Sum>y \<in> ?A. if y = c then max_int64 else 0)" by (rule sum_mono) (rule group)
  also have "\<dots> \<le> max_int64" by simp
  finally show ?thesis .
qed

text \<open>A stored spending point mirrors the stored output it spends.\<close>

lemma good_vin:
  assumes "good env S pts" "q \<in> set pts" "Type q = TX_POINT_TYPE_VIN"
  shows "\<exists>t \<in> S. \<exists>i vin p. (i, vin) \<in> set (badge_ins t) \<and> spent_point pts vin = Some p \<and>
    Txid q = TxHash (TxL env) t \<and> Index q = i \<and> Value q = - Value p \<and>
    BadgeCode q = BadgeCode p \<and> Addr q = Addr p \<and> PreTxid q = Txid p \<and> PreIndex q = Index p"
proof -
  obtain t where t: "t \<in> S" "Txid q = TxHash (TxL env) t" using assms by (auto simp: good_def)
  then have q: "q \<in> set (points_of_tx env pts t)" using assms(2) by (simp add: points_of_tx_def)
  have "stored_ok env pts t" using assms(1) t(1) by (simp add: good_def)
  then obtain invt k where sp: "parse_spec env pts Map.empty t 0 = Ok invt" and no: "no_overflow pts t"
    and tk: "map strip (points_of_tx env pts t) = take k (Vins invt @ Vouts invt)"
    using q by (auto simp: stored_ok_def)
  have "strip q \<in> set (take k (Vins invt @ Vouts invt))" using q tk by (metis imageI set_map)
  then have "strip q \<in> set (Vins invt @ Vouts invt)" by (rule in_set_takeD)
  moreover have "strip q \<notin> set (Vouts invt)"
    using parse_spec_ids(3) [OF sp, of "strip q"] assms(3) by (auto simp: tx_point_consts)
  ultimately have sq: "strip q \<in> set (Vins invt)" by auto
  obtain spent where s: "list_all2 (\<lambda>(i, vin) p. spent_point pts vin = Some p) (badge_ins t) spent"
    "spent = List.map_filter (spent_point pts) (map snd (badge_ins t))"
    "Vins invt = map2 (\<lambda>(i, vin) p. vin_point (TxHash (TxL env) t) 0 i p) (badge_ins t) spent"
    by (rule parse_spec_cases [OF sp]) blast
  from sq obtain i vin p where ivp: "((i, vin), p) \<in> set (zip (badge_ins t) spent)"
    and v: "strip q = vin_point (TxHash (TxL env) t) 0 i p"
    unfolding s(3) by auto
  have m: "(i, vin) \<in> set (badge_ins t)" "p \<in> set spent"
    using set_zip_leftD [OF ivp] set_zip_rightD [OF ivp] by simp_all
  have f: "spent_point pts vin = Some p" using s(1) ivp by (auto simp: list_all2_iff)
  have "0 \<le> Value p \<and> Value p \<le> max_int64" using no m(2) s(2) by (simp add: no_overflow_def Let_def)
  then have w: "wrap64 (- Value p) = - Value p" by (simp add: wrap64_id is_int64_def)
  have "Value (strip q) = - Value p" "BadgeCode (strip q) = BadgeCode p" "Addr (strip q) = Addr p"
    "Index (strip q) = i" "PreTxid (strip q) = Txid p" "PreIndex (strip q) = Index p"
    by (simp_all only: v) (simp_all add: vin_point_def w)
  then show ?thesis using t m(1) f by auto
qed

lemma good_type_value:
  assumes "good env S pts" "q \<in> set pts"
  shows "Type q = TX_POINT_TYPE_VIN \<or> Type q = TX_POINT_TYPE_VOUT \<and> 0 \<le> Value q \<and> Value q \<le> max_int64"
proof -
  obtain t where t: "t \<in> S" "Txid q = TxHash (TxL env) t" using assms by (auto simp: good_def)
  then have q: "q \<in> set (points_of_tx env pts t)" using assms(2) by (simp add: points_of_tx_def)
  have "stored_ok env pts t" using assms(1) t(1) by (simp add: good_def)
  then obtain invt k where sp: "parse_spec env pts Map.empty t 0 = Ok invt"
    and tk: "map strip (points_of_tx env pts t) = take k (Vins invt @ Vouts invt)"
    using q by (auto simp: stored_ok_def)
  have "strip q \<in> set (take k (Vins invt @ Vouts invt))" using q tk by (metis imageI set_map)
  then have "strip q \<in> set (Vins invt) \<or> strip q \<in> set (Vouts invt)" by (auto dest: in_set_takeD)
  then show ?thesis
  proof
    assume "strip q \<in> set (Vins invt)"
    then show ?thesis using parse_spec_ids(2) [OF sp] by fastforce
  next
    assume o: "strip q \<in> set (Vouts invt)"
    show ?thesis using parse_spec_ids(3) [OF sp o] parse_spec_vout_value [OF sp o] by simp
  qed
qed


section \<open>Spent once\<close>

text \<open>
  With the rule of the chain, distinct spending points mirror distinct outputs. So for any
  group of points closed under this mirror (a badge, or a badge at an address) the
  outputs cover the spending points, with any further outputs not yet spent on top.
\<close>

lemma good_mirror:
  assumes g: "good env S pts" and nd: "no_double_spend S"
  obtains src where
    "\<And>q. q \<in> set pts \<Longrightarrow> Type q = TX_POINT_TYPE_VIN \<Longrightarrow> src q \<in> set pts \<and> Type (src q) = TX_POINT_TYPE_VOUT \<and>
       Value q = - Value (src q) \<and> BadgeCode q = BadgeCode (src q) \<and> Addr q = Addr (src q) \<and>
       PreTxid q = Txid (src q) \<and> PreIndex q = Index (src q) \<and>
       (\<exists>t \<in> S. \<exists>(i, vin) \<in> set (badge_ins t). Txid q = TxHash (TxL env) t \<and> point_id (src q) = vin_id vin)"
    "inj_on src {q \<in> set pts. Type q = TX_POINT_TYPE_VIN}"
proof -
  let ?V = "{q \<in> set pts. Type q = TX_POINT_TYPE_VIN}"
  let ?R = "\<lambda>q p. \<exists>t \<in> S. \<exists>(i, vin) \<in> set (badge_ins t). spent_point pts vin = Some p \<and>
    Txid q = TxHash (TxL env) t \<and> Index q = i \<and> Value q = - Value p \<and> BadgeCode q = BadgeCode p \<and> Addr q = Addr p \<and>
    PreTxid q = Txid p \<and> PreIndex q = Index p"
  have "\<forall>q \<in> ?V. \<exists>p. ?R q p" using good_vin [OF g] by fastforce
  then obtain src where src: "\<forall>q \<in> ?V. ?R q (src q)" by (rule bchoice [THEN exE])
  have sp: "src q \<in> set pts \<and> point_id (src q) = vin_id vin" if "spent_point pts vin = Some (src q)" for q vin
    using spent_point_SomeD [OF that] .
  have inj: "inj_on src ?V"
  proof (rule inj_onI)
    fix q q' assume q: "q \<in> ?V" "q' \<in> ?V" "src q = src q'"
    obtain t i vin where a: "t \<in> S" "(i, vin) \<in> set (badge_ins t)" "spent_point pts vin = Some (src q)"
      "Txid q = TxHash (TxL env) t" "Index q = i" using src q(1) by blast
    obtain t' i' vin' where b: "t' \<in> S" "(i', vin') \<in> set (badge_ins t')" "spent_point pts vin' = Some (src q')"
      "Txid q' = TxHash (TxL env) t'" "Index q' = i'" using src q(2) by blast
    have "vin_id vin = vin_id vin'" using sp [OF a(3)] sp [OF b(3)] q(3) by simp
    then have "t = t' \<and> i = i'" using nd a(1,2) b(1,2) unfolding no_double_spend_def by blast
    then have "point_id q = point_id q'" using a b q by (simp add: point_id_def)
    then show "q = q'" using g q by (simp add: good_def distinct_map inj_on_def)
  qed
  have "src q \<in> set pts \<and> Type (src q) = TX_POINT_TYPE_VOUT \<and>
       Value q = - Value (src q) \<and> BadgeCode q = BadgeCode (src q) \<and> Addr q = Addr (src q) \<and>
       PreTxid q = Txid (src q) \<and> PreIndex q = Index (src q) \<and>
       (\<exists>t \<in> S. \<exists>(i, vin) \<in> set (badge_ins t). Txid q = TxHash (TxL env) t \<and> point_id (src q) = vin_id vin)"
    if "q \<in> set pts" "Type q = TX_POINT_TYPE_VIN" for q
    using src sp that by (fastforce simp: point_id_def vin_id_def)
  with inj show thesis by (rule that [rotated])
qed

text \<open>A group of points sums up to its outputs less the outputs that it spends.\<close>

lemma good_split:
  assumes g: "good env S pts" and nd: "no_double_spend S"
  obtains src where
    "\<And>q. q \<in> set pts \<Longrightarrow> Type q = TX_POINT_TYPE_VIN \<Longrightarrow> src q \<in> set pts \<and> Type (src q) = TX_POINT_TYPE_VOUT \<and>
       Value q = - Value (src q) \<and> BadgeCode q = BadgeCode (src q) \<and> Addr q = Addr (src q) \<and>
       PreTxid q = Txid (src q) \<and> PreIndex q = Index (src q) \<and>
       (\<exists>t \<in> S. \<exists>(i, vin) \<in> set (badge_ins t). Txid q = TxHash (TxL env) t \<and> point_id (src q) = vin_id vin)"
    "\<And>P. sum_list (map Value (filter (\<lambda>p. P (Addr p) (BadgeCode p)) pts)) =
       (\<Sum>q \<in> {q \<in> set pts. P (Addr q) (BadgeCode q) \<and> Type q = TX_POINT_TYPE_VOUT}. Value q) -
       (\<Sum>p \<in> src ` {q \<in> set pts. P (Addr q) (BadgeCode q) \<and> Type q = TX_POINT_TYPE_VIN}. Value p)"
proof -
  obtain src where m: "\<And>q. q \<in> set pts \<Longrightarrow> Type q = TX_POINT_TYPE_VIN \<Longrightarrow> src q \<in> set pts \<and>
       Type (src q) = TX_POINT_TYPE_VOUT \<and>
       Value q = - Value (src q) \<and> BadgeCode q = BadgeCode (src q) \<and> Addr q = Addr (src q) \<and>
       PreTxid q = Txid (src q) \<and> PreIndex q = Index (src q) \<and>
       (\<exists>t \<in> S. \<exists>(i, vin) \<in> set (badge_ins t). Txid q = TxHash (TxL env) t \<and> point_id (src q) = vin_id vin)"
    and inj: "inj_on src {q \<in> set pts. Type q = TX_POINT_TYPE_VIN}"
    by (rule good_mirror [OF g nd]) blast
  have "distinct pts" using g by (simp add: good_def distinct_map)
  have "sum_list (map Value (filter (\<lambda>p. P (Addr p) (BadgeCode p)) pts)) =
       (\<Sum>q \<in> {q \<in> set pts. P (Addr q) (BadgeCode q) \<and> Type q = TX_POINT_TYPE_VOUT}. Value q) -
       (\<Sum>p \<in> src ` {q \<in> set pts. P (Addr q) (BadgeCode q) \<and> Type q = TX_POINT_TYPE_VIN}. Value p)" for P
  proof -
    let ?I = "{q \<in> set pts. P (Addr q) (BadgeCode q) \<and> Type q = TX_POINT_TYPE_VIN}"
      and ?O = "{q \<in> set pts. P (Addr q) (BadgeCode q) \<and> Type q = TX_POINT_TYPE_VOUT}"
    have "{q \<in> set pts. P (Addr q) (BadgeCode q)} = ?I \<union> ?O" using good_type_value [OF g] by blast
    then have "sum_list (map Value (filter (\<lambda>p. P (Addr p) (BadgeCode p)) pts)) = (\<Sum>q \<in> ?I \<union> ?O. Value q)"
      using \<open>distinct pts\<close> by (simp add: sum_list_distinct_conv_sum_set)
    also have "\<dots> = (\<Sum>q \<in> ?O. Value q) + (\<Sum>q \<in> ?I. Value q)"
      by (subst sum.union_disjoint) (auto simp: tx_point_consts)
    also have "(\<Sum>q \<in> ?I. Value q) = (\<Sum>q \<in> ?I. - Value (src q))" using m by (intro sum.cong) auto
    also have "\<dots> = - (\<Sum>p \<in> src ` ?I. Value p)"
      using inj_on_subset [OF inj, of ?I] by (simp add: sum_negf sum.reindex Collect_mono_iff)
    finally show ?thesis by simp
  qed
  with m show thesis by (rule that) 
qed

lemma good_cover:
  assumes g: "good env S pts" and nd: "no_double_spend S"
    and U: "set us \<subseteq> set pts" "distinct us" "\<forall>p \<in> set us. Type p = TX_POINT_TYPE_VOUT \<and> P (Addr p) (BadgeCode p)"
    and new: "\<And>t i vin p. t \<in> S \<Longrightarrow> points_of_tx env pts t \<noteq> [] \<Longrightarrow> (i, vin) \<in> set (badge_ins t) \<Longrightarrow>
      p \<in> set us \<Longrightarrow> point_id p \<noteq> vin_id vin"
  shows "sum_list (map Value us) \<le> sum_list (map Value (filter (\<lambda>p. P (Addr p) (BadgeCode p)) pts))"
proof -
  let ?I = "{q \<in> set pts. P (Addr q) (BadgeCode q) \<and> Type q = TX_POINT_TYPE_VIN}"
    and ?O = "{q \<in> set pts. P (Addr q) (BadgeCode q) \<and> Type q = TX_POINT_TYPE_VOUT}"
  obtain src where m: "\<And>q. q \<in> set pts \<Longrightarrow> Type q = TX_POINT_TYPE_VIN \<Longrightarrow> src q \<in> set pts \<and>
       Type (src q) = TX_POINT_TYPE_VOUT \<and>
       Value q = - Value (src q) \<and> BadgeCode q = BadgeCode (src q) \<and> Addr q = Addr (src q) \<and>
       PreTxid q = Txid (src q) \<and> PreIndex q = Index (src q) \<and>
       (\<exists>t \<in> S. \<exists>(i, vin) \<in> set (badge_ins t). Txid q = TxHash (TxL env) t \<and> point_id (src q) = vin_id vin)"
    and total: "sum_list (map Value (filter (\<lambda>p. P (Addr p) (BadgeCode p)) pts)) =
      (\<Sum>q \<in> ?O. Value q) - (\<Sum>p \<in> src ` ?I. Value p)"
    by (rule good_split [OF g nd]) blast
  have disj: "src ` ?I \<inter> set us = {}"
  proof (rule ccontr)
    assume "src ` ?I \<inter> set us \<noteq> {}"
    then obtain q where q: "q \<in> set pts" "Type q = TX_POINT_TYPE_VIN" "src q \<in> set us" by blast
    then obtain t i vin where t: "t \<in> S" "(i, vin) \<in> set (badge_ins t)" "Txid q = TxHash (TxL env) t"
      "point_id (src q) = vin_id vin" using m by blast
    then have "q \<in> set (points_of_tx env pts t)" using q(1) by (simp add: points_of_tx_def)
    then have "points_of_tx env pts t \<noteq> []" by auto
    then show False using new [OF t(1) _ t(2) q(3)] t(4) by simp
  qed
  have "(\<Sum>p \<in> src ` ?I. Value p) + (\<Sum>p \<in> set us. Value p) = (\<Sum>p \<in> src ` ?I \<union> set us. Value p)"
    using disj by (subst sum.union_disjoint) auto
  also have "\<dots> \<le> (\<Sum>q \<in> ?O. Value q)"
  proof (rule sum_mono2)
    show "src ` ?I \<union> set us \<subseteq> ?O" using m U by fastforce
    show "0 \<le> Value b" if "b \<in> ?O - (src ` ?I \<union> set us)" for b
      using that good_type_value [OF g, of b] by (auto simp: tx_point_consts)
  qed simp
  finally show ?thesis using total U(2) by (simp add: sum_list_distinct_conv_sum_set)
qed

lemma spent_ids:
  "map point_id (List.map_filter (spent_point pts) vs) =
     filter (\<lambda>x. x \<in> point_id ` set pts) (map vin_id vs)"
proof (induction vs)
  case (Cons v vs)
  show ?case
  proof (cases "spent_point pts v")
    case None
    then show ?thesis using Cons spent_point_None [of pts v] by simp
  next
    case (Some p)
    then show ?thesis using Cons spent_point_SomeD [OF Some] by force
  qed
qed simp

text \<open>Hence the sums of the parser are exact for every transaction of the history.\<close>

lemma good_no_overflow:
  assumes g: "good env S pts" and nd: "no_double_spend S" and inj: "inj_on (TxHash (TxL env)) S" and t: "t \<in> S"
  shows "no_overflow pts t"
proof (cases "points_of_tx env pts t = []")
  case False
  then show ?thesis using g t by (auto simp: good_def stored_ok_def)
next
  case True
  let ?us = "List.map_filter (spent_point pts) (map snd (badge_ins t))"
  have mem: "p \<in> set pts \<and> (\<exists>(i, vin) \<in> set (badge_ins t). point_id p = vin_id vin)" if "p \<in> set ?us" for p
    using that spent_point_SomeD by (fastforce simp: List.map_filter_def)
  then have ty: "Type p = TX_POINT_TYPE_VOUT" if "p \<in> set ?us" for p
    using that by (fastforce simp: point_id_def vin_id_def)
  have "inj_on (vin_id \<circ> snd) (set (badge_ins t))"
  proof (rule inj_onI)
    fix x y assume xy: "x \<in> set (badge_ins t)" "y \<in> set (badge_ins t)" "(vin_id \<circ> snd) x = (vin_id \<circ> snd) y"
    obtain i v i' v' where e: "x = (i, v)" "y = (i', v')" by fastforce
    have "t = t \<and> i = i'"
      using nd t xy unfolding no_double_spend_def e by (fastforce simp del: simp_thms)
    then have "fst x = fst y" using e by simp
    moreover have "inj_on fst (set (badge_ins t))" using distinct_badge_ins [of t] by (simp add: distinct_map)
    ultimately show "x = y" using xy(1,2) by (meson inj_onD)
  qed
  moreover have "distinct (badge_ins t)" using distinct_badge_ins [of t] by (simp add: distinct_map)
  ultimately have "distinct (map vin_id (map snd (badge_ins t)))" by (simp add: distinct_map)
  then have "distinct (map point_id ?us)" unfolding spent_ids by simp
  then have dist: "distinct ?us" by (simp add: distinct_map)
  have "sum_list (map Value ?us) \<le> max_int64" if sc: "single_code ?us"
  proof (cases ?us)
    case (Cons p0 ps)
    let ?c = "BadgeCode p0"
    have p0: "p0 \<in> set ?us" unfolding Cons by simp
    have "sum_list (map Value ?us) \<le> sum_list (map Value (filter (\<lambda>p. (\<lambda>a c. c = ?c) (Addr p) (BadgeCode p)) pts))"
    proof (rule good_cover [OF g nd _ dist])
      show "set ?us \<subseteq> set pts" using mem by blast
      show "\<forall>p \<in> set ?us. Type p = TX_POINT_TYPE_VOUT \<and> (\<lambda>a c. c = ?c) (Addr p) (BadgeCode p)"
        using ty sc p0 unfolding single_code_def by blast
      fix u i vin p
      assume u: "u \<in> S" "points_of_tx env pts u \<noteq> []" "(i, vin) \<in> set (badge_ins u)" "p \<in> set ?us"
      show "point_id p \<noteq> vin_id vin"
      proof
        assume "point_id p = vin_id vin"
        with mem [OF u(4)] obtain j vin' where "(j, vin') \<in> set (badge_ins t)" "vin_id vin' = vin_id vin" by auto
        then have "t = u" using nd t u(1,3) unfolding no_double_spend_def by blast
        then show False using True u(2) by simp
      qed
    qed
    also have "\<dots> = total_supply pts ?c" by (simp add: total_supply_def)
    also have "\<dots> \<le> max_int64" by (rule good_supply [OF g])
    finally show ?thesis .
  qed simp
  moreover have "0 \<le> Value p \<and> Value p \<le> max_int64" if "p \<in> set ?us" for p
    using mem [OF that] ty [OF that] good_type_value [OF g, of p] by (simp add: tx_point_consts)
  ultimately show ?thesis by (simp add: no_overflow_def Let_def)
qed


section \<open>Every step keeps the invariant\<close>

lemma add_new_filter:
  assumes "\<forall>p \<in> set ps. Txid p = x"
  shows "filter (\<lambda>p. Txid p = y) (add_new pts ps) =
    (if y = x then add_new (filter (\<lambda>p. Txid p = y) pts) ps else filter (\<lambda>p. Txid p = y) pts)"
  using assms
proof (induction pts ps rule: add_new.induct)
  case (2 pts p ps)
  have "point_id p \<in> point_id ` set pts \<longleftrightarrow> point_id p \<in> point_id ` set (filter (\<lambda>q. Txid q = Txid p) pts)"
    by (fastforce simp: point_id_def image_iff)
  then show ?case using 2 by auto
qed simp

lemma add_new_fresh:
  assumes "distinct (map point_id ps)" "point_id ` set ps \<inter> point_id ` set pts = {}"
  shows "add_new pts ps = pts @ ps"
  using assms by (induction pts ps rule: add_new.induct) auto

lemma add_new_prefix:
  assumes "distinct (map point_id L)" "map point_id f = map point_id (take j L)"
  shows "add_new f (take k L) = f @ drop j (take k L)"
proof -
  let ?a = "take j (take k L)" and ?b = "drop j (take k L)"
  have ids: "point_id ` set f = point_id ` set (take j L)" using assms(2) by (metis set_map)
  have "set ?a \<subseteq> set (take j L)" by (metis min.commute set_take_subset_set_take take_take min.cobounded1)
  then have "add_new f ?a = f" using ids by (intro add_new_present) auto
  moreover have "point_id ` set ?b \<inter> point_id ` set f = {}"
  proof -
    have "distinct (map point_id (take j L @ drop j L))" using assms(1) by simp
    then have "point_id ` set (take j L) \<inter> point_id ` set (drop j L) = {}" by (simp only: map_append distinct_append set_map)
    moreover have "set ?b \<subseteq> set (drop j L)" by (metis drop_take set_take_subset)
    ultimately show ?thesis unfolding ids by blast
  qed
  then have "add_new f ?b = f @ ?b"
    using assms(1) by (intro add_new_fresh) (simp_all flip: drop_map take_map)
  ultimately show ?thesis by (metis add_new_append append_take_drop_id)
qed

lemma take_max: "take j xs @ drop j (take k xs) = take (max j k) xs"
proof (cases "j \<le> k")
  case True
  then have "take j xs = take j (take k xs)" by (simp add: min_def)
  then show ?thesis using True by (simp only: append_take_drop_id max_absorb2)
qed (simp add: max_def)

lemma add_new_distinct:
  "distinct (map point_id pts) \<Longrightarrow> distinct (map point_id (add_new pts ps))"
  by (induction pts ps rule: add_new.induct) auto

lemma stored_ok_grow:
  assumes "stored_ok env pts u" "points_of_tx env (pts @ qs) u = points_of_tx env pts u"
  shows "stored_ok env (pts @ qs) u"
proof (cases "points_of_tx env pts u = []")
  case False
  then obtain invt k where i: "parse_spec env pts Map.empty u 0 = Ok invt" "no_overflow pts u"
    "map strip (points_of_tx env pts u) = take k (Vins invt @ Vouts invt)"
    using assms(1) by (auto simp: stored_ok_def)
  have "parse_spec env (pts @ qs) Map.empty u 0 = Ok invt" using i(1) by (rule parse_spec_append)
  moreover have "no_overflow (pts @ qs) u" using i(1,2) by (rule no_overflow_append)
  ultimately show ?thesis using i(3) assms(2) unfolding stored_ok_def by metis
qed (use assms(2) in \<open>simp add: stored_ok_def\<close>)

lemma good_step:
  assumes g: "good env S pts" and inj: "inj_on (TxHash (TxL env)) S" and t: "t \<in> S"
    and no: "no_overflow pts t" and sp: "parse_spec env pts st t ts = Ok invt"
  shows "good env S (add_new pts (take k (Vins invt @ Vouts invt)))"
proof -
  let ?h = "TxHash (TxL env)" and ?L = "Vins invt @ Vouts invt"
  let ?new = "add_new pts (take k ?L)"
  obtain qs where qs: "?new = pts @ qs" "set qs \<subseteq> set (take k ?L)" using add_new_extends by blast
  have tx: "\<forall>p \<in> set (take k ?L). Txid p = ?h t"
    using parse_spec_ids(2,3) [OF sp] by (auto dest!: in_set_takeD)
  obtain i0 where i0: "parse_spec env pts Map.empty t 0 = Ok i0" "map strip ?L = Vins i0 @ Vouts i0"
    using parse_spec_strip [OF sp, of Map.empty] by auto
  have of_tx: "points_of_tx env ?new u = (if ?h u = ?h t then add_new (points_of_tx env pts u) (take k ?L)
      else points_of_tx env pts u)" for u
    unfolding points_of_tx_def using add_new_filter [OF tx] by auto
  have "stored_ok env ?new t"
  proof -
    obtain j where j: "map strip (points_of_tx env pts t) = take j (Vins i0 @ Vouts i0)"
      using g t i0(1) by (fastforce simp: good_def stored_ok_def intro: that [of 0])
    then have s: "map strip (points_of_tx env pts t) = map strip (take j ?L)" using i0(2) by (metis take_map)
    have "map (point_id \<circ> strip) (points_of_tx env pts t) = map (point_id \<circ> strip) (take j ?L)"
      using s by (metis list.map_comp)
    then have "map point_id (points_of_tx env pts t) = map point_id (take j ?L)" by (simp add: comp_def)
    from add_new_prefix [OF parse_spec_ids(1) [OF sp] this]
    have "points_of_tx env ?new t = points_of_tx env pts t @ drop j (take k ?L)" using of_tx by simp
    then have "map strip (points_of_tx env ?new t) = map strip (take j ?L @ drop j (take k ?L))" using s by simp
    also have "take j ?L @ drop j (take k ?L) = take (max j k) ?L"
      by (rule take_max)
    also have "map strip (take (max j k) ?L) = take (max j k) (Vins i0 @ Vouts i0)" using i0(2) by (metis take_map)
    finally show ?thesis
      using parse_spec_append [OF i0(1)] no_overflow_append [OF i0(1) no] qs(1) unfolding stored_ok_def by metis
  qed
  moreover have "stored_ok env ?new u" if "u \<in> S" "u \<noteq> t" for u
  proof -
    have "?h u \<noteq> ?h t" using inj that t by (auto dest: inj_onD)
    then show ?thesis using g that(1) of_tx [of u] qs(1) by (auto simp: good_def intro: stored_ok_grow)
  qed
  moreover have "\<forall>p \<in> set ?new. \<exists>u \<in> S. Txid p = ?h u" using g qs tx t by (auto simp: good_def)
  moreover have "distinct (map point_id ?new)" using g by (simp add: good_def add_new_distinct)
  ultimately show ?thesis using g unfolding good_def by metis
qed

context ledger
begin

lemma good_ProcessMsgTx:
  assumes "Db env = drv" "wf w" and lib: "addr_lib_ok (AddrL env)"
    and g: "good env S (points w)" and nd: "no_double_spend S" and inj: "inj_on (TxHash (TxL env)) S"
    and t: "t \<in> S" and run: "ProcessMsgTx env t ts w = (r, w')"
  shows "wf w' \<and> good env S (points w')"
proof -
  obtain q w1 where q: "ParseAndAddTxPoints env t ts w = (q, w1)" by fastforce
  have no: "no_overflow (points w) t" by (rule good_no_overflow [OF g nd inj t])
  note p = ParseAndAddTxPoints_res [OF assms(1,2) lib no q]
  have "good env S (points w1)"
  proof (cases "parse_spec env (points w) (txstate w) t ts")
    case (Ok invt)
    then show ?thesis using p good_step [OF g inj t no Ok] by auto
  qed (use p g in auto)
  moreover have "wf w' \<and> points w' = points w1"
    using run q p set_state [of w1] unfolding ProcessMsgTx_def assms(1) andThen_def
    by (cases q) (auto simp: ret_def fail_def elim!: attempt_eqE split: if_splits)
  ultimately show ?thesis by simp
qed

lemma good_run_all:
  assumes "Db env = drv" and lib: "addr_lib_ok (AddrL env)"
    and nd: "no_double_spend S" and inj: "inj_on (TxHash (TxL env)) S"
  shows "fst ` set l \<subseteq> S \<Longrightarrow> wf w \<Longrightarrow> good env S (points w) \<Longrightarrow>
    wf (run_all env l w) \<and> good env S (points (run_all env l w))"
proof (induction l arbitrary: w)
  case (Cons tl l)
  obtain t ts where tl: "tl = (t, ts)" by fastforce
  obtain r w' where run: "ProcessMsgTx env t ts w = (r, w')" by fastforce
  have "t \<in> S" using Cons.prems(1) tl by auto
  from good_ProcessMsgTx [OF assms(1) Cons.prems(2) lib Cons.prems(3) nd inj this run]
  show ?case using Cons.IH [of w'] Cons.prems(1) run tl by auto
qed simp

end

context ledger
begin

lemma ProcessMsgTx_points:
  assumes "Db env = drv" "wf w" and lib: "addr_lib_ok (AddrL env)" and no: "no_overflow (points w) t"
    and run: "ProcessMsgTx env t ts w = (r, w')"
  shows "case parse_spec env (points w) (txstate w) t ts of
      Ok invt \<Rightarrow> (\<exists>k. points w' = add_new (points w) (take k (Vins invt @ Vouts invt))) \<and>
        (\<forall>i. r = Ok i \<longrightarrow> points w' = add_new (points w) (Vins invt @ Vouts invt))
    | _ \<Rightarrow> points w' = points w \<and> (\<forall>i. r \<noteq> Ok i)"
proof -
  obtain q w1 where q: "ParseAndAddTxPoints env t ts w = (q, w1)" by fastforce
  note p = ParseAndAddTxPoints_res [OF assms(1,2) lib no q]
  have "points w' = points w1 \<and> (\<forall>i. r = Ok i \<longrightarrow> q = Ok i)"
    using run q p set_state [of w1] unfolding ProcessMsgTx_def assms(1) andThen_def
    by (cases q) (auto simp: ret_def fail_def elim!: attempt_eqE split: if_splits)
  then show ?thesis using p by (auto split: res.splits)
qed

end

text \<open>Balances are amounts.\<close>

lemma good_balance:
  assumes g: "good env S pts" and nd: "no_double_spend S"
  shows "0 \<le> balance pts a c \<and> balance pts a c \<le> total_supply pts c"
proof -
  have pos: "0 \<le> balance pts b c" for b
    using good_cover [OF g nd, of "[]" "\<lambda>a c'. a = b \<and> c' = c"] by (simp add: balance_def)
  let ?A = "insert a (Addr ` set pts)"
  have "total_supply pts c = (\<Sum>b \<in> ?A. balance pts b c)"
    unfolding total_supply_def balance_def
    by (subst sum_list_group [of Addr _ ?A]) (auto simp: conj_commute)
  moreover have "balance pts a c \<le> (\<Sum>b \<in> ?A. balance pts b c)"
    by (rule member_le_sum) (auto simp: pos)
  ultimately show ?thesis using pos by simp
qed


section \<open>Properties\<close>

text \<open>
  No inflation and no negative balance. Start with no points and process any sequence
  of transactions, in any order and with repetitions, on a database that may fail at any
  call. If no output is spent by two inputs of the history and distinct transactions have
  distinct hashes, then for every badge the points of each address sum up to an amount
  between zero and the supply, and the supply never exceeds what an issuance may create.
\<close>

theorem ProcessMsgTx_supply:
  assumes "mongo (Db env) docs uniq" and "wf_db (docs w) (uniq w)" and "addr_lib_ok (AddrL env)"
    and "points_of (docs w) = []"
    and "no_double_spend (fst ` set l)" and "inj_on (TxHash (TxL env)) (fst ` set l)"
  shows "0 \<le> balance (points_of (docs (run_all env l w))) a c \<and>
    balance (points_of (docs (run_all env l w))) a c \<le> total_supply (points_of (docs (run_all env l w))) c \<and>
    total_supply (points_of (docs (run_all env l w))) c \<le> MAX_CREATE_BADGE_VALUE"
proof -
  note l = mongo.is_ledger [OF assms(1)]
  have "good env (fst ` set l) (points_of (docs w))" using assms(4) by (simp add: good_Nil)
  from ledger.good_run_all [OF l refl assms(3,5,6) subset_refl assms(2) this]
  have "good env (fst ` set l) (points_of (docs (run_all env l w)))" by simp
  then show ?thesis
    unfolding MAX_CREATE_BADGE_VALUE_def using good_balance [OF _ assms(5)] good_supply by blast
qed

definition demo_issue :: "int \<Rightarrow> int \<Rightarrow> MsgTx" where
  "demo_issue n v =
     \<lparr>Version = 2, TxIns = [],
      TxOuts = [\<lparr>OutValue = 888, PkScript = badge_script (replicate 20 7) v\<rparr>], LockTime = n\<rparr>"

definition demo_fresh :: mem where
  "demo_fresh = mem_ledger [] [demo_info 1 TX_STATE_NEW, demo_info 2 TX_STATE_NEW]"

theorem ProcessMsgTx_supply_witness:
  "0 \<le> balance (points_of (mem_docs (run_all demo_env [(demo_spend 2 1 60, 3), (demo_issue 1 100, 5),
       (demo_spend 2 1 60, 7)] demo_fresh))) ''a'' (demo_txid 1)"
proof -
  let ?l = "[(demo_spend 2 1 60, 3), (demo_issue 1 100, 5), (demo_spend 2 1 60, 7 :: int)]"
  have wf: "wf_db (mem_docs demo_fresh) (\<lambda>c. set (mem_uniq demo_fresh c))"
    unfolding demo_fresh_def by (rule wf_mem_ledger) (simp_all add: demo_info_def demo_txid_eq)
  have "points_of (mem_docs demo_fresh) = []" by (simp add: demo_fresh_def)
  moreover have "badge_ins (demo_issue 1 100) = []" by (simp add: badge_ins_def demo_issue_def indexed_def)
  then have "no_double_spend (fst ` set ?l)" by (auto simp: no_double_spend_def)
  moreover have "inj_on (TxHash (TxL demo_env)) (fst ` set ?l)"
    by (simp add: inj_on_def demo_issue_def demo_txid_eq)
  ultimately show ?thesis using ProcessMsgTx_supply [OF demo_mongo wf demo_addr, of ?l] by blast
qed

end
