(* ===== verification/Addr_Info_Repo.thy ===== *)
theory Addr_Info_Repo
  imports Ledger_Store
begin

text \<open>
  \<open>src/models/addr_info.go\<close>: which user of which application an address belongs to, and the
  aggregation that collects the points of all addresses of a user.
\<close>

section \<open>The code\<close>

abbreviation TBL_ADDR_INFO :: string where "TBL_ADDR_INFO \<equiv> ''addr_info''"

record AddrInfo =
  Info_Appid :: string
  Info_UserID :: int
  Info_UserIndex :: int
  Info_Addr :: string
  Info_AddrTimestamp :: int

definition doc_of_AddrInfo :: "AddrInfo \<Rightarrow> doc" where
  "doc_of_AddrInfo a =
     [APPID \<mapsto> BStr (Info_Appid a), USERID \<mapsto> BInt (Info_UserID a), USER_INDEX \<mapsto> BInt (Info_UserIndex a),
      ADDR \<mapsto> BStr (Info_Addr a), TIMESTAMP \<mapsto> BInt (Info_AddrTimestamp a)]"

definition AddrInfo_of_doc :: "doc \<Rightarrow> AddrInfo" where
  "AddrInfo_of_doc d =
     \<lparr>Info_Appid = get_str d APPID, Info_UserID = get_int d USERID, Info_UserIndex = get_int d USER_INDEX,
      Info_Addr = get_str d ADDR, Info_AddrTimestamp = get_int d TIMESTAMP\<rparr>"

lemma AddrInfo_of_doc_of_AddrInfo [simp]: "AddrInfo_of_doc (doc_of_AddrInfo a) = a"
  by (simp add: AddrInfo_of_doc_def doc_of_AddrInfo_def get_int_def get_str_def)

definition AddrInfo_CreateIndex :: "'w mgo \<Rightarrow> ('w, unit) io" where
  "AddrInfo_CreateIndex drv =
     CreateIndex drv TBL_ADDR_INFO [([ADDR], True), ([APPID, USERID, USER_INDEX], False)]"

definition AddOrUpdateAddrInfo :: "'w mgo \<Rightarrow> AddrInfo \<Rightarrow> ('w, unit) io" where
  "AddOrUpdateAddrInfo drv addrInfo =
     attempt (Insert drv TBL_ADDR_INFO (doc_of_AddrInfo addrInfo))
       (\<lambda>err. if \<not> is_duplicate err then fail err
          else UpdateAll drv TBL_ADDR_INFO [QEq ADDR (BStr (Info_Addr addrInfo))]
            [(APPID, BStr (Info_Appid addrInfo)), (USERID, BInt (Info_UserID addrInfo)),
             (USER_INDEX, BInt (Info_UserIndex addrInfo)), (TIMESTAMP, BInt (Info_AddrTimestamp addrInfo))])
       (\<lambda>_. ret ())"

definition GetAddrInfo :: "'w mgo \<Rightarrow> string \<Rightarrow> ('w, AddrInfo) io" where
  "GetAddrInfo drv addr =
     andThen (GetOne drv TBL_ADDR_INFO [QEq ADDR (BStr addr)]) (\<lambda>d. ret (AddrInfo_of_doc d))"

definition user_points_pipe :: "string \<Rightarrow> int \<Rightarrow> int \<Rightarrow> string \<Rightarrow> int \<Rightarrow> stage list" where
  "user_points_pipe appid userid userIndex badgeCode state =
     [SMatch [QEq APPID (BStr appid), QEq USERID (BInt userid), QEq USER_INDEX (BInt userIndex)],
      SLookupUnwind TBL_TX_POINT ADDR ADDR ''tx_point'',
      SMatch (QEq ''tx_point.badge_code'' (BStr badgeCode) #
        (if state \<noteq> TX_POINT_STATE_ALL then [QEq ''tx_point.state'' (BInt state)] else [])),
      SProject [(ADDR, ''tx_point.addr''), (TXID, ''tx_point.txid''), (INDEX, ''tx_point.index''),
        (TYPE_FIELD, ''tx_point.type''), (VALUE, ''tx_point.value''), (PRETXID, ''tx_point.pretxid''),
        (PREINDEX, ''tx_point.preindex''), (BADGE_CODE, ''tx_point.badge_code''),
        (TIMESTAMP, ''tx_point.timestamp''), (STATE, ''tx_point.state'')]]"

definition GetUserTxPoints ::
  "'w mgo \<Rightarrow> string \<Rightarrow> int \<Rightarrow> int \<Rightarrow> string \<Rightarrow> int \<Rightarrow> ('w, TxPoint list) io" where
  "GetUserTxPoints drv appid userid userIndex badgeCode state =
     andThen (AggregateAll drv TBL_ADDR_INFO (user_points_pipe appid userid userIndex badgeCode state))
       (\<lambda>ds. ret (map TxPoint_of_doc ds))"


section \<open>Addresses of users\<close>

definition addrs_of :: "(string \<Rightarrow> doc list) \<Rightarrow> AddrInfo list" where
  "addrs_of db = map AddrInfo_of_doc (db TBL_ADDR_INFO)"

text \<open>The collection holds encodings of structs and its unique index exists and holds.\<close>

definition wf_addrs :: "(string \<Rightarrow> doc list) \<Rightarrow> (string \<Rightarrow> string list set) \<Rightarrow> bool" where
  "wf_addrs db un \<longleftrightarrow>
     (\<forall>d \<in> set (db TBL_ADDR_INFO). d = doc_of_AddrInfo (AddrInfo_of_doc d)) \<and>
     un TBL_ADDR_INFO = {[ADDR]} \<and> distinct (map Info_Addr (addrs_of db))"

definition owns :: "string \<Rightarrow> int \<Rightarrow> int \<Rightarrow> AddrInfo \<Rightarrow> bool" where
  "owns appid userid userIndex a \<longleftrightarrow>
     Info_Appid a = appid \<and> Info_UserID a = userid \<and> Info_UserIndex a = userIndex"

definition point_matches :: "string \<Rightarrow> int \<Rightarrow> TxPoint \<Rightarrow> bool" where
  "point_matches badgeCode state p \<longleftrightarrow>
     BadgeCode p = badgeCode \<and> (state = TX_POINT_STATE_ALL \<or> State p = state)"

lemma nest_tx_point [simp]:
  "nest ''tx_point'' d (''tx_point.'' @ f) = d f"
  by (simp add: nest_def has_prefix_def)

lemma matches_owner:
  "matches [QEq APPID (BStr appid), QEq USERID (BInt userid), QEq USER_INDEX (BInt ui)] (doc_of_AddrInfo a)
     \<longleftrightarrow> owns appid userid ui a"
  by (auto simp: matches_def doc_of_AddrInfo_def owns_def)

definition joined :: "AddrInfo \<Rightarrow> TxPoint \<Rightarrow> doc" where
  "joined a p = doc_of_AddrInfo a ++ nest ''tx_point'' (doc_of_TxPoint p)"

lemma joined_fields [simp]: "joined a p (''tx_point.'' @ f) = doc_of_TxPoint p f"
  by (simp add: joined_def map_add_def doc_of_AddrInfo_def nest_def has_prefix_def split: option.splits)

lemma matches_joined:
  "matches (QEq ''tx_point.badge_code'' (BStr code) #
     (if state \<noteq> TX_POINT_STATE_ALL then [QEq ''tx_point.state'' (BInt state)] else [])) (joined a p)
   \<longleftrightarrow> point_matches code state p"
  using joined_fields [of a p BADGE_CODE] joined_fields [of a p STATE]
  by (auto simp: matches_def point_matches_def doc_of_TxPoint_def)

lemma project_joined:
  "(\<lambda>f. case map_of [(ADDR, ''tx_point.addr''), (TXID, ''tx_point.txid''), (INDEX, ''tx_point.index''),
        (TYPE_FIELD, ''tx_point.type''), (VALUE, ''tx_point.value''), (PRETXID, ''tx_point.pretxid''),
        (PREINDEX, ''tx_point.preindex''), (BADGE_CODE, ''tx_point.badge_code''),
        (TIMESTAMP, ''tx_point.timestamp''), (STATE, ''tx_point.state'')] f of
      Some src \<Rightarrow> joined a p src | None \<Rightarrow> None) = doc_of_TxPoint p"
proof
  fix f
  note j = joined_fields [of a p ADDR] joined_fields [of a p TXID] joined_fields [of a p INDEX]
    joined_fields [of a p TYPE_FIELD] joined_fields [of a p VALUE] joined_fields [of a p PRETXID]
    joined_fields [of a p PREINDEX] joined_fields [of a p BADGE_CODE] joined_fields [of a p TIMESTAMP]
    joined_fields [of a p STATE]
  show "(case map_of [(ADDR, ''tx_point.addr''), (TXID, ''tx_point.txid''), (INDEX, ''tx_point.index''),
        (TYPE_FIELD, ''tx_point.type''), (VALUE, ''tx_point.value''), (PRETXID, ''tx_point.pretxid''),
        (PREINDEX, ''tx_point.preindex''), (BADGE_CODE, ''tx_point.badge_code''),
        (TIMESTAMP, ''tx_point.timestamp''), (STATE, ''tx_point.state'')] f of
      Some src \<Rightarrow> joined a p src | None \<Rightarrow> None) = doc_of_TxPoint p f"
    using j by (simp add: doc_of_TxPoint_def)
qed

lemma filter_concat_map: "filter P (concat (map f xs)) = concat (map (\<lambda>x. filter P (f x)) xs)"
  by (induction xs) auto

lemma run_user_points_pipe:
  assumes as: "db TBL_ADDR_INFO = map doc_of_AddrInfo as" and ps: "db TBL_TX_POINT = map doc_of_TxPoint pts"
  shows "run_pipe db (user_points_pipe appid userid ui code state) (db TBL_ADDR_INFO) =
    map doc_of_TxPoint (concat (map (\<lambda>a. filter (\<lambda>p. Addr p = Info_Addr a \<and> point_matches code state p) pts)
      (filter (owns appid userid ui) as)))"
proof -
  have own: "filter (matches [QEq APPID (BStr appid), QEq USERID (BInt userid), QEq USER_INDEX (BInt ui)])
      (map doc_of_AddrInfo xs) = map doc_of_AddrInfo (filter (owns appid userid ui) xs)" for xs
    by (simp add: filter_map comp_def matches_owner)
  have look: "map (\<lambda>f. doc_of_AddrInfo a ++ nest ''tx_point'' f)
      (filter (\<lambda>f. f ADDR = doc_of_AddrInfo a ADDR) (map doc_of_TxPoint pts)) =
      map (joined a) (filter (\<lambda>p. Addr p = Info_Addr a) pts)" for a
  proof -
    have "doc_of_TxPoint p ADDR = doc_of_AddrInfo a ADDR \<longleftrightarrow> Addr p = Info_Addr a" for p
      by (simp add: doc_of_TxPoint_def doc_of_AddrInfo_def)
    moreover have "joined a = (\<lambda>p. doc_of_AddrInfo a ++ nest ''tx_point'' (doc_of_TxPoint p))"
      by (simp add: joined_def fun_eq_iff)
    ultimately show ?thesis by (simp only: filter_map comp_def map_map)
  qed
  have sel: "filter (matches (QEq ''tx_point.badge_code'' (BStr code) #
       (if state \<noteq> TX_POINT_STATE_ALL then [QEq ''tx_point.state'' (BInt state)] else []))) (map (joined a) xs)
     = map (joined a) (filter (point_matches code state) xs)" for a xs
    by (simp only: filter_map comp_def matches_joined)
  show ?thesis
    unfolding run_pipe_def user_points_pipe_def fold_Cons fold_Nil comp_apply id_apply run_stage.simps as ps own
    by (simp only: map_map comp_def look filter_concat_map sel map_concat filter_filter project_joined conj_commute)
qed

lemma mset_concat_filters:
  "distinct (map f as) \<Longrightarrow>
     mset (concat (map (\<lambda>a. filter (\<lambda>p. g p = f a \<and> Q p) pts) as)) =
     mset (filter (\<lambda>p. g p \<in> f ` set as \<and> Q p) pts)"
proof (induction as)
  case (Cons a as)
  then have "f a \<notin> f ` set as" by simp
  then have "mset (filter (\<lambda>p. g p \<in> f ` set (a # as) \<and> Q p) pts) =
      mset (filter (\<lambda>p. g p = f a \<and> Q p) pts) + mset (filter (\<lambda>p. g p \<in> f ` set as \<and> Q p) pts)"
    by (induction pts) auto
  then show ?case using Cons by simp
qed simp

lemma filter_replaced:
  assumes "distinct (map f bs)" "k \<in> f ` set bs" "f a = k"
  shows "filter (\<lambda>b. f b = k) (map (\<lambda>b. if f b = k then a else b) bs) = [a]"
  using assms(1,2)
proof (induction bs)
  case (Cons b bs)
  show ?case
  proof (cases "f b = k")
    case True
    then have "k \<notin> f ` set bs" using Cons.prems(1) by auto
    then have "filter (\<lambda>b. f b = k) (map (\<lambda>b. if f b = k then a else b) bs) = []"
      by (auto simp: filter_empty_conv image_iff)
    then show ?thesis using True assms(3) by simp
  next
    case False
    then show ?thesis using Cons by auto
  qed
qed simp

context mongo
begin

lemma GetUserTxPoints_res:
  assumes wf: "wf_db (docs w) (uniq w)" "wf_addrs (docs w) (uniq w)"
    and run: "GetUserTxPoints drv appid userid ui code state w = (r, w')"
  shows "same w w' \<and> (case r of Ok ps \<Rightarrow> mset ps = mset (filter (\<lambda>p. Addr p \<in>
        Info_Addr ` set (filter (owns appid userid ui) (addrs_of (docs w))) \<and> point_matches code state p)
        (points_of (docs w)))
      | Fail e \<Rightarrow> True | Stop s \<Rightarrow> False)"
proof -
  let ?as = "addrs_of (docs w)" and ?pts = "points_of (docs w)"
  have a: "docs w TBL_ADDR_INFO = map doc_of_AddrInfo ?as"
    unfolding addrs_of_def by (rule map_roundtrip) (use wf(2) in \<open>simp add: wf_addrs_def\<close>)
  have p: "docs w TBL_TX_POINT = map doc_of_TxPoint ?pts"
    unfolding points_of_def by (rule map_roundtrip) (use wf(1) in \<open>simp add: wf_db_def\<close>)
  have "distinct (map Info_Addr (filter (owns appid userid ui) ?as))"
    using wf(2) by (simp add: wf_addrs_def distinct_map_filter)
  note ms = mset_concat_filters [OF this, of Addr "point_matches code state" ?pts]
  from run show ?thesis
    unfolding GetUserTxPoints_def andThen_def
  proof (cases rule: attempt_eqE)
    case (Ok ds w1)
    note ag = AggregateAll_res [OF Ok(1)]
    then have "mset (map TxPoint_of_doc ds) = mset (map TxPoint_of_doc (run_pipe (docs w)
        (user_points_pipe appid userid ui code state) (docs w TBL_ADDR_INFO)))" by simp
    then have "mset (map TxPoint_of_doc ds) = mset (concat (map (\<lambda>a. filter (\<lambda>p. Addr p = Info_Addr a \<and>
        point_matches code state p) ?pts) (filter (owns appid userid ui) ?as)))"
      by (simp only: run_user_points_pipe [of "docs w", OF a p] map_map comp_def TxPoint_of_doc_of_TxPoint map_ident)
    moreover have "r = Ok (map TxPoint_of_doc ds)" "same w w'" using Ok(2) ag by (auto simp: ret_def)
    ultimately show ?thesis using ms by (simp only: res.case simp_thms)
  qed (auto simp: fail_def dest: AggregateAll_res)
qed

text \<open>Registering an address inserts it or rewrites its only entry.\<close>

lemma AddOrUpdateAddrInfo_res:
  assumes wf: "wf_addrs (docs w) (uniq w)" and run: "AddOrUpdateAddrInfo drv a w = (Ok (), w')"
  shows "addrs_of (docs w') = (if Info_Addr a \<in> Info_Addr ` set (addrs_of (docs w))
      then map (\<lambda>b. if Info_Addr b = Info_Addr a then a else b) (addrs_of (docs w))
      else addrs_of (docs w) @ [a]) \<and> wf_addrs (docs w') (uniq w')"
proof -
  let ?as = "addrs_of (docs w)"
  have enc: "docs w TBL_ADDR_INFO = map doc_of_AddrInfo ?as"
    unfolding addrs_of_def by (rule map_roundtrip) (use wf in \<open>simp add: wf_addrs_def\<close>)
  have un: "uniq w TBL_ADDR_INFO = {[ADDR]}" and dist: "distinct (map Info_Addr ?as)"
    using wf by (simp_all add: wf_addrs_def)
  have cl: "clash [ADDR] (doc_of_AddrInfo a) (docs w TBL_ADDR_INFO) \<longleftrightarrow> Info_Addr a \<in> Info_Addr ` set ?as"
    unfolding enc by (auto simp: clash_def doc_of_AddrInfo_def image_iff eq_commute)
  from run [unfolded AddOrUpdateAddrInfo_def] show ?thesis
  proof (cases rule: attempt_eqE)
    case (Ok u w1)
    note ins = Insert_res [OF Ok(1)]
    have d: "docs w' TBL_ADDR_INFO = map doc_of_AddrInfo (?as @ [a])" and u: "uniq w' = uniq w"
      and new: "Info_Addr a \<notin> Info_Addr ` set ?as"
      using ins Ok(2) un cl by (auto simp: ret_def enc)
    then have "addrs_of (docs w') = ?as @ [a]" by (simp add: addrs_of_def d comp_def)
    then show ?thesis using new dist u un d by (auto simp: wf_addrs_def)
  next
    case (Fail e w1)
    note ins = Insert_res [OF Fail(1)]
    then have dup: "Info_Addr a \<in> Info_Addr ` set ?as" and d1: "docs w1 = docs w" "uniq w1 = uniq w"
      using Fail(2) un cl by (auto simp: fail_def split: if_splits)
    let ?u = "[(APPID, BStr (Info_Appid a)), (USERID, BInt (Info_UserID a)),
        (USER_INDEX, BInt (Info_UserIndex a)), (TIMESTAMP, BInt (Info_AddrTimestamp a))]"
    have "UpdateAll drv TBL_ADDR_INFO [QEq ADDR (BStr (Info_Addr a))] ?u w1 = (Ok (), w')"
      using Fail(2) by (simp add: fail_def split: if_splits)
    note up = UpdateAll_res [OF this]
    have one: "(if matches [QEq ADDR (BStr (Info_Addr a))] (doc_of_AddrInfo b) then set_fields ?u (doc_of_AddrInfo b)
        else doc_of_AddrInfo b) = doc_of_AddrInfo (if Info_Addr b = Info_Addr a then a else b)" for b
      by (auto simp: matches_def doc_of_AddrInfo_def set_fields_def fun_eq_iff)
    let ?bs = "map (\<lambda>b. if Info_Addr b = Info_Addr a then a else b) ?as"
    have d: "docs w' TBL_ADDR_INFO = map doc_of_AddrInfo ?bs" and u: "uniq w' = uniq w"
      using up d1 by (simp_all add: enc comp_def one)
    have "map Info_Addr ?bs = map Info_Addr ?as" by simp
    then have "distinct (map Info_Addr ?bs)" using dist by metis
    moreover have "addrs_of (docs w') = ?bs" unfolding addrs_of_def d by (simp add: comp_def)
    ultimately show ?thesis using dup u un d by (auto simp: wf_addrs_def)
  next
    case (Stop s)
    then show ?thesis by simp
  qed
qed

end

context mongo_up
begin

lemma AddOrUpdateAddrInfo_up: "\<exists>w'. AddOrUpdateAddrInfo drv a w = (Ok (), w')"
proof -
  obtain r w' where run: "AddOrUpdateAddrInfo drv a w = (r, w')" by fastforce
  from run [unfolded AddOrUpdateAddrInfo_def] have "r = Ok ()"
  proof (cases rule: attempt_eqE)
    case (Fail e w1)
    then show ?thesis
      using Insert_Fail_up [OF Fail(1)] UpdateAll_res UpdateAll_up by (cases r) (fastforce simp: fail_def)+
  qed (auto simp: ret_def dest: Insert_res)
  with run show ?thesis by simp
qed

end


section \<open>Properties\<close>

text \<open>
  \<open>GetUserTxPoints\<close> returns the points of a user. The result of the aggregation is, up to
  order and with nothing repeated, the stored points of the asked badge and state whose
  address is registered for the user.
\<close>

theorem GetUserTxPoints_exact:
  assumes "mongo drv docs uniq" and "wf_db (docs w) (uniq w)" and "wf_addrs (docs w) (uniq w)"
    and "GetUserTxPoints drv appid userid ui code state w = (Ok ps, w')"
  shows "docs w' = docs w \<and> mset ps = mset (filter (\<lambda>p. point_matches code state p \<and>
    (\<exists>a \<in> set (addrs_of (docs w)). owns appid userid ui a \<and> Info_Addr a = Addr p)) (points_of (docs w)))"
proof -
  have "(\<lambda>p. Addr p \<in> Info_Addr ` set (filter (owns appid userid ui) (addrs_of (docs w))) \<and> point_matches code state p)
      = (\<lambda>p. point_matches code state p \<and>
          (\<exists>a \<in> set (addrs_of (docs w)). owns appid userid ui a \<and> Info_Addr a = Addr p))"
    by (intro ext) (auto simp: image_iff)
  then show ?thesis
    using mongo.GetUserTxPoints_res [OF assms] mongo.same_def [OF assms(1)] by simp
qed

text \<open>
  C33: registering an address is an upsert. After a successful \<open>AddOrUpdateAddrInfo\<close> the address
  has exactly one entry, the given one; all other entries are as before and the
  collection stays well-formed.
\<close>

theorem AddOrUpdateAddrInfo_upsert:
  assumes "mongo drv docs uniq" and "wf_addrs (docs w) (uniq w)"
    and "AddOrUpdateAddrInfo drv a w = (Ok (), w')"
  shows "wf_addrs (docs w') (uniq w') \<and>
    filter (\<lambda>b. Info_Addr b = Info_Addr a) (addrs_of (docs w')) = [a] \<and>
    filter (\<lambda>b. Info_Addr b \<noteq> Info_Addr a) (addrs_of (docs w')) =
      filter (\<lambda>b. Info_Addr b \<noteq> Info_Addr a) (addrs_of (docs w))"
proof -
  let ?as = "addrs_of (docs w)"
  note r = mongo.AddOrUpdateAddrInfo_res [OF assms]
  have "distinct (map Info_Addr ?as)" using assms(2) by (simp add: wf_addrs_def)
  then have one: "Info_Addr a \<in> Info_Addr ` set ?as \<Longrightarrow>
      filter (\<lambda>b. Info_Addr b = Info_Addr a) (map (\<lambda>b. if Info_Addr b = Info_Addr a then a else b) ?as) = [a]"
    using filter_replaced [of Info_Addr ?as "Info_Addr a" a] by blast
  have other: "filter (\<lambda>b. Info_Addr b \<noteq> Info_Addr a) (map (\<lambda>b. if Info_Addr b = Info_Addr a then a else b) bs) =
      filter (\<lambda>b. Info_Addr b \<noteq> Info_Addr a) bs" for bs
    by (induction bs) auto
  show ?thesis
  proof (cases "Info_Addr a \<in> Info_Addr ` set ?as")
    case True
    then show ?thesis using r one other by simp
  next
    case False
    then have "filter (\<lambda>b. Info_Addr b = Info_Addr a) ?as = []" by (auto simp: filter_empty_conv image_iff eq_commute)
    then show ?thesis using r False by simp
  qed
qed

definition demo_addr_info :: "string \<Rightarrow> int \<Rightarrow> AddrInfo" where
  "demo_addr_info addr user =
     \<lparr>Info_Appid = ''app'', Info_UserID = user, Info_UserIndex = 0, Info_Addr = addr, Info_AddrTimestamp = 9\<rparr>"

definition mem_users :: "AddrInfo list \<Rightarrow> TxPoint list \<Rightarrow> mem" where
  "mem_users as pts =
     (mem_ledger pts [])
       \<lparr>mem_docs := (mem_docs (mem_ledger pts []))(TBL_ADDR_INFO := map doc_of_AddrInfo as),
        mem_uniq := (mem_uniq (mem_ledger pts []))(TBL_ADDR_INFO := [[ADDR]])\<rparr>"

lemma mem_users_wf:
  assumes "distinct (map Info_Addr as)" "distinct (map point_id pts)"
  shows "wf_db (mem_docs (mem_users as pts)) (\<lambda>c. set (mem_uniq (mem_users as pts) c))"
    and "wf_addrs (mem_docs (mem_users as pts)) (\<lambda>c. set (mem_uniq (mem_users as pts) c))"
  using assms by (simp_all add: wf_db_def wf_addrs_def mem_users_def mem_ledger_def points_of_def addrs_of_def comp_def)

lemma mem_users_content [simp]:
  "points_of (mem_docs (mem_users as pts)) = pts" "addrs_of (mem_docs (mem_users as pts)) = as"
  by (simp_all add: mem_users_def mem_ledger_def points_of_def addrs_of_def comp_def)

theorem AddOrUpdateAddrInfo_upsert_witness:
  "\<exists>w'. filter (\<lambda>b. Info_Addr b = ''x'') (addrs_of (mem_docs w')) = [demo_addr_info ''x'' 2] \<and>
     AddOrUpdateAddrInfo mem_mgo (demo_addr_info ''x'' 2) (mem_users [demo_addr_info ''x'' 1] []) = (Ok (), w')"
proof -
  let ?w = "mem_users [demo_addr_info ''x'' 1] []"
  have wf: "wf_addrs (mem_docs ?w) (\<lambda>c. set (mem_uniq ?w c))" by (rule mem_users_wf(2)) simp_all
  obtain w' where run: "AddOrUpdateAddrInfo mem_mgo (demo_addr_info ''x'' 2) ?w = (Ok (), w')"
    using mem.AddOrUpdateAddrInfo_up by blast
  from AddOrUpdateAddrInfo_upsert [OF mem.mongo_axioms wf run]
  show ?thesis using run by (auto simp: demo_addr_info_def)
qed

definition demo_user_point :: "string \<Rightarrow> string \<Rightarrow> TxPoint" where
  "demo_user_point addr txid =
     \<lparr>Addr = addr, Txid = txid, Index = 0, Type = TX_POINT_TYPE_VOUT, Value = 5, PreTxid = [], PreIndex = -1,
      BadgeCode = ''c'', Timestamp = 5, State = TX_POINT_STATE_MAY_BE_UNSPENT\<rparr>"

theorem GetUserTxPoints_exact_witness:
  "\<exists>ps w'. GetUserTxPoints mem_mgo ''app'' 1 0 ''c'' 0 (mem_users [demo_addr_info ''x'' 1, demo_addr_info ''y'' 2]
       [demo_user_point ''x'' ''t'', demo_user_point ''y'' ''u'']) = (Ok ps, w') \<and>
     mset ps = {#demo_user_point ''x'' ''t''#}"
proof -
  let ?w = "mem_users [demo_addr_info ''x'' 1, demo_addr_info ''y'' 2]
     [demo_user_point ''x'' ''t'', demo_user_point ''y'' ''u'']"
  obtain r w' where run: "GetUserTxPoints mem_mgo ''app'' 1 0 ''c'' 0 ?w = (r, w')" by fastforce
  have wf: "wf_db (mem_docs ?w) (\<lambda>c. set (mem_uniq ?w c))" "wf_addrs (mem_docs ?w) (\<lambda>c. set (mem_uniq ?w c))"
    by (rule mem_users_wf; simp add: demo_addr_info_def demo_user_point_def point_id_def)+
  obtain ps where r: "r = Ok ps"
    using run mem.GetUserTxPoints_res [OF wf run] mem.AggregateAll_up
    unfolding GetUserTxPoints_def andThen_def by (cases r) (auto simp: ret_def fail_def elim!: attempt_eqE)
  from GetUserTxPoints_exact [OF mem.mongo_axioms wf run [unfolded r]]
  have "mset ps = {#demo_user_point ''x'' ''t''#}"
    by (simp add: point_matches_def owns_def demo_addr_info_def demo_user_point_def TX_POINT_STATE_ALL_def)
  then show ?thesis using run r by auto
qed

end
