(* ===== verification/Queries.thy ===== *)
theory Queries
  imports Supply Addr_Info_Repo
begin

text \<open>
  The read side of \<open>src/services/touchstone_server.go\<close>: inventories of transactions and
  addresses, unspent outputs, balances and paging, for addresses and for users.

  \<open>sort.Sort\<close> promises a sorted permutation and leaves the order of equal elements open; it
  is the argument \<open>sortf\<close>, and the locale \<open>go_sort\<close> states the promise.
\<close>

section \<open>The code\<close>

fun TxPoints2TxInventory_loop :: "TxPoint list \<Rightarrow> TxInventory \<Rightarrow> TxInventory" where
  "TxPoints2TxInventory_loop [] txInventory = txInventory"
| "TxPoints2TxInventory_loop (txPoint # rest) txInventory =
     TxPoints2TxInventory_loop rest
       (if Type txPoint = TX_POINT_TYPE_VIN then txInventory\<lparr>Vins := Vins txInventory @ [txPoint]\<rparr>
        else txInventory\<lparr>Vouts := Vouts txInventory @ [txPoint]\<rparr>)"

definition TxPoints2TxInventory :: "TxPoint list \<Rightarrow> TxInventory" where
  "TxPoints2TxInventory txPoints = TxPoints2TxInventory_loop txPoints NewTxInventory"

definition GetTransactionInventory :: "('w, 'a) env \<Rightarrow> string \<Rightarrow> ('w, TxInventory) io" where
  "GetTransactionInventory env txid =
     andThen (GetTxPoints (Db env) txid) (\<lambda>txPoints.
       if txPoints = [] then fail (NewCodeError ERR_UNKNOW_TX_CODE ''unknow tx'')
       else ret (TxPoints2TxInventory txPoints))"

definition SetAddrInfo :: "('w, 'a) env \<Rightarrow> int \<Rightarrow> string \<Rightarrow> int \<Rightarrow> int \<Rightarrow> string \<Rightarrow> ('w, unit) io" where
  "SetAddrInfo env now appid userId userIndex addr =
     AddOrUpdateAddrInfo (Db env)
       \<lparr>Info_Appid = appid, Info_UserID = userId, Info_UserIndex = userIndex, Info_Addr = addr,
        Info_AddrTimestamp = now\<rparr>"

definition TxPointsSorter_Less :: "TxPoint \<Rightarrow> TxPoint \<Rightarrow> bool" where
  "TxPointsSorter_Less p q \<longleftrightarrow> Timestamp p < Timestamp q"

text \<open>What both paging functions do after sorting.\<close>

definition page :: "'b list \<Rightarrow> int \<Rightarrow> int \<Rightarrow> 'b list res" where
  "page xs offset limit =
     (if int (length xs) \<le> offset then Ok []
      else if int (length xs) < add64 limit offset then go_slice xs offset (int (length xs))
      else go_slice xs offset (add64 limit offset))"

definition PageTxPoints :: "(TxPoint list \<Rightarrow> TxPoint list) \<Rightarrow> TxPoint list \<Rightarrow> int \<Rightarrow> int \<Rightarrow> TxPoint list res" where
  "PageTxPoints sortf txPoints offset limit = page (sortf txPoints) offset limit"

fun spent_keys :: "TxPoint list \<Rightarrow> string set \<Rightarrow> string set" where
  "spent_keys [] SpentUtxoSet = SpentUtxoSet"
| "spent_keys (txPoint # rest) SpentUtxoSet =
     (if Type txPoint \<noteq> TX_POINT_TYPE_VIN then spent_keys rest SpentUtxoSet
      else spent_keys rest (insert (GenerateStrFromStrInt (PreTxid txPoint) (PreIndex txPoint)) SpentUtxoSet))"

fun unspent_points :: "TxPoint list \<Rightarrow> string set \<Rightarrow> TxPoint list \<Rightarrow> TxPoint list" where
  "unspent_points [] SpentUtxoSet result = result"
| "unspent_points (txPoint # rest) SpentUtxoSet result =
     (if Type txPoint \<noteq> TX_POINT_TYPE_VOUT then unspent_points rest SpentUtxoSet result
      else if GenerateStrFromStrInt (Txid txPoint) (Index txPoint) \<in> SpentUtxoSet
      then unspent_points rest SpentUtxoSet result
      else unspent_points rest SpentUtxoSet (result @ [txPoint]))"

definition CalculateUtxos :: "TxPoint list \<Rightarrow> TxPoint list" where
  "CalculateUtxos txPoints = unspent_points txPoints (spent_keys txPoints {}) []"

definition GetAllAddrUtxos :: "('w, 'a) env \<Rightarrow> string \<Rightarrow> string \<Rightarrow> ('w, TxPoint list) io" where
  "GetAllAddrUtxos env addr badgeCode =
     andThen (GetTxPointsByAddr (Db env) addr badgeCode TX_POINT_STATE_MAY_BE_UNSPENT)
       (\<lambda>txPoints. ret (CalculateUtxos txPoints))"

definition GetAddrUtxos ::
  "('w, 'a) env \<Rightarrow> (TxPoint list \<Rightarrow> TxPoint list) \<Rightarrow> string \<Rightarrow> string \<Rightarrow> int \<Rightarrow> int \<Rightarrow> ('w, TxPoint list) io" where
  "GetAddrUtxos env sortf addr badgeCode offset limit =
     andThen (GetAllAddrUtxos env addr badgeCode) (\<lambda>utxos. of_res (PageTxPoints sortf utxos offset limit))"

definition GetAllUserUtxos :: "('w, 'a) env \<Rightarrow> string \<Rightarrow> int \<Rightarrow> int \<Rightarrow> string \<Rightarrow> ('w, TxPoint list) io" where
  "GetAllUserUtxos env appid userid userIndex badgeCode =
     andThen (GetUserTxPoints (Db env) appid userid userIndex badgeCode TX_POINT_STATE_MAY_BE_UNSPENT)
       (\<lambda>txPoints. ret (CalculateUtxos txPoints))"

definition GetUserUtxos ::
  "('w, 'a) env \<Rightarrow> (TxPoint list \<Rightarrow> TxPoint list) \<Rightarrow> string \<Rightarrow> int \<Rightarrow> int \<Rightarrow> string \<Rightarrow> int \<Rightarrow> int
     \<Rightarrow> ('w, TxPoint list) io" where
  "GetUserUtxos env sortf appid userid userIndex badgeCode offset limit =
     andThen (GetAllUserUtxos env appid userid userIndex badgeCode)
       (\<lambda>utxos. of_res (PageTxPoints sortf utxos offset limit))"

definition SumTxPoints :: "TxPoint list \<Rightarrow> int" where
  "SumTxPoints txPoints = foldl (\<lambda>sum txPoint. add64 sum (Value txPoint)) 0 txPoints"

definition GetAddrBalance :: "('w, 'a) env \<Rightarrow> string \<Rightarrow> string \<Rightarrow> ('w, int) io" where
  "GetAddrBalance env addr badgeCode =
     andThen (GetAllAddrUtxos env addr badgeCode) (\<lambda>utxos. ret (SumTxPoints utxos))"

definition GetUserBalance :: "('w, 'a) env \<Rightarrow> string \<Rightarrow> int \<Rightarrow> int \<Rightarrow> string \<Rightarrow> ('w, int) io" where
  "GetUserBalance env appid userid userIndex badgeCode =
     andThen (GetAllUserUtxos env appid userid userIndex badgeCode) (\<lambda>utxos. ret (SumTxPoints utxos))"

record AddrInventory =
  Inv_Addr :: string
  Inv_Txid :: string
  Inv_Timestamp :: int
  Inv_Value :: int

definition AddrInventorySorter_Less :: "AddrInventory \<Rightarrow> AddrInventory \<Rightarrow> bool" where
  "AddrInventorySorter_Less a b \<longleftrightarrow> Inv_Timestamp a > Inv_Timestamp b"

text \<open>
  \<open>addrInventorySet\<close> maps a transaction to the entry of the result list that was made for it,
  so adding to the entry updates the list in place.
\<close>

fun inventory_add :: "TxPoint \<Rightarrow> AddrInventory list \<Rightarrow> AddrInventory list" where
  "inventory_add p [] = [\<lparr>Inv_Addr = Addr p, Inv_Txid = Txid p, Inv_Timestamp = Timestamp p,
     Inv_Value = add64 0 (Value p)\<rparr>]"
| "inventory_add p (a # as) =
     (if Inv_Txid a = Txid p then a\<lparr>Inv_Value := add64 (Inv_Value a) (Value p)\<rparr> # as
      else a # inventory_add p as)"

definition TxPoints2AddrInventory :: "TxPoint list \<Rightarrow> AddrInventory list" where
  "TxPoints2AddrInventory txPoints = foldl (\<lambda>as p. inventory_add p as) [] txPoints"

definition GetAllAddrInventorys :: "('w, 'a) env \<Rightarrow> string \<Rightarrow> string \<Rightarrow> ('w, AddrInventory list) io" where
  "GetAllAddrInventorys env addr badgeCode =
     andThen (GetTxPointsByAddr (Db env) addr badgeCode TX_POINT_STATE_ALL)
       (\<lambda>txPoints. ret (TxPoints2AddrInventory txPoints))"

definition GetUserAddrInventorys ::
  "('w, 'a) env \<Rightarrow> string \<Rightarrow> int \<Rightarrow> int \<Rightarrow> string \<Rightarrow> ('w, AddrInventory list) io" where
  "GetUserAddrInventorys env appid userid userIndex badgeCode =
     andThen (GetUserTxPoints (Db env) appid userid userIndex badgeCode TX_POINT_STATE_ALL)
       (\<lambda>txPoints. ret (TxPoints2AddrInventory txPoints))"

definition PageAddrInventorys ::
  "(AddrInventory list \<Rightarrow> AddrInventory list) \<Rightarrow> AddrInventory list \<Rightarrow> int \<Rightarrow> int \<Rightarrow> AddrInventory list res" where
  "PageAddrInventorys sortf addrInventorys offset limit = page (sortf addrInventorys) offset limit"

definition GetAddrInventorys ::
  "('w, 'a) env \<Rightarrow> (AddrInventory list \<Rightarrow> AddrInventory list) \<Rightarrow> string \<Rightarrow> string \<Rightarrow> int \<Rightarrow> int
     \<Rightarrow> ('w, AddrInventory list) io" where
  "GetAddrInventorys env sortf addr badgeCode offset limit =
     andThen (GetAllAddrInventorys env addr badgeCode)
       (\<lambda>as. of_res (PageAddrInventorys sortf as offset limit))"

definition GetUserInventorys ::
  "('w, 'a) env \<Rightarrow> (AddrInventory list \<Rightarrow> AddrInventory list) \<Rightarrow> string \<Rightarrow> int \<Rightarrow> int \<Rightarrow> string \<Rightarrow> int \<Rightarrow> int
     \<Rightarrow> ('w, AddrInventory list) io" where
  "GetUserInventorys env sortf appid userid userIndex badgeCode offset limit =
     andThen (GetUserAddrInventorys env appid userid userIndex badgeCode)
       (\<lambda>as. of_res (PageAddrInventorys sortf as offset limit))"


section \<open>Paging\<close>

locale go_sort =
  fixes less :: "'b \<Rightarrow> 'b \<Rightarrow> bool" and sortf :: "'b list \<Rightarrow> 'b list"
  assumes sort_mset: "mset (sortf xs) = mset xs"
    and sort_sorted: "sorted_wrt (\<lambda>x y. \<not> less y x) (sortf xs)"
begin

lemma length_sortf [simp]: "length (sortf xs) = length xs"
  by (metis sort_mset size_mset)

text \<open>Reading page after page of positive size yields every element once, in order.\<close>

lemma pages:
  assumes "0 < n"
  shows "concat (map (\<lambda>k. take n (drop (k * n) (sortf xs))) [0..<Suc (length xs div n)]) = sortf xs"
proof -
  have "concat (map (\<lambda>k. take n (drop (k * n) ys)) [0..<m]) = take (m * n) ys" for m and ys :: "'b list"
  proof (induction m)
    case (Suc m)
    have "take (Suc m * n) ys = take (m * n) ys @ take n (drop (m * n) ys)"
      by (simp only: mult_Suc add.commute [of n] take_add)
    with Suc show ?case by simp
  qed simp
  moreover have "length xs < Suc (length xs div n) * n"
    using mult_div_mod_eq [of n "length xs"] mod_less_divisor [OF assms, of "length xs"]
    unfolding mult_Suc mult.commute [of "length xs div n"] by linarith
  ultimately show ?thesis by simp
qed

end

lemma page_in_range:
  assumes "0 \<le> offset" "0 \<le> limit" "offset + limit \<le> max_int64"
  shows "page xs offset limit = Ok (take (nat limit) (drop (nat offset) xs))"
proof -
  have "add64 limit offset = limit + offset"
    using assms by (simp add: add64_def wrap64_id is_int64_def)
  then show ?thesis
    using assms by (auto simp: page_def go_slice_def nat_diff_distrib' nat_add_distrib min_def
        intro!: arg_cong [of _ _ "\<lambda>k. take k (drop (nat offset) xs)"]) 
qed

interpretation points_sort: go_sort TxPointsSorter_Less "sort_key Timestamp"
proof
  show "mset (sort_key Timestamp xs) = mset xs" for xs :: "TxPoint list" by simp
  have "sorted (map Timestamp (sort_key Timestamp xs))" for xs :: "TxPoint list" by simp
  then show "sorted_wrt (\<lambda>x y. \<not> TxPointsSorter_Less y x) (sort_key Timestamp xs)" for xs
    unfolding sorted_map TxPointsSorter_Less_def by (simp add: not_less)
qed

interpretation inventory_sort: go_sort AddrInventorySorter_Less "sort_key (\<lambda>a. - Inv_Timestamp a)"
proof
  show "mset (sort_key (\<lambda>a. - Inv_Timestamp a) xs) = mset xs" for xs :: "AddrInventory list" by simp
  have "sorted (map (\<lambda>a. - Inv_Timestamp a) (sort_key (\<lambda>a. - Inv_Timestamp a) xs))" for xs :: "AddrInventory list"
    by simp
  then show "sorted_wrt (\<lambda>x y. \<not> AddrInventorySorter_Less y x) (sort_key (\<lambda>a. - Inv_Timestamp a) xs)" for xs
    unfolding sorted_map AddrInventorySorter_Less_def by (simp add: not_less)
qed


section \<open>Unspent outputs\<close>

lemma spent_keys_eq:
  "spent_keys ps K = K \<union> {GenerateStrFromStrInt (PreTxid q) (PreIndex q) | q. q \<in> set ps \<and> Type q = TX_POINT_TYPE_VIN}"
  by (induction ps K rule: spent_keys.induct) auto

lemma unspent_points_eq:
  "unspent_points ps K res = res @ filter (\<lambda>p. Type p = TX_POINT_TYPE_VOUT \<and>
     GenerateStrFromStrInt (Txid p) (Index p) \<notin> K) ps"
  by (induction ps K res rule: unspent_points.induct) auto

definition spent_in :: "TxPoint list \<Rightarrow> TxPoint \<Rightarrow> bool" where
  "spent_in ps p \<longleftrightarrow>
     (\<exists>q \<in> set ps. Type q = TX_POINT_TYPE_VIN \<and> PreTxid q = Txid p \<and> PreIndex q = Index p)"

lemma CalculateUtxos_eq:
  "CalculateUtxos ps = filter (\<lambda>p. Type p = TX_POINT_TYPE_VOUT \<and> \<not> spent_in ps p) ps"
  unfolding CalculateUtxos_def unspent_points_eq spent_keys_eq
  by (auto simp: spent_in_def intro!: filter_cong)

lemma spent_in_mset: "mset ps = mset qs \<Longrightarrow> spent_in ps = spent_in qs"
  by (auto simp: spent_in_def fun_eq_iff dest: mset_eq_setD)

lemma mset_CalculateUtxos: "mset ps = mset qs \<Longrightarrow> mset (CalculateUtxos ps) = mset (CalculateUtxos qs)"
  by (simp add: CalculateUtxos_eq spent_in_mset [of ps qs])

lemma SumTxPoints_eq: "SumTxPoints ps = wrap64 (sum_list (map Value ps))"
proof -
  have "foldl (\<lambda>sum p. add64 sum (Value p)) (wrap64 x) ps = wrap64 (x + sum_list (map Value ps))" for x
  proof (induction ps arbitrary: x)
    case (Cons p ps)
    have "add64 (wrap64 x) (Value p) = wrap64 (x + Value p)"
      by (simp add: add64_def wrap64_def algebra_simps mod_simps)
    then show ?case using Cons by (simp add: add.assoc)
  qed simp
  from this [of 0] show ?thesis by (simp add: SumTxPoints_def wrap64_def)
qed


section \<open>Inventories of addresses\<close>

lemma inventory_add_txids:
  "map Inv_Txid (inventory_add p as) =
     (if Txid p \<in> Inv_Txid ` set as then map Inv_Txid as else map Inv_Txid as @ [Txid p])"
  by (induction p as rule: inventory_add.induct) auto

definition inventory_value :: "AddrInventory list \<Rightarrow> string \<Rightarrow> int" where
  "inventory_value as t = sum_list (map Inv_Value (filter (\<lambda>a. Inv_Txid a = t) as))"

lemma inventory_value_add:
  assumes "distinct (map Inv_Txid as)"
  shows "inventory_value (inventory_add p as) t =
    (if t = Txid p then wrap64 (inventory_value as t + Value p) else inventory_value as t)"
  using assms
proof (induction p as rule: inventory_add.induct)
  case (2 p a as)
  have "Inv_Txid a \<notin> Inv_Txid ` set as" using 2(2) by auto
  then have none: "filter (\<lambda>b. Inv_Txid b = Inv_Txid a) as = []" by (auto simp: filter_empty_conv image_iff)
  show ?case
    using 2 none by (auto simp: inventory_value_def add64_def)
qed (simp add: inventory_value_def add64_def)

lemma TxPoints2AddrInventory_inv:
  fixes ps :: "TxPoint list"
  defines "as \<equiv> TxPoints2AddrInventory ps"
  shows "distinct (map Inv_Txid as)" "Inv_Txid ` set as = Txid ` set ps"
    "inventory_value as t = wrap64 (sum_list (map Value (filter (\<lambda>p. Txid p = t) ps)))"
proof -
  have "distinct (map Inv_Txid (TxPoints2AddrInventory ps)) \<and>
      Inv_Txid ` set (TxPoints2AddrInventory ps) = Txid ` set ps \<and>
      (\<forall>t. inventory_value (TxPoints2AddrInventory ps) t = wrap64 (sum_list (map Value (filter (\<lambda>p. Txid p = t) ps))))"
  proof (induction ps rule: rev_induct)
    case Nil
    then show ?case by (simp add: TxPoints2AddrInventory_def inventory_value_def wrap64_def)
  next
    case (snoc p ps)
    let ?as = "TxPoints2AddrInventory ps"
    have step: "TxPoints2AddrInventory (ps @ [p]) = inventory_add p ?as"
      by (simp add: TxPoints2AddrInventory_def)
    have "map Inv_Txid (inventory_add p ?as) =
        (if Txid p \<in> Inv_Txid ` set ?as then map Inv_Txid ?as else map Inv_Txid ?as @ [Txid p])"
      by (rule inventory_add_txids)
    then have "distinct (map Inv_Txid (inventory_add p ?as)) \<and>
        set (map Inv_Txid (inventory_add p ?as)) = insert (Txid p) (set (map Inv_Txid ?as))"
      using snoc by auto
    moreover have "inventory_value (inventory_add p ?as) t =
        wrap64 (sum_list (map Value (filter (\<lambda>q. Txid q = t) (ps @ [p]))))" for t
      using snoc inventory_value_add [of ?as p t]
      by (auto simp: wrap64_def algebra_simps mod_simps)
    ultimately show ?case using snoc unfolding step by simp
  qed
  then show "distinct (map Inv_Txid as)" "Inv_Txid ` set as = Txid ` set ps"
    "inventory_value as t = wrap64 (sum_list (map Value (filter (\<lambda>p. Txid p = t) ps)))"
    by (simp_all add: as_def)
qed

context mongo
begin

lemma GetTxPointsByAddr_res:
  assumes wf: "wf_db (docs w) (uniq w)" and run: "GetTxPointsByAddr drv addr code state w = (r, w')"
  shows "same w w' \<and> (case r of
      Ok ps \<Rightarrow> mset ps = mset (filter (\<lambda>p. Addr p = addr \<and> point_matches code state p) (points_of (docs w)))
    | Fail e \<Rightarrow> True | Stop s \<Rightarrow> False)"
proof -
  let ?q = "[QEq ADDR (BStr addr), QEq BADGE_CODE (BStr code)]
    @ (if state \<noteq> TX_POINT_STATE_ALL then [QEq STATE (BInt state)] else [])"
  let ?pts = "points_of (docs w)"
  have enc: "docs w TBL_TX_POINT = map doc_of_TxPoint ?pts"
    unfolding points_of_def by (rule map_roundtrip) (use wf in \<open>simp add: wf_db_def\<close>)
  have m: "matches ?q (doc_of_TxPoint p) \<longleftrightarrow> Addr p = addr \<and> point_matches code state p" for p
    by (auto simp: matches_def doc_of_TxPoint_def point_matches_def)
  have sel: "map (select None) (filter (matches ?q) (docs w TBL_TX_POINT)) =
      map doc_of_TxPoint (filter (\<lambda>p. Addr p = addr \<and> point_matches code state p) ?pts)"
    unfolding enc by (simp only: select_def option.case filter_map comp_def m map_map)
  from run show ?thesis
    unfolding GetTxPointsByAddr_def Let_def andThen_def
  proof (cases rule: attempt_eqE)
    case (Ok ds w1)
    note g = GetAll_res [OF Ok(1)]
    then have "mset (map TxPoint_of_doc ds) = image_mset TxPoint_of_doc (mset (map (select None) (filter (matches ?q) (docs w TBL_TX_POINT))))"
      by simp
    also have "\<dots> = mset (filter (\<lambda>p. Addr p = addr \<and> point_matches code state p) ?pts)"
      unfolding sel by (simp add: multiset.map_comp comp_def)
    finally show ?thesis using Ok(2) g by (auto simp: ret_def)
  qed (auto simp: fail_def dest: GetAll_res)
qed

lemma GetAllAddrUtxos_res:
  assumes wf: "wf_db (docs w) (uniq w)" and "Db env = drv"
    and run: "GetAllAddrUtxos env addr code w = (r, w')"
  shows "same w w' \<and> (case r of
      Ok us \<Rightarrow> mset us = mset (CalculateUtxos (filter (\<lambda>p. Addr p = addr \<and>
        point_matches code TX_POINT_STATE_MAY_BE_UNSPENT p) (points_of (docs w))))
    | Fail e \<Rightarrow> True | Stop s \<Rightarrow> False)"
  using run unfolding GetAllAddrUtxos_def assms(2) andThen_def
  by (cases rule: attempt_eqE)
     (auto simp: ret_def fail_def intro!: mset_CalculateUtxos dest!: GetTxPointsByAddr_res [OF wf])

lemma GetAllUserUtxos_res:
  assumes wf: "wf_db (docs w) (uniq w)" "wf_addrs (docs w) (uniq w)" and "Db env = drv"
    and run: "GetAllUserUtxos env appid userid ui code w = (r, w')"
  shows "same w w' \<and> (case r of
      Ok us \<Rightarrow> mset us = mset (CalculateUtxos (filter (\<lambda>p. Addr p \<in>
        Info_Addr ` set (filter (owns appid userid ui) (addrs_of (docs w))) \<and>
        point_matches code TX_POINT_STATE_MAY_BE_UNSPENT p) (points_of (docs w))))
    | Fail e \<Rightarrow> True | Stop s \<Rightarrow> False)"
  using run unfolding GetAllUserUtxos_def assms(3) andThen_def
  by (cases rule: attempt_eqE)
     (auto simp: ret_def fail_def intro!: mset_CalculateUtxos dest!: GetUserTxPoints_res [OF wf])

end


section \<open>Properties\<close>

text \<open>
  The unspent outputs. \<open>CalculateUtxos\<close> keeps, in order, exactly the output points that no
  input point of the list spends; the text keys it compares cannot be confused.
\<close>

theorem CalculateUtxos_exact:
  "CalculateUtxos ps = filter (\<lambda>p. Type p = TX_POINT_TYPE_VOUT \<and>
     \<not> (\<exists>q \<in> set ps. Type q = TX_POINT_TYPE_VIN \<and> (PreTxid q, PreIndex q) = (Txid p, Index p))) ps"
  by (simp add: CalculateUtxos_eq spent_in_def)

text \<open>
  Paging. Whatever sorted permutation \<open>sort.Sort\<close> produces, \<open>PageTxPoints\<close> returns its
  requested part for every offset and limit that are not negative and do not overflow;
  in particular it does not panic there, also beyond the end.
\<close>

theorem PageTxPoints_in_range:
  assumes "go_sort TxPointsSorter_Less sortf"
    and "0 \<le> offset" and "0 \<le> limit" and "offset + limit \<le> max_int64"
  shows "\<exists>ys. PageTxPoints sortf xs offset limit = Ok (take (nat limit) (drop (nat offset) ys)) \<and>
    mset ys = mset xs \<and> sorted (map Timestamp ys)"
proof (intro exI [of _ "sortf xs"] conjI)
  show "PageTxPoints sortf xs offset limit = Ok (take (nat limit) (drop (nat offset) (sortf xs)))"
    using page_in_range [OF assms(2-4)] by (simp add: PageTxPoints_def)
  show "mset (sortf xs) = mset xs" by (rule go_sort.sort_mset [OF assms(1)])
  show "sorted (map Timestamp (sortf xs))"
    using go_sort.sort_sorted [OF assms(1), of xs] by (simp add: sorted_map TxPointsSorter_Less_def not_less)
qed

theorem PageTxPoints_in_range_witness:
  "\<exists>ys. PageTxPoints (sort_key Timestamp) [demo_point 1 5, demo_point 2 6] 1 7 = Ok (take 7 (drop 1 ys)) \<and>
     mset ys = mset [demo_point 1 5, demo_point 2 6] \<and> sorted (map Timestamp ys)"
  using PageTxPoints_in_range [OF points_sort.go_sort_axioms, where offset = 1 and limit = 7
      and xs = "[demo_point 1 5, demo_point 2 6]"] by simp

text \<open>
  C34: outside that range the functions panic: a negative offset, or an offset and limit
  whose sum wraps around, slices the result out of bounds.
\<close>

theorem PageTxPoints_out_of_range_panics:
  assumes "go_sort TxPointsSorter_Less sortf" and "xs \<noteq> []"
    and "offset < 0 \<or> 0 \<le> offset \<and> offset < int (length xs) \<and> add64 limit offset < offset"
  shows "PageTxPoints sortf xs offset limit = Panic ''slice bounds out of range''"
  using assms(2,3) go_sort.length_sortf [OF assms(1), of xs]
  by (auto simp: PageTxPoints_def page_def go_slice_def)

theorem PageTxPoints_out_of_range_panics_witness:
  "PageTxPoints (sort_key Timestamp) [demo_point 1 5, demo_point 2 6] 1 max_int64
     = Panic ''slice bounds out of range''"
proof -
  have "add64 max_int64 1 < 1" by (simp add: add64_def wrap64_def)
  then show ?thesis
    by (intro PageTxPoints_out_of_range_panics [OF points_sort.go_sort_axioms]) simp_all
qed

text \<open>
  Inventories of addresses. \<open>TxPoints2AddrInventory\<close> makes one entry for each transaction
  of the points, and the value of the entry is the (64-bit) sum of the transaction's
  points.
\<close>

theorem TxPoints2AddrInventory_groups:
  "distinct (map Inv_Txid (TxPoints2AddrInventory ps)) \<and>
   Inv_Txid ` set (TxPoints2AddrInventory ps) = Txid ` set ps \<and>
   list_all (\<lambda>a. Inv_Value a = wrap64 (sum_list (map Value (filter (\<lambda>p. Txid p = Inv_Txid a) ps))))
     (TxPoints2AddrInventory ps)"
proof -
  let ?as = "TxPoints2AddrInventory ps"
  note i = TxPoints2AddrInventory_inv [of ps]
  have "Inv_Value a = inventory_value ?as (Inv_Txid a)" if a: "a \<in> set ?as" for a
  proof -
    obtain xs ys where s: "?as = xs @ a # ys" using a by (meson split_list)
    then have "filter (\<lambda>b. Inv_Txid b = Inv_Txid a) xs = []" "filter (\<lambda>b. Inv_Txid b = Inv_Txid a) ys = []"
      using i(1) by (auto simp: filter_empty_conv image_iff)
    then show ?thesis by (simp add: s inventory_value_def)
  qed
  then show ?thesis using i by (simp add: list_all_iff)
qed

end
