(* ===== verification/Mapi.thy ===== *)
theory Mapi
  imports Go_Strings
begin

text \<open>
  \<open>src/mapi/mapi_client.go\<close>, \<open>src/mapi/mempool_mapi_client.go\<close> and \<open>src/util/http_util.go\<close>: the
  client of the miner's API. The HTTP transport, the JSON codecs of the message types and
  the cryptography are parameters; what is modelled is how requests are signed and put
  together and how the answers are taken apart.
\<close>

section \<open>HTTP requests\<close>

definition HTTP_METHOD_POST :: string where "HTTP_METHOD_POST = ''POST''"
definition HTTP_METHOD_GET :: string where "HTTP_METHOD_GET = ''GET''"
definition HTTP_CONTENT_TYPE :: string where "HTTP_CONTENT_TYPE = ''Content-Type''"

text \<open>
  The transport: \<open>http_new\<close> is \<open>http.NewRequest\<close>, which may reject a method or an address;
  \<open>http_do\<close> sends the request and reads the whole body.
\<close>

record 'w http_lib =
  http_new :: "string \<Rightarrow> string \<Rightarrow> unit res"
  http_do :: "string \<Rightarrow> string \<Rightarrow> (string \<times> string) list \<Rightarrow> string \<Rightarrow> ('w, string) io"

definition HttpRequest ::
  "'w http_lib \<Rightarrow> ('b \<Rightarrow> string res) \<Rightarrow> string \<Rightarrow> string \<Rightarrow> (string \<times> string) list \<Rightarrow> 'b \<Rightarrow> ('w, string) io" where
  "HttpRequest lib marshal method url headers reqBody =
     andThen (of_res (marshal reqBody)) (\<lambda>content.
     andThen (of_res (http_new lib method url)) (\<lambda>_.
       http_do lib method url headers content))"

definition HttpPost ::
  "'w http_lib \<Rightarrow> ('b \<Rightarrow> string res) \<Rightarrow> string \<Rightarrow> (string \<times> string) list \<Rightarrow> 'b \<Rightarrow> ('w, string) io" where
  "HttpPost lib marshal url headers reqBody = HttpRequest lib marshal HTTP_METHOD_POST url headers reqBody"

definition HttpGet ::
  "'w http_lib \<Rightarrow> ('b \<Rightarrow> string res) \<Rightarrow> string \<Rightarrow> (string \<times> string) list \<Rightarrow> 'b \<Rightarrow> ('w, string) io" where
  "HttpGet lib marshal url headers reqBody = HttpRequest lib marshal HTTP_METHOD_GET url headers reqBody"


section \<open>Messages\<close>

definition RETURN_RESULT_SUCCESS :: string where "RETURN_RESULT_SUCCESS = ''success''"
definition RETURN_RESULT_FAILURE :: string where "RETURN_RESULT_FAILURE = ''failure''"

record MapiCertInfo =
  Signature :: string
  PublicKey :: string
  Encoding :: string
  Mimetype :: string

record MapiResponse =
  CertInfo :: MapiCertInfo
  RawPayload :: string

record Fee =
  Satoshis :: int
  Bytes :: int

record FeeInfo =
  FeeType :: string
  MiningFee :: "Fee option"
  RelayFee :: "Fee option"

record FeeQuotePayload =
  Fq_ApiVersion :: string
  Fq_Timestamp :: string
  Fq_ExpiryTime :: string
  Fq_MinerId :: string
  CurrentHighestBlockHash :: string
  CurrentHighestBlockHeight :: int
  MinerReputation :: string
  FeeInfos :: "FeeInfo list"

record FeeQuote =
  Fq_Payload :: FeeQuotePayload
  Fq_CertInfo :: MapiCertInfo

record TxStatePayload =
  Ts_ApiVersion :: string
  Ts_Timestamp :: string
  ReturnResult :: string
  ResultDescription :: string
  BlockHash :: string
  BlockHeight :: int
  Ts_MinerId :: string
  Confirmations :: int
  Ts_TxSecondMempoolExpiry :: int

record TxState =
  Ts_Payload :: TxStatePayload
  Ts_CertInfo :: MapiCertInfo

record SendTxResultPayload =
  Sr_ApiVersion :: string
  Sr_Timestamp :: string
  Sr_Txid :: string
  Sr_ReturnResult :: string
  Sr_MinerId :: string
  Sr_CurrentHighestBlockHash :: string
  Sr_CurrentHighestBlockHeight :: int
  Sr_TxSecondMempoolExpiry :: int
  Sr_ResultDescription :: string

record SendTxResult =
  Sr_CertInfo :: MapiCertInfo
  Sr_Payload :: SendTxResultPayload

record SendTxRequest =
  RawTx :: string


section \<open>The client\<close>

text \<open>The interface \<open>MapiClientAdaptor\<close>, and the decoders \<open>json.Unmarshal\<close> is for the payloads.\<close>

record 'w MapiClientAdaptor =
  AdGetFeeQuote :: "('w, MapiResponse) io"
  AdGetTxState :: "string \<Rightarrow> ('w, MapiResponse) io"
  AdSendTx :: "SendTxRequest \<Rightarrow> ('w, MapiResponse) io"

record json_lib =
  JsonFeeQuote :: "string \<Rightarrow> FeeQuotePayload res"
  JsonTxState :: "string \<Rightarrow> TxStatePayload res"
  JsonSendResult :: "string \<Rightarrow> SendTxResultPayload res"

record 'w MapiClient =
  Adaptor :: "'w MapiClientAdaptor"
  Json :: json_lib

definition GetFeeQuote :: "'w MapiClient \<Rightarrow> ('w, FeeQuote) io" where
  "GetFeeQuote client =
     andThen (AdGetFeeQuote (Adaptor client)) (\<lambda>mapiFeeQuote.
     andThen (of_res (JsonFeeQuote (Json client) (RawPayload mapiFeeQuote))) (\<lambda>payload.
       ret \<lparr>Fq_Payload = payload, Fq_CertInfo = CertInfo mapiFeeQuote\<rparr>))"

definition GetTxState :: "'w MapiClient \<Rightarrow> string \<Rightarrow> ('w, TxState) io" where
  "GetTxState client txid =
     andThen (AdGetTxState (Adaptor client) txid) (\<lambda>mapiTxState.
     andThen (of_res (JsonTxState (Json client) (RawPayload mapiTxState))) (\<lambda>payload.
       ret \<lparr>Ts_Payload = payload, Ts_CertInfo = CertInfo mapiTxState\<rparr>))"

definition SendTx :: "'w MapiClient \<Rightarrow> string \<Rightarrow> ('w, SendTxResult) io" where
  "SendTx client rawTx =
     andThen (AdSendTx (Adaptor client) \<lparr>RawTx = rawTx\<rparr>) (\<lambda>mapiSendTxResult.
     andThen (of_res (JsonSendResult (Json client) (RawPayload mapiSendTxResult))) (\<lambda>payload.
       ret \<lparr>Sr_CertInfo = CertInfo mapiSendTxResult, Sr_Payload = payload\<rparr>))"


section \<open>The mempool adaptor\<close>

text \<open>
  The libraries it uses: \<open>json.Marshal\<close> of the parameter (\<open>None\<close> for \<open>nil\<close>) and of the request,
  \<open>json.Unmarshal\<close> of the response, SHA-256 and the key.
\<close>

record MempoolRequest =
  Req_Payload :: string
  Req_Signature :: string
  Req_PubKey :: string

record ('w, 'k) mempool_lib =
  MarshalParam :: "SendTxRequest option \<Rightarrow> string res"
  MarshalRequest :: "MempoolRequest \<Rightarrow> string res"
  UnmarshalResponse :: "string \<Rightarrow> MapiResponse res"
  Sha256Str :: "string \<Rightarrow> byte list"
  SignHash :: "'k \<Rightarrow> byte list \<Rightarrow> byte list res"
  PubKeyCompressed :: "'k \<Rightarrow> byte list"
  HttpL :: "'w http_lib"

record 'k MempoolMapiAdaptor =
  MempoolHost :: string
  MempoolKey :: 'k
  getFeeQuoteUrl :: string
  getTxStateUrl :: string
  sendRawTxUrl :: string

definition doRequest ::
  "('w, 'k) mempool_lib \<Rightarrow> 'k MempoolMapiAdaptor \<Rightarrow> string \<Rightarrow> string \<Rightarrow> (string \<times> string) list
     \<Rightarrow> SendTxRequest option \<Rightarrow> ('w, MapiResponse) io" where
  "doRequest lib this method url headers param =
     andThen (of_res (MarshalParam lib param)) (\<lambda>paramByte.
     andThen (of_res (SignHash lib (MempoolKey this) (Sha256Str lib paramByte))) (\<lambda>signatureBytes.
     andThen (HttpRequest (HttpL lib) (MarshalRequest lib) method url
         (filter (\<lambda>(k, v). k \<noteq> HTTP_CONTENT_TYPE) headers @ [(HTTP_CONTENT_TYPE, ''application/json'')])
         \<lparr>Req_Payload = paramByte, Req_Signature = hex_encode signatureBytes,
          Req_PubKey = hex_encode (PubKeyCompressed lib (MempoolKey this))\<rparr>) (\<lambda>httpResult.
       of_res (UnmarshalResponse lib httpResult))))"

definition MempoolGetFeeQuote :: "('w, 'k) mempool_lib \<Rightarrow> 'k MempoolMapiAdaptor \<Rightarrow> ('w, MapiResponse) io" where
  "MempoolGetFeeQuote lib this = doRequest lib this HTTP_METHOD_GET (getFeeQuoteUrl this) [] None"

definition MempoolGetTxState ::
  "('w, 'k) mempool_lib \<Rightarrow> 'k MempoolMapiAdaptor \<Rightarrow> string \<Rightarrow> ('w, MapiResponse) io" where
  "MempoolGetTxState lib this txid = doRequest lib this HTTP_METHOD_GET (getTxStateUrl this @ txid) [] None"

definition MempoolSendTx ::
  "('w, 'k) mempool_lib \<Rightarrow> 'k MempoolMapiAdaptor \<Rightarrow> SendTxRequest \<Rightarrow> ('w, MapiResponse) io" where
  "MempoolSendTx lib this sendTxRequest =
     doRequest lib this HTTP_METHOD_POST (sendRawTxUrl this) [] (Some sendTxRequest)"

text \<open>
  Key derivation along \<open>m/44'/0'/0'/0/0\<close> with \<open>hdkeychain\<close>: \<open>Child\<close> derives one level.
\<close>

record 'x hd_lib =
  NewSeed :: "string \<Rightarrow> string \<Rightarrow> byte list"
  NewMaster :: "byte list \<Rightarrow> 'x res"
  Child :: "'x \<Rightarrow> int \<Rightarrow> 'x res"

definition HardenedKeyStart :: int where "HardenedKeyStart = 2147483648"

definition paths :: "int list" where
  "paths = [HardenedKeyStart + 44, HardenedKeyStart + 0, HardenedKeyStart + 0, 0, 0]"

fun derive :: "'x hd_lib \<Rightarrow> int list \<Rightarrow> 'x \<Rightarrow> 'x res" where
  "derive hk [] extendedKey = Ok extendedKey"
| "derive hk (path # rest) extendedKey = bind_res (Child hk extendedKey path) (derive hk rest)"

definition getExtendedKey :: "'x hd_lib \<Rightarrow> 'x \<Rightarrow> 'x res" where
  "getExtendedKey hk rootExtendedKey = derive hk paths rootExtendedKey"

definition NewMempoolMapiClient ::
  "'x hd_lib \<Rightarrow> ('x \<Rightarrow> 'k res) \<Rightarrow> ('w, 'k) mempool_lib \<Rightarrow> json_lib \<Rightarrow> string \<Rightarrow> string \<Rightarrow> string
     \<Rightarrow> 'w MapiClient res" where
  "NewMempoolMapiClient hk ecPrivKey lib json host mnemonicWords password =
     bind_res (NewMaster hk (NewSeed hk mnemonicWords password)) (\<lambda>rootExtendKey.
     bind_res (getExtendedKey hk rootExtendKey) (\<lambda>extendKey.
     bind_res (ecPrivKey extendKey) (\<lambda>privateKey.
       let this = \<lparr>MempoolHost = host, MempoolKey = privateKey,
             getFeeQuoteUrl = host @ ''/v1/mapi/feeQuote'', getTxStateUrl = host @ ''/v1/mapi/tx/'',
             sendRawTxUrl = host @ ''/v1/mapi/tx''\<rparr>
       in Ok \<lparr>Adaptor = \<lparr>AdGetFeeQuote = MempoolGetFeeQuote lib this,
                AdGetTxState = MempoolGetTxState lib this, AdSendTx = MempoolSendTx lib this\<rparr>,
              Json = json\<rparr>)))"

end
