(* ===== verification/Ledger_History.thy ===== *)
theory Ledger_History
  imports Set_Spent
begin

text \<open>
  The ledger over time: a step relation whose steps are the operations that add or change points,
  transactions and addresses (\<open>AddMsgTxInfo\<close>, \<open>ProcessMsgTx\<close>, \<open>SetMsgTxHeightHash\<close>, \<open>SetAddrInfo\<close>, \<open>SetSpent\<close>), with every
  outcome of the database, and what holds in every reachable state: the invariant of the supply, the
  consistency of the marks, that processing again changes nothing, and that the balance queries return the
  balance. The operation that removes transactions, \<open>ClearMsgTx\<close>, is treated in \<open>Reorg\<close>.
\<close>

section \<open>Steps\<close>

text \<open>The network calls of the miner's API leave the database alone.\<close>

definition mapi_ok :: "('w \<Rightarrow> string \<Rightarrow> doc list) \<Rightarrow> ('w \<Rightarrow> string \<Rightarrow> string list set) \<Rightarrow> 'w MapiClient \<Rightarrow> bool" where
  "mapi_ok docs uniq client \<longleftrightarrow>
     (\<forall>w r w'. GetFeeQuote client w = (r, w') \<longrightarrow> docs w' = docs w \<and> uniq w' = uniq w)"

inductive ledger_step :: "('w, 'a) env \<Rightarrow> 'w MapiClient \<Rightarrow> MsgTx set \<Rightarrow> 'w \<Rightarrow> 'w \<Rightarrow> bool"
  for env client S where
  add: "t \<in> S \<Longrightarrow> AddMsgTxInfo (Db env) (TxL env) t height hash ts w = (r, w') \<Longrightarrow> ledger_step env client S w w'"
| process: "t \<in> S \<Longrightarrow> ProcessMsgTx env t ts w = (rp, w') \<Longrightarrow> ledger_step env client S w w'"
| register: "SetAddrInfo env now appid userid userIndex addr w = (r, w') \<Longrightarrow> ledger_step env client S w w'"
| mark: "SetSpent env client now w = (r, w') \<Longrightarrow> ledger_step env client S w w'"
| move: "SetMsgTxHeightHash (Db env) txid height hash w = (r, w') \<Longrightarrow> ledger_step env client S w w'"

inductive_cases ledger_stepE: "ledger_step env client S w w'"


section \<open>Adding and moving transactions\<close>

lemma raw_id_set_fields:
  "TXID \<notin> fst ` set u \<Longrightarrow> INDEX \<notin> fst ` set u \<Longrightarrow> raw_id (set_fields u d) = raw_id d"
  by (simp add: raw_id_def set_fields_def map_add_def map_of_eq_None_iff [THEN iffD2])

lemma map_update_same: "f x = f (xs ! i) \<Longrightarrow> map f (xs[i := x]) = map f xs"
  by (cases "i < length xs") (simp_all add: map_update list_update_same_conv list_update_beyond)

context mongo
begin

lemma insert_raw_keeps:
  assumes "wf_db (docs w) (uniq w)" "insert_ignore_dup drv TBL_RAW_TX_INFO d w = (r, w')"
  shows "wf_db (docs w') (uniq w') \<and> points_of (docs w') = points_of (docs w)"
  using assms(2) unfolding insert_ignore_dup_def
proof (cases rule: attempt_eqE)
  case (Ok u w1)
  note ins = Insert_res [OF Ok(1)]
  then have "\<not> clash [TXID, INDEX] d (docs w TBL_RAW_TX_INFO)" using assms(1) by (simp add: wf_db_def)
  then have "raw_id d \<notin> raw_id ` set (docs w TBL_RAW_TX_INFO)"
    by (auto simp: clash_def raw_id_def)
  then show ?thesis using ins Ok(2) assms(1) by (auto simp: ret_def wf_db_def points_of_def)
next
  case (Fail e w1)
  then show ?thesis using Insert_res [OF Fail(1)] assms(1) by (auto simp: ret_def fail_def split: if_splits)
next
  case (Stop s)
  then show ?thesis using Insert_res by fastforce
qed

lemma AddMsgTxInfo_keeps:
  assumes "wf_db (docs w) (uniq w)" "AddMsgTxInfo drv lib t height hash ts w = (r, w')"
  shows "wf_db (docs w') (uniq w') \<and> points_of (docs w') = points_of (docs w)"
proof (cases "SplitString (SeserializeMsgTxStr lib t) MAX_SEGMENT_SIZE")
  case None
  then show ?thesis using assms by (simp add: AddMsgTxInfo_def of_res_def)
next
  case (Some pieces)
  let ?I = "\<lambda>v. wf_db (docs v) (uniq v) \<and> points_of (docs v) = points_of (docs w)"
  let ?m = "\<lambda>(index, piece). insert_ignore_dup drv TBL_RAW_TX_INFO (segment_doc (TxHash lib t) index piece)"
  have loop: "?I v'" if "for_each ?m (indexed pieces) v = (q, v')" "?I v" for v q v'
    by (rule for_each_invariant [where I = ?I, OF _ that])
       (auto dest: insert_raw_keeps split: prod.splits)
  have "attempt (for_each ?m (indexed pieces)) fail (\<lambda>_. insert_ignore_dup drv TBL_RAW_TX_INFO
      (info_doc (TxHash lib t) height hash ts)) w = (r, w')"
    using assms(2) Some by (simp add: AddMsgTxInfo_def andThen_def)
  then show ?thesis
  proof (cases rule: attempt_eqE)
    case (Ok u w1)
    have "?I w1" using loop [OF Ok(1)] assms(1) by blast
    then show ?thesis using insert_raw_keeps [OF _ Ok(2)] by simp
  next
    case (Fail e w1)
    then show ?thesis using loop [OF Fail(1)] assms(1) by (simp add: fail_def)
  next
    case (Stop x)
    then show ?thesis using loop [OF Stop(1)] assms(1) by simp
  qed
qed


lemma SetMsgTxHeightHash_keeps:
  assumes "wf_db (docs w) (uniq w)" "SetMsgTxHeightHash drv txid height hash w = (r, w')"
  shows "wf_db (docs w') (uniq w') \<and> points_of (docs w') = points_of (docs w)"
proof -
  note up = UpdateOne_res [OF assms(2) [unfolded SetMsgTxHeightHash_def]]
  have "map raw_id (docs w' TBL_RAW_TX_INFO) = map raw_id (docs w TBL_RAW_TX_INFO)"
    using up by (cases r) (auto simp: map_update_same raw_id_set_fields)
  moreover have "docs w' c = docs w c" if "c \<noteq> TBL_RAW_TX_INFO" for c using up that by (cases r) auto
  moreover have "uniq w' = uniq w" using up by simp
  ultimately show ?thesis using assms(1) by (simp add: wf_db_def points_of_def)
qed

lemma SetAddrInfo_keeps:
  assumes "wf_db (docs w) (uniq w)" "Db env = drv" "SetAddrInfo env now appid userid ui addr w = (r, w')"
  shows "wf_db (docs w') (uniq w') \<and> points_of (docs w') = points_of (docs w)"
proof -
  have other: "uniq w' = uniq w \<and> (\<forall>c. c \<noteq> TBL_ADDR_INFO \<longrightarrow> docs w' c = docs w c)"
    using assms(3) unfolding SetAddrInfo_def AddOrUpdateAddrInfo_def assms(2)
  proof (cases rule: attempt_eqE)
    case (Ok u w1)
    then show ?thesis using Insert_res [OF Ok(1)] by (auto simp: ret_def)
  next
    case (Fail e w1)
    then show ?thesis
      using Insert_res [OF Fail(1)] UpdateAll_res [of TBL_ADDR_INFO _ _ w1 r w']
      by (auto simp: fail_def split: if_splits)
  next
    case (Stop x)
    then show ?thesis using Insert_res [OF Stop(1)] by simp
  qed
  then show ?thesis using assms(1) by (simp add: wf_db_def points_of_def)
qed


section \<open>Marking points\<close>

lemma SetTxPointState_res:
  assumes wf: "wf_db (docs w) (uniq w)" and ty: "ty \<noteq> TX_POINT_TYPE_ALL"
    and run: "SetTxPointState drv t i ty s w = (r, w')"
  shows "wf_db (docs w') (uniq w') \<and> (case r of
      Ok u \<Rightarrow> (\<exists>n < length (points_of (docs w)). point_id (points_of (docs w) ! n) = (t, i, ty) \<and>
        points_of (docs w') = (points_of (docs w))[n := (points_of (docs w) ! n)\<lparr>State := s\<rparr>])
    | Fail e \<Rightarrow> points_of (docs w') = points_of (docs w)
    | Stop x \<Rightarrow> False)"
proof -
  let ?ds = "docs w TBL_TX_POINT" and ?pts = "points_of (docs w)"
  have enc: "?ds = map doc_of_TxPoint ?pts"
    unfolding points_of_def by (rule map_roundtrip) (use wf in \<open>simp add: wf_db_def\<close>)
  have "UpdateOne drv TBL_TX_POINT (point_key t i ty) [(STATE, BInt s)] w = (r, w')"
    using run ty by (simp add: SetTxPointState_def)
  note up = UpdateOne_res [OF this]
  show ?thesis
  proof (cases r)
    case (Ok u)
    then obtain n where n: "n < length ?ds" "matches (point_key t i ty) (?ds ! n)"
      and d: "docs w' = (docs w)(TBL_TX_POINT := ?ds[n := set_fields [(STATE, BInt s)] (?ds ! n)])"
      and u: "uniq w' = uniq w" using up by auto
    have len: "n < length ?pts" using n(1) enc by (metis length_map)
    then have dn: "?ds ! n = doc_of_TxPoint (?pts ! n)" using enc by (metis nth_map)
    have id: "point_id (?pts ! n) = (t, i, ty)" using n(2) unfolding dn by (simp add: matches_point_key)
    have ds': "docs w' TBL_TX_POINT = map doc_of_TxPoint (?pts[n := (?pts ! n)\<lparr>State := s\<rparr>])"
      unfolding d dn set_state_doc_of_TxPoint by (simp add: enc [symmetric] map_update)
    then have pts': "points_of (docs w') = ?pts[n := (?pts ! n)\<lparr>State := s\<rparr>]"
      unfolding points_of_def by (simp add: comp_def)
    have "map point_id (?pts[n := (?pts ! n)\<lparr>State := s\<rparr>]) = map point_id ?pts"
      using len by (simp add: map_update list_update_same_conv point_id_def)
    then have "distinct (map point_id (points_of (docs w')))" using wf pts' by (metis wf_db_def)
    then have "wf_db (docs w') (uniq w')"
      using wf u ds' by (auto simp: wf_db_def d)
    then show ?thesis using Ok len id pts' by auto
  qed (use up wf in auto)
qed

end

lemma marks_ok_append:
  assumes g: "good env S pts" and dist: "distinct (map point_id (pts @ qs))" and m: "marks_ok pts"
    and new: "\<forall>p \<in> set qs. State p = TX_POINT_STATE_MAY_BE_UNSPENT"
  shows "marks_ok (pts @ qs)"
proof -
  have sure: "p \<in> set pts" if "State p = TX_POINT_STATE_PRETTY_SURE_SPENT" "p \<in> set (pts @ qs)" for p
    using that new by (auto simp: tx_point_consts)
  have old: "p \<in> set pts" if q: "q \<in> set pts" and pq: "mirror_of p q" and p: "p \<in> set (pts @ qs)" for p q
  proof -
    obtain t i vin p' where sp: "spent_point pts vin = Some p'" and pre: "PreTxid q = Txid p'" "PreIndex q = Index p'"
      using good_vin [OF g q] pq unfolding mirror_of_def by blast
    have p': "p' \<in> set pts" "point_id p' = point_id p"
      using spent_point_SomeD [OF sp] pq pre by (auto simp: mirror_of_def point_id_def vin_id_def)
    have "inj_on point_id (set (pts @ qs))" using dist by (simp only: distinct_map)
    moreover have "p' \<in> set (pts @ qs)" using p'(1) by simp
    ultimately have "p' = p" using p p'(2) by (meson inj_onD)
    then show ?thesis using p'(1) by simp
  qed
  show ?thesis
    unfolding marks_ok_def
  proof (intro conjI ballI impI)
    show "State p \<in> {TX_POINT_STATE_MAY_BE_UNSPENT, TX_POINT_STATE_PRETTY_SURE_SPENT}" if "p \<in> set (pts @ qs)" for p
      using that m new by (auto simp: marks_ok_def)
    show "State p = TX_POINT_STATE_PRETTY_SURE_SPENT" if "q \<in> set (pts @ qs)" "p \<in> set (pts @ qs)" "mirror_of p q"
      "State q = TX_POINT_STATE_PRETTY_SURE_SPENT" for p q
      using sure [OF that(4,1)] old [of q p] that m unfolding marks_ok_def by blast
    show "\<exists>q \<in> set (pts @ qs). mirror_of p q" if "p \<in> set (pts @ qs)" "Type p = TX_POINT_TYPE_VOUT"
      "State p = TX_POINT_STATE_PRETTY_SURE_SPENT" for p
      using sure [OF that(3,1)] that m unfolding marks_ok_def by auto
  qed
qed

text \<open>Marking an output that a stored input spends, and then the input, keeps the marks consistent.\<close>

lemma marks_ok_mark:
  assumes m: "marks_ok pts" and n: "n < length pts" and dist: "distinct (map point_id pts)"
    and ok: "Type (pts ! n) = TX_POINT_TYPE_VOUT \<and> (\<exists>q \<in> set pts. mirror_of (pts ! n) q) \<or>
      Type (pts ! n) = TX_POINT_TYPE_VIN \<and>
        (\<forall>p \<in> set pts. mirror_of p (pts ! n) \<longrightarrow> State p = TX_POINT_STATE_PRETTY_SURE_SPENT)"
  shows "marks_ok (pts[n := (pts ! n)\<lparr>State := TX_POINT_STATE_PRETTY_SURE_SPENT\<rparr>])"
proof -
  let ?f = "\<lambda>p. if p = pts ! n then p\<lparr>State := TX_POINT_STATE_PRETTY_SURE_SPENT\<rparr> else p"
  have "pts[n := (pts ! n)\<lparr>State := TX_POINT_STATE_PRETTY_SURE_SPENT\<rparr>] = map ?f pts"
    using n dist by (auto simp: distinct_map nth_list_update nth_eq_iff_index_eq intro!: nth_equalityI)
  moreover have mir: "mirror_of (?f p) (?f q) = mirror_of p q" for p q
    by (simp add: mirror_of_def point_id_def)
  have tyf: "Type (?f p) = Type p" for p by simp
  have "marks_ok (map ?f pts)"
    unfolding marks_ok_def
  proof (intro conjI)
    show "\<forall>p \<in> set (map ?f pts). State p \<in> {TX_POINT_STATE_MAY_BE_UNSPENT, TX_POINT_STATE_PRETTY_SURE_SPENT}"
      using m by (auto simp: marks_ok_def)
    have "State (?f p) = TX_POINT_STATE_PRETTY_SURE_SPENT" if "q \<in> set pts" "p \<in> set pts" "mirror_of p q"
      "State (?f q) = TX_POINT_STATE_PRETTY_SURE_SPENT" for p q
      using that ok m by (cases "q = pts ! n") (auto simp: marks_ok_def mirror_of_def tx_point_consts)
    then show "\<forall>q \<in> set (map ?f pts). \<forall>p \<in> set (map ?f pts). mirror_of p q \<longrightarrow>
        State q = TX_POINT_STATE_PRETTY_SURE_SPENT \<longrightarrow> State p = TX_POINT_STATE_PRETTY_SURE_SPENT"
      unfolding set_map ball_simps mir by blast
    have "\<exists>q \<in> set pts. mirror_of p q" if "p \<in> set pts" "Type p = TX_POINT_TYPE_VOUT"
      "State (?f p) = TX_POINT_STATE_PRETTY_SURE_SPENT" for p
      using that ok m by (cases "p = pts ! n") (auto simp: marks_ok_def tx_point_consts)
    then show "\<forall>p \<in> set (map ?f pts). Type p = TX_POINT_TYPE_VOUT \<longrightarrow>
        State p = TX_POINT_STATE_PRETTY_SURE_SPENT \<longrightarrow> (\<exists>q \<in> set (map ?f pts). mirror_of p q)"
      unfolding set_map ball_simps bex_simps mir tyf by blast
  qed
  ultimately show ?thesis by simp
qed


section \<open>The invariant of the history\<close>

definition ledger_inv ::
  "('w, 'a) env \<Rightarrow> MsgTx set \<Rightarrow> ('w \<Rightarrow> string \<Rightarrow> doc list) \<Rightarrow> ('w \<Rightarrow> string \<Rightarrow> string list set) \<Rightarrow> 'w \<Rightarrow> bool" where
  "ledger_inv env S docs uniq w \<longleftrightarrow>
     wf_db (docs w) (uniq w) \<and> good env S (points_of (docs w)) \<and> marks_ok (points_of (docs w))"

lemma parse_spec_state:
  assumes "parse_spec env pts st t ts = Ok invt" "p \<in> set (Vins invt @ Vouts invt)"
  shows "State p = TX_POINT_STATE_MAY_BE_UNSPENT"
  by (rule parse_spec_cases [OF assms(1)]) (use assms(2) in \<open>auto simp: vin_point_def vout_point_def\<close>)

lemma set_add_new_subset: "set (add_new pts ps) \<subseteq> set pts \<union> set ps"
  using add_new_extends [of pts ps] by auto

context mongo
begin

lemma ledger_inv_process:
  assumes inv: "ledger_inv env S docs uniq w" and "Db env = drv" and lib: "addr_lib_ok (AddrL env)"
    and nd: "no_double_spend S" and inj: "inj_on (TxHash (TxL env)) S" and t: "t \<in> S"
    and run: "ProcessMsgTx env t ts w = (r, w')"
  shows "ledger_inv env S docs uniq w'"
proof -
  let ?pts = "points_of (docs w)"
  have wf: "wf_db (docs w) (uniq w)" and g: "good env S ?pts" and m: "marks_ok ?pts"
    using inv by (auto simp: ledger_inv_def)
  have no: "no_overflow ?pts t" by (rule good_no_overflow [OF g nd inj t])
  have new: "wf_db (docs w') (uniq w') \<and> good env S (points_of (docs w'))"
    by (rule led.good_ProcessMsgTx [OF assms(2) wf lib g nd inj t run])
  have "marks_ok (points_of (docs w'))"
  proof (cases "parse_spec env ?pts (txstate_of (docs w)) t ts")
    case (Ok invt)
    then obtain k where k: "points_of (docs w') = add_new ?pts (take k (Vins invt @ Vouts invt))"
      using led.ProcessMsgTx_points [OF assms(2) wf lib no run] by auto
    then obtain qs where qs: "points_of (docs w') = ?pts @ qs" "set qs \<subseteq> set (take k (Vins invt @ Vouts invt))"
      using add_new_extends by metis
    have "State p = TX_POINT_STATE_MAY_BE_UNSPENT" if "p \<in> set qs" for p
      using parse_spec_state [OF Ok] qs(2) that in_set_takeD by (metis subsetD)
    moreover have "distinct (map point_id (?pts @ qs))" using new qs(1) by (metis wf_db_def)
    ultimately show ?thesis unfolding qs(1) using marks_ok_append [OF g _ m] by blast
  qed (use led.ProcessMsgTx_points [OF assms(2) wf lib no run] m in auto)
  then show ?thesis using new by (simp add: ledger_inv_def)
qed

lemma marked_point:
  assumes inv: "ledger_inv env S docs uniq w"
    and run: "SetTxPointState drv t i ty TX_POINT_STATE_PRETTY_SURE_SPENT w = (r, w')"
    and ty: "ty = TX_POINT_TYPE_VOUT \<or> ty = TX_POINT_TYPE_VIN"
    and ok: "\<And>n. n < length (points_of (docs w)) \<Longrightarrow> point_id (points_of (docs w) ! n) = (t, i, ty) \<Longrightarrow>
      ty = TX_POINT_TYPE_VOUT \<and> (\<exists>q \<in> set (points_of (docs w)). mirror_of (points_of (docs w) ! n) q) \<or>
      ty = TX_POINT_TYPE_VIN \<and> (\<forall>p \<in> set (points_of (docs w)). mirror_of p (points_of (docs w) ! n) \<longrightarrow>
        State p = TX_POINT_STATE_PRETTY_SURE_SPENT)"
  shows "ledger_inv env S docs uniq w' \<and>
    map nostate (points_of (docs w')) = map nostate (points_of (docs w)) \<and>
    (r = Ok () \<longrightarrow> (\<forall>p \<in> set (points_of (docs w')). point_id p = (t, i, ty) \<longrightarrow>
       State p = TX_POINT_STATE_PRETTY_SURE_SPENT))"
proof -
  let ?pts = "points_of (docs w)"
  have wf: "wf_db (docs w) (uniq w)" and g: "good env S ?pts" and m: "marks_ok ?pts"
    using inv by (auto simp: ledger_inv_def)
  have dist: "distinct (map point_id ?pts)" using wf by (simp add: wf_db_def)
  have "ty \<noteq> TX_POINT_TYPE_ALL" using ty by (auto simp: tx_point_consts)
  note res = SetTxPointState_res [OF wf this run]
  show ?thesis
  proof (cases r)
    case (Ok u)
    then obtain n where n: "n < length ?pts" "point_id (?pts ! n) = (t, i, ty)"
      and p': "points_of (docs w') = ?pts[n := (?pts ! n)\<lparr>State := TX_POINT_STATE_PRETTY_SURE_SPENT\<rparr>]"
      using res by auto
    have ns: "map nostate (points_of (docs w')) = map nostate ?pts" unfolding p' by (rule nostate_update [OF n(1)])
    have "marks_ok (points_of (docs w'))"
      unfolding p' using ok [OF n] n(2) by (intro marks_ok_mark [OF m n(1) dist]) (auto simp: point_id_def)
    moreover have "good env S (points_of (docs w'))" by (rule good_same_points [OF ns g])
    moreover have "State p = TX_POINT_STATE_PRETTY_SURE_SPENT"
      if p: "p \<in> set (points_of (docs w'))" "point_id p = (t, i, ty)" for p
    proof -
      obtain k where k: "k < length ?pts" "p = points_of (docs w') ! k" using p(1) p' by (auto simp: in_set_conv_nth)
      have "point_id (?pts ! k) = point_id p" using k n(1) unfolding p' by (auto simp: nth_list_update point_id_def)
      then have "k = n" using dist k(1) n p(2) by (metis length_map nth_eq_iff_index_eq nth_map)
      then show ?thesis using k n(1) p' by simp
    qed
    ultimately show ?thesis using res ns by (auto simp: ledger_inv_def)
  next
    case (Fail e)
    then show ?thesis using res inv by (auto simp: ledger_inv_def)
  next
    case (Stop x)
    then show ?thesis using res by simp
  qed
qed

lemma set_spent_handle_keeps:
  assumes inv: "ledger_inv env S docs uniq w" and "Db env = drv"
    and q: "Type q = TX_POINT_TYPE_VIN" "nostate q \<in> nostate ` set (points_of (docs w))"
    and run: "set_spent_handle env h q w = (r, w')"
  shows "ledger_inv env S docs uniq w' \<and> map nostate (points_of (docs w')) = map nostate (points_of (docs w))"
proof -
  let ?sure = TX_POINT_STATE_PRETTY_SURE_SPENT
  obtain b w1 where b: "GetMsgTxBriefInfo drv (Txid q) w = (b, w1)" by fastforce
  have wf: "wf_db (docs w) (uniq w)" using inv by (simp add: ledger_inv_def)
  have s1: "docs w1 = docs w" "uniq w1 = uniq w"
    using GetMsgTxBriefInfo_res [OF wf b] by (auto simp: same_def)
  then have inv1: "ledger_inv env S docs uniq w1" using inv by (simp add: ledger_inv_def)
  obtain c w2 where c: "SetTxPointState drv (PreTxid q) (PreIndex q) TX_POINT_TYPE_VOUT ?sure w1 = (c, w2)" by fastforce
  obtain d w3 where d: "SetTxPointState drv (Txid q) (Index q) TX_POINT_TYPE_VIN ?sure w2 = (d, w3)" by fastforce
  have w': "w' \<in> {w1, w2} \<or> c = Ok () \<and> w' = w3"
    using run b c d unfolding set_spent_handle_def assms(2)
    by (cases b; cases c; cases d) (auto simp: andThen_def attempt_def ret_def fail_def split: if_splits)
  obtain q0 where q0: "q0 \<in> set (points_of (docs w))" "nostate q0 = nostate q" using q(2) by auto
  then have qq: "Type q0 = Type q" "PreTxid q0 = PreTxid q" "PreIndex q0 = PreIndex q" "point_id q0 = point_id q"
    by (metis nostate_simps)+
  have two: "ledger_inv env S docs uniq w2 \<and> map nostate (points_of (docs w2)) = map nostate (points_of (docs w1)) \<and>
      (c = Ok () \<longrightarrow> (\<forall>p \<in> set (points_of (docs w2)). point_id p = (PreTxid q, PreIndex q, TX_POINT_TYPE_VOUT) \<longrightarrow>
         State p = ?sure))"
    by (rule marked_point [OF inv1 c])
       (use q0(1) qq q(1) s1 in \<open>auto simp: mirror_of_def intro!: bexI [of _ q0]\<close>)
  have three: "ledger_inv env S docs uniq w3 \<and> map nostate (points_of (docs w3)) = map nostate (points_of (docs w2))"
    if ok: "c = Ok ()"
  proof -
    have "State p = ?sure" if n: "n < length (points_of (docs w2))"
      "point_id (points_of (docs w2) ! n) = (Txid q, Index q, TX_POINT_TYPE_VIN)"
      and p: "p \<in> set (points_of (docs w2))" "mirror_of p (points_of (docs w2) ! n)" for n p
    proof -
      let ?x = "points_of (docs w2) ! n"
      have "nostate ?x \<in> set (map nostate (points_of (docs w2)))" using n(1) by simp
      then obtain x where x: "x \<in> set (points_of (docs w))" "nostate x = nostate ?x"
        using two s1 by auto
      have "point_id x = point_id q0"
        using x(2) n(2) qq q(1) by (metis nostate_simps(9) point_id_def)
      then have "x = q0" using x(1) q0(1) wf unfolding wf_db_def distinct_map by (meson inj_onD)
      then have "PreTxid ?x = PreTxid q" "PreIndex ?x = PreIndex q"
        using x(2) qq by (metis nostate_simps(7,8))+
      then show ?thesis using two ok p by (auto simp: mirror_of_def)
    qed
    then show ?thesis using marked_point [OF _ d, of env S] two by blast
  qed
  show ?thesis using w' inv1 two three s1 by auto
qed

lemma Foreach_invariant:
  assumes run: "Foreach drv c q handle w = (r, w')" and start: "I w"
    and same: "\<And>v v'. same v v' \<Longrightarrow> I v \<Longrightarrow> I v'"
    and step: "\<And>d v r v'. d \<in> set (docs w c) \<Longrightarrow> matches q d \<Longrightarrow> handle d v = (r, v') \<Longrightarrow> I v \<Longrightarrow> I v'"
  shows "I w'"
  using run unfolding Foreach_def
proof (cases rule: Exec_res)
  case (session w1)
  obtain ds eo w2 where it: "mgo_iter drv c q w1 = ((ds, eo), w2)" by (metis prod.exhaust)
  note i = iter [OF it]
  have sub: "d \<in> set (docs w c) \<and> matches q d" if "d \<in> set ds" for d
  proof -
    have sub: "mset ds \<subseteq># mset (filter (matches q) (docs w1 c))" and d: "d \<in># mset ds" using i that by simp_all
    have "d \<in># mset (filter (matches q) (docs w1 c))" by (rule mset_subset_eqD [OF sub d])
    then show ?thesis using session(1) by (simp add: same_def)
  qed
  have start2: "I w2" using same [of w w2] session(1) i start by (simp add: same_def)
  have fin: "I v" if "for_each handle ds w2 = (q', v)" for q' v
    by (rule for_each_invariant [where I = I, OF _ that start2]) (use sub step in blast)
  have "attempt (for_each handle ds) fail (\<lambda>_. case eo of None \<Rightarrow> ret () | Some e \<Rightarrow> fail e) w2 = (r, w')"
    using session(2) it by (simp add: andThen_def)
  then show ?thesis
    by (cases rule: attempt_eqE) (use fin in \<open>auto simp: go_simps split: option.splits\<close>)
next
  case no_session
  then show ?thesis using same start by blast
qed

lemma SetSpent_keeps:
  assumes inv: "ledger_inv env S docs uniq w" and db: "Db env = drv" and api: "mapi_ok docs uniq client"
    and run: "SetSpent env client now w = (r, w')"
  shows "ledger_inv env S docs uniq w' \<and> map nostate (points_of (docs w')) = map nostate (points_of (docs w))"
proof -
  let ?I = "\<lambda>v. ledger_inv env S docs uniq v \<and> map nostate (points_of (docs v)) = map nostate (points_of (docs w))"
  have I_same: "?I v'" if "docs v' = docs v" "uniq v' = uniq v" "?I v" for v v'
    using that by (simp add: ledger_inv_def)
  have start: "?I w" using inv by simp
  from run show ?thesis unfolding SetSpent_def andThen_def
  proof (cases rule: attempt_eqE)
    case (Ok fq w1)
    have d1: "docs w1 = docs w" "uniq w1 = uniq w" using api Ok(1) by (auto simp: mapi_ok_def)
    show ?thesis
    proof (rule Foreach_invariant [where I = ?I, OF Ok(2) [unfolded ForearchUnspentVinTxPoint_def db]])
      show "?I w1" by (rule I_same [OF d1 start])
      show "?I v'" if "same v v'" "?I v" for v v' using I_same [of v' v] that by (simp add: same_def)
    next
      fix d v q v'
      assume d: "d \<in> set (docs w1 TBL_TX_POINT)"
        and m: "matches [QLt TIMESTAMP (sub64 now (60 * 60)), QEq STATE (BInt TX_POINT_STATE_MAY_BE_UNSPENT),
          QEq TYPE_FIELD (BInt TX_POINT_TYPE_VIN)] d"
        and h: "set_spent_handle env (CurrentHighestBlockHeight (Fq_Payload fq)) (TxPoint_of_doc d) v = (q, v')"
        and I: "?I v"
      have "TxPoint_of_doc d \<in> set (points_of (docs w))" using d d1 by (simp add: points_of_def)
      then have "nostate (TxPoint_of_doc d) \<in> set (map nostate (points_of (docs w)))" by simp
      then have "nostate (TxPoint_of_doc d) \<in> nostate ` set (points_of (docs v))" using I by (metis set_map)
      moreover have "Type (TxPoint_of_doc d) = TX_POINT_TYPE_VIN"
        using m by (simp add: matches_def TxPoint_of_doc_def get_int_def)
      ultimately show "?I v'" using set_spent_handle_keeps [OF _ db _ _ h] I by metis
    qed
  next
    case (Fail e w1)
    then show ?thesis using I_same [OF _ _ start] api by (auto simp: mapi_ok_def fail_def)
  next
    case (Stop x)
    then show ?thesis using I_same [OF _ _ start] api by (auto simp: mapi_ok_def)
  qed
qed

text \<open>Every step keeps the invariant, so every reachable state has it.\<close>

lemma ledger_inv_step:
  assumes "ledger_step env client S w w'" and inv: "ledger_inv env S docs uniq w"
    and env: "Db env = drv" "addr_lib_ok (AddrL env)" "mapi_ok docs uniq client"
    and S: "no_double_spend S" "inj_on (TxHash (TxL env)) S"
  shows "ledger_inv env S docs uniq w'"
  using assms(1)
proof cases
  case (add t height hash ts r)
  then show ?thesis using AddMsgTxInfo_keeps inv env(1) by (auto simp: ledger_inv_def)
next
  case (process t ts rp)
  then show ?thesis by (intro ledger_inv_process [OF inv env(1,2) S])
next
  case (register now appid userid userIndex addr r)
  then show ?thesis using SetAddrInfo_keeps [OF _ env(1)] inv by (auto simp: ledger_inv_def)
next
  case (mark now r)
  then show ?thesis using SetSpent_keeps [OF inv env(1,3)] by blast
next
  case (move txid height hash r)
  then show ?thesis using SetMsgTxHeightHash_keeps inv env(1) by (auto simp: ledger_inv_def)
qed

lemma ledger_inv_reachable:
  assumes run: "(ledger_step env client S)\<^sup>*\<^sup>* w0 w"
    and start: "wf_db (docs w0) (uniq w0)" "points_of (docs w0) = []"
    and env: "Db env = drv" "addr_lib_ok (AddrL env)" "mapi_ok docs uniq client"
    and S: "no_double_spend S" "inj_on (TxHash (TxL env)) S"
  shows "ledger_inv env S docs uniq w"
  using run
proof (induction rule: rtranclp_induct)
  case base
  then show ?case using start by (simp add: ledger_inv_def good_Nil marks_ok_def)
next
  case (step v v')
  then show ?case using ledger_inv_step [OF _ _ env S] by blast
qed

text \<open>Points are only added, and marked as spent.\<close>

lemma points_grow:
  assumes "ledger_step env client S w w'" and inv: "ledger_inv env S docs uniq w"
    and env: "Db env = drv" "addr_lib_ok (AddrL env)" "mapi_ok docs uniq client"
    and S: "no_double_spend S" "inj_on (TxHash (TxL env)) S"
  shows "prefix (map nostate (points_of (docs w))) (map nostate (points_of (docs w')))"
  using assms(1)
proof cases
  case (add t height hash ts r)
  then show ?thesis using AddMsgTxInfo_keeps inv env(1) by (auto simp: ledger_inv_def)
next
  case (process t ts rp)
  have wf: "wf_db (docs w) (uniq w)" and g: "good env S (points_of (docs w))" using inv by (auto simp: ledger_inv_def)
  note pts = led.ProcessMsgTx_points [OF env(1) wf env(2) good_no_overflow [OF g S process(1)] process(2)]
  show ?thesis
  proof (cases "parse_spec env (points_of (docs w)) (txstate_of (docs w)) t ts")
    case (Ok invt)
    then obtain k where "points_of (docs w') = add_new (points_of (docs w)) (take k (Vins invt @ Vouts invt))" using pts by auto
    then show ?thesis using add_new_extends [of "points_of (docs w)" "take k (Vins invt @ Vouts invt)"] by auto
  qed (use pts in auto)
next
  case (register now appid userid userIndex addr r)
  then show ?thesis using SetAddrInfo_keeps [OF _ env(1)] inv by (auto simp: ledger_inv_def)
next
  case (mark now r)
  then show ?thesis using SetSpent_keeps [OF inv env(1,3)] by simp
next
  case (move txid height hash r)
  then show ?thesis using SetMsgTxHeightHash_keeps inv env(1) by (auto simp: ledger_inv_def)
qed

lemma points_grow_reachable:
  assumes run: "(ledger_step env client S)\<^sup>*\<^sup>* w w'" and inv: "ledger_inv env S docs uniq w"
    and env: "Db env = drv" "addr_lib_ok (AddrL env)" "mapi_ok docs uniq client"
    and S: "no_double_spend S" "inj_on (TxHash (TxL env)) S"
  shows "ledger_inv env S docs uniq w' \<and> prefix (map nostate (points_of (docs w))) (map nostate (points_of (docs w')))"
  using run
proof (induction rule: rtranclp_induct)
  case base
  then show ?case using inv by simp
next
  case (step v v')
  then show ?case using ledger_inv_step [OF step(2) _ env S] points_grow [OF step(2) _ env S] prefix_order.trans by blast
qed

text \<open>Once its points are stored, a transaction can be processed again without effect.\<close>

lemma process_again:
  assumes env: "Db env = drv" "addr_lib_ok (AddrL env)" and S: "no_double_spend S" "inj_on (TxHash (TxL env)) S"
    and inv: "ledger_inv env S docs uniq w" "ledger_inv env S docs uniq w2" and t: "t \<in> S"
    and run: "ProcessMsgTx env t ts w = (Ok invt, w1)"
    and grow: "prefix (map nostate (points_of (docs w1))) (map nostate (points_of (docs w2)))"
    and run2: "ProcessMsgTx env t ts' w2 = (r, w3)"
  shows "points_of (docs w3) = points_of (docs w2)"
proof -
  let ?p = "points_of (docs w)" and ?p1 = "points_of (docs w1)" and ?p2 = "points_of (docs w2)"
  have wf: "wf_db (docs w) (uniq w)" "wf_db (docs w2) (uniq w2)" and g: "good env S ?p" "good env S ?p2"
    using inv by (auto simp: ledger_inv_def)
  obtain i1 where i1: "parse_spec env ?p (txstate_of (docs w)) t ts = Ok i1" and p1: "?p1 = add_new ?p (Vins i1 @ Vouts i1)"
    using led.ProcessMsgTx_points [OF env(1) wf(1) env(2) good_no_overflow [OF g(1) S t] run]
    by (cases "parse_spec env ?p (txstate_of (docs w)) t ts") auto
  obtain qs where "?p1 = ?p @ qs" using add_new_extends p1 by metis
  then obtain rs where p2: "map nostate ?p2 = map nostate ?p @ rs" using grow by (auto simp: prefix_def)
  have "parse_spec env (map nostate ?p) (txstate_of (docs w)) t ts = Ok i1" by (simp add: parse_spec_nostate i1)
  from parse_spec_append [OF this, of rs "txstate_of (docs w2)"]
  have "parse_spec env ?p2 (txstate_of (docs w2)) t ts = Ok i1" by (metis p2 parse_spec_nostate)
  then obtain i2 where i2: "parse_spec env ?p2 (txstate_of (docs w2)) t ts' = Ok i2"
    "map strip (Vins i1 @ Vouts i1) = map strip (Vins i2 @ Vouts i2)"
    using parse_spec_restamp by blast
  have "map (point_id \<circ> strip) (Vins i1 @ Vouts i1) = map (point_id \<circ> strip) (Vins i2 @ Vouts i2)"
    using i2(2) by (metis list.map_comp)
  then have "point_id ` set (Vins i1 @ Vouts i1) = point_id ` set (Vins i2 @ Vouts i2)"
    by (simp add: comp_def) (metis image_Un set_append set_map map_append)
  moreover have "point_id ` set ?p1 \<subseteq> point_id ` set ?p2"
  proof -
    have "set (map nostate ?p1) \<subseteq> set (map nostate ?p2)" using grow by (rule set_mono_prefix)
    then have "point_id ` nostate ` set ?p1 \<subseteq> point_id ` nostate ` set ?p2" by (simp add: image_mono)
    then show ?thesis by (simp add: image_image)
  qed
  ultimately have "point_id ` set (take k (Vins i2 @ Vouts i2)) \<subseteq> point_id ` set ?p2" for k
    using add_new_ids [of ?p "Vins i1 @ Vouts i1"] p1 by (auto dest!: in_set_takeD)
  then show ?thesis
    using led.ProcessMsgTx_points [OF env(1) wf(2) env(2) good_no_overflow [OF g(2) S t] run2] i2(1) add_new_present by auto
qed

text \<open>The queries on a state with the invariant.\<close>

lemma utxo_total:
  assumes inv: "ledger_inv env S docs uniq w" and nd: "no_double_spend S"
    and us: "mset us = mset (CalculateUtxos (filter (\<lambda>p. Addr p \<in> A \<and>
      point_matches c TX_POINT_STATE_MAY_BE_UNSPENT p) (points_of (docs w))))"
    and A: "finite A"
  shows "sum_list (map Value us) = (\<Sum>a \<in> A. balance (points_of (docs w)) a c) \<and>
    sum_list (map Value us) \<le> MAX_CREATE_BADGE_VALUE \<and> list_all (\<lambda>p. 0 \<le> Value p) us"
proof -
  let ?pts = "points_of (docs w)"
  have g: "good env S ?pts" and m: "marks_ok ?pts" using inv by (auto simp: ledger_inv_def)
  have ms: "mset us = mset (filter (\<lambda>p. Addr p \<in> A \<and> BadgeCode p = c) (CalculateUtxos ?pts))"
    using us unmarked_utxos [OF g m, of "\<lambda>a. a \<in> A" c] by simp
  then have "sum_list (map Value us) =
      sum_list (map Value (filter (\<lambda>p. Addr p \<in> A \<and> BadgeCode p = c) (CalculateUtxos ?pts)))"
    by (subst (1 2) sum_mset_sum_list [symmetric]) (simp only: mset_map)
  also have "\<dots> = sum_list (map Value (filter (\<lambda>p. Addr p \<in> A \<and> BadgeCode p = c) ?pts))"
    by (rule good_utxo_sum [OF g nd, of "\<lambda>a b. a \<in> A \<and> b = c"])
  also have "\<dots> = (\<Sum>a \<in> A. sum_list (map Value (filter (\<lambda>p. Addr p = a)
      (filter (\<lambda>p. Addr p \<in> A \<and> BadgeCode p = c) ?pts))))"
    by (rule sum_list_group [OF _ A]) auto
  also have "\<dots> = (\<Sum>a \<in> A. balance ?pts a c)"
    unfolding balance_def filter_filter
    by (intro sum.cong refl arg_cong [where f = "\<lambda>ps. sum_list (map Value ps)"] filter_cong) auto
  finally have sum: "sum_list (map Value us) = (\<Sum>a \<in> A. balance ?pts a c)" .
  have pos: "0 \<le> balance ?pts a c" for a using good_balance [OF g nd] by blast
  have "(\<Sum>a \<in> A. balance ?pts a c) \<le> (\<Sum>a \<in> A \<union> Addr ` set ?pts. balance ?pts a c)"
    by (rule sum_mono2) (use A pos in auto)
  also have "\<dots> = total_supply ?pts c"
    unfolding total_supply_def balance_def
    by (subst sum_list_group [of Addr _ "A \<union> Addr ` set ?pts"]) (use A in \<open>auto simp: conj_commute\<close>)
  also have "\<dots> \<le> MAX_CREATE_BADGE_VALUE" using good_supply [OF g] by (simp add: MAX_CREATE_BADGE_VALUE_def)
  finally have "sum_list (map Value us) \<le> MAX_CREATE_BADGE_VALUE" using sum by simp
  moreover have "0 \<le> Value p" if "p \<in> set us" for p
  proof -
    have "p \<in> set (filter (\<lambda>p. Addr p \<in> A \<and> BadgeCode p = c) (CalculateUtxos ?pts))"
      using that ms by (metis set_mset_mset)
    then have "p \<in> set ?pts" "Type p = TX_POINT_TYPE_VOUT" by (auto simp: CalculateUtxos_eq)
    then show ?thesis using good_type_value [OF g, of p] by (auto simp: tx_point_consts)
  qed
  ultimately show ?thesis using sum by (simp add: list_all_iff)
qed

lemma utxo_balance:
  assumes "ledger_inv env S docs uniq w" "no_double_spend S"
    and "mset us = mset (CalculateUtxos (filter (\<lambda>p. Addr p \<in> A \<and>
      point_matches c TX_POINT_STATE_MAY_BE_UNSPENT p) (points_of (docs w))))"
    and "finite A"
  shows "SumTxPoints us = (\<Sum>a \<in> A. balance (points_of (docs w)) a c)"
proof -
  note t = utxo_total [OF assms]
  have "0 \<le> sum_list (map Value us)" by (rule sum_list_nonneg) (use t in \<open>auto simp: list_all_iff\<close>)
  then have "is_int64 (sum_list (map Value us))" using t by (simp add: is_int64_nonneg MAX_CREATE_BADGE_VALUE_def)
  then show ?thesis using t by (simp add: SumTxPoints_eq wrap64_id)
qed

lemma addr_balance:
  assumes db: "Db env = drv" and i: "ledger_inv env S docs uniq w" "no_double_spend S"
    and run: "GetAddrBalance env addr code w = (r, w')"
  shows "docs w' = docs w \<and> (r = Ok (balance (points_of (docs w)) addr code) \<or>
    (\<exists>e. r = Fail e \<and> \<not> mongo_up drv docs uniq))"
proof -
  have wf: "wf_db (docs w) (uniq w)" using i(1) by (simp add: ledger_inv_def)
  note res = GetAllAddrUtxos_res [OF wf db]
  from run show ?thesis unfolding GetAddrBalance_def andThen_def
  proof (cases rule: attempt_eqE)
    case (Ok us w1)
    have "SumTxPoints us = (\<Sum>a \<in> {addr}. balance (points_of (docs w)) a code)"
      by (rule utxo_balance [OF i]) (use res [OF Ok(1)] in simp_all)
    then show ?thesis using Ok(2) res [OF Ok(1)] by (simp add: ret_def same_def)
  next
    case (Fail e w1)
    have "\<not> mongo_up drv docs uniq"
      using Fail(1) unfolding GetAllAddrUtxos_def GetTxPointsByAddr_def Let_def db
      by (auto simp: go_simps mongo_up.GetAll_up elim!: attempt_eqE)
    then show ?thesis using Fail(2) res [OF Fail(1)] by (auto simp: fail_def same_def)
  next
    case (Stop x)
    then show ?thesis using res [OF Stop(1)] by simp
  qed
qed

lemma user_balance:
  assumes db: "Db env = drv" and i: "ledger_inv env S docs uniq w" "no_double_spend S" and addrs: "wf_addrs (docs w) (uniq w)"
    and run: "GetUserBalance env appid userid userIndex code w = (r, w')"
  shows "docs w' = docs w \<and>
    (r = Ok (\<Sum>a \<in> Info_Addr ` set (filter (owns appid userid userIndex) (addrs_of (docs w))).
       balance (points_of (docs w)) a code) \<or>
     (\<exists>e. r = Fail e \<and> \<not> mongo_up drv docs uniq))"
proof -
  have wf: "wf_db (docs w) (uniq w)" using i(1) by (simp add: ledger_inv_def)
  note res = GetAllUserUtxos_res [OF wf addrs db]
  from run show ?thesis unfolding GetUserBalance_def andThen_def
  proof (cases rule: attempt_eqE)
    case (Ok us w1)
    have "SumTxPoints us = (\<Sum>a \<in> Info_Addr ` set (filter (owns appid userid userIndex) (addrs_of (docs w))).
        balance (points_of (docs w)) a code)"
      by (rule utxo_balance [OF i]) (use res [OF Ok(1)] in simp_all)
    then show ?thesis using Ok(2) res [OF Ok(1)] by (simp add: ret_def same_def)
  next
    case (Fail e w1)
    have "\<not> mongo_up drv docs uniq"
      using Fail(1) unfolding GetAllUserUtxos_def GetUserTxPoints_def db
      by (auto simp: go_simps mongo_up.AggregateAll_up elim!: attempt_eqE)
    then show ?thesis using Fail(2) res [OF Fail(1)] by (auto simp: fail_def same_def)
  next
    case (Stop x)
    then show ?thesis using res [OF Stop(1)] by simp
  qed
qed

end


section \<open>Properties\<close>

text \<open>
  The start of a history: an empty ledger with its indexes, libraries that behave as
  documented, and a set of transactions in which no output is spent twice and
  different transactions have different hashes.
\<close>

definition ledger_start :: "('w, 'a) env \<Rightarrow> 'w MapiClient \<Rightarrow> MsgTx set \<Rightarrow> ('w \<Rightarrow> string \<Rightarrow> doc list) \<Rightarrow>
    ('w \<Rightarrow> string \<Rightarrow> string list set) \<Rightarrow> 'w \<Rightarrow> bool" where
  "ledger_start env client S docs uniq w0 \<longleftrightarrow>
     wf_db (docs w0) (uniq w0) \<and> points_of (docs w0) = [] \<and> addr_lib_ok (AddrL env) \<and>
     mapi_ok docs uniq client \<and> no_double_spend S \<and> inj_on (TxHash (TxL env)) S"

lemma reachable_inv:
  assumes "mongo (Db env) docs uniq" "ledger_start env client S docs uniq w0"
    "(ledger_step env client S)\<^sup>*\<^sup>* w0 w"
  shows "ledger_inv env S docs uniq w" "no_double_spend S"
  using mongo.ledger_inv_reachable [OF assms(1,3) _ _ refl] assms(2) by (auto simp: ledger_start_def)

text \<open>A history for the witnesses: an issue of 100 and a payment of 60, then the marking job.\<close>

definition demo_cert :: MapiCertInfo where
  "demo_cert = \<lparr>Signature = [], PublicKey = [], Encoding = [], Mimetype = []\<rparr>"

definition demo_quote :: FeeQuotePayload where
  "demo_quote = \<lparr>Fq_ApiVersion = [], Fq_Timestamp = [], Fq_ExpiryTime = [], Fq_MinerId = [],
     CurrentHighestBlockHash = [], CurrentHighestBlockHeight = 900, MinerReputation = [], FeeInfos = []\<rparr>"

definition demo_client :: "mem MapiClient" where
  "demo_client =
     \<lparr>Adaptor = \<lparr>AdGetFeeQuote = ret \<lparr>CertInfo = demo_cert, RawPayload = []\<rparr>,
        AdGetTxState = (\<lambda>_. fail (Error [])), AdSendTx = (\<lambda>_. fail (Error []))\<rparr>,
      Json = \<lparr>JsonFeeQuote = (\<lambda>_. Ok demo_quote), JsonTxState = (\<lambda>s. Fail (Error s)),
        JsonSendResult = (\<lambda>s. Fail (Error s))\<rparr>\<rparr>"

definition demo_history :: mem where
  "demo_history = snd (SetSpent demo_env demo_client 9000 (snd (ProcessMsgTx demo_env (demo_spend 2 1 60) 7
     (snd (ProcessMsgTx demo_env (demo_issue 1 100) 5 demo_fresh)))))"

lemma demo_start:
  "ledger_start demo_env demo_client {demo_issue 1 100, demo_spend 2 1 60} mem_docs (\<lambda>w c. set (mem_uniq w c)) demo_fresh"
proof -
  have "wf_db (mem_docs demo_fresh) (\<lambda>c. set (mem_uniq demo_fresh c))"
    unfolding demo_fresh_def by (rule wf_mem_ledger) (simp_all add: demo_info_def demo_txid_eq)
  moreover have "badge_ins (demo_issue 1 100) = []" by (simp add: badge_ins_def demo_issue_def indexed_def)
  then have "no_double_spend {demo_issue 1 100, demo_spend 2 1 60}" by (auto simp: no_double_spend_def)
  moreover have "inj_on (TxHash (TxL demo_env)) {demo_issue 1 100, demo_spend 2 1 60}"
    by (simp add: inj_on_def demo_issue_def demo_txid_eq)
  moreover have "mapi_ok mem_docs (\<lambda>w c. set (mem_uniq w c)) demo_client"
    by (simp add: mapi_ok_def GetFeeQuote_def demo_client_def go_simps attempt_def)
  moreover have "points_of (mem_docs demo_fresh) = []" by (simp add: demo_fresh_def)
  ultimately show ?thesis using demo_addr by (simp add: ledger_start_def)
qed

lemma demo_reachable:
  "(ledger_step demo_env demo_client {demo_issue 1 100, demo_spend 2 1 60})\<^sup>*\<^sup>* demo_fresh demo_history"
proof -
  let ?step = "ledger_step demo_env demo_client {demo_issue 1 100, demo_spend 2 1 60}"
  have p: "?step w (snd (ProcessMsgTx demo_env t ts w))" if "t \<in> {demo_issue 1 100, demo_spend 2 1 60}" for t ts w
    using that by (intro ledger_step.process [of t, OF _ prod.collapse [symmetric]])
  have m: "?step w (snd (SetSpent demo_env demo_client now w))" for now w
    by (intro ledger_step.mark [OF prod.collapse [symmetric]])
  have 1: "?step\<^sup>*\<^sup>* demo_fresh (snd (ProcessMsgTx demo_env (demo_issue 1 100) 5 demo_fresh))"
    using p by (intro r_into_rtranclp) simp
  have 2: "?step\<^sup>*\<^sup>* demo_fresh (snd (ProcessMsgTx demo_env (demo_spend 2 1 60) 7
      (snd (ProcessMsgTx demo_env (demo_issue 1 100) 5 demo_fresh))))"
    using p by (intro rtranclp.rtrancl_into_rtrancl [OF 1]) simp
  show ?thesis unfolding demo_history_def by (rule rtranclp.rtrancl_into_rtrancl [OF 2 m])
qed

text \<open>
  C5: the invariant of the ledger's history. Transactions may be recorded and processed in
  any order and again, addresses registered and spent points marked, on a database
  that may fail at any call: in every reachable state no balance is negative, the
  supply of a badge is at most the largest issuance, and the marks of spent points are
  consistent: every marked output is spent by a stored input, and the output of a marked
  input is marked.
\<close>

theorem ledger_history_invariant:
  assumes "mongo (Db env) docs uniq" and "ledger_start env client S docs uniq w0"
    and "(ledger_step env client S)\<^sup>*\<^sup>* w0 w"
  shows "0 \<le> balance (points_of (docs w)) a c \<and>
    balance (points_of (docs w)) a c \<le> total_supply (points_of (docs w)) c \<and>
    total_supply (points_of (docs w)) c \<le> MAX_CREATE_BADGE_VALUE \<and> marks_ok (points_of (docs w))"
proof -
  note i = reachable_inv [OF assms]
  have g: "good env S (points_of (docs w))" using i(1) by (simp add: ledger_inv_def)
  show ?thesis
    using good_balance [OF g i(2)] good_supply [OF g] i(1) unfolding MAX_CREATE_BADGE_VALUE_def ledger_inv_def by blast
qed

theorem ledger_history_invariant_witness:
  "0 \<le> balance (points_of (mem_docs demo_history)) ''a'' (demo_txid 1) \<and>
   marks_ok (points_of (mem_docs demo_history))"
  using ledger_history_invariant [OF demo_mongo demo_start demo_reachable] by blast

text \<open>
  C7: balances of addresses. In every reachable state \<open>GetAddrBalance\<close> writes nothing and
  returns exactly the balance: skipping the points marked as spent and the 64-bit sum
  lose nothing. It fails only when the database does.
\<close>

theorem GetAddrBalance_exact:
  assumes "mongo (Db env) docs uniq" and "ledger_start env client S docs uniq w0"
    and "(ledger_step env client S)\<^sup>*\<^sup>* w0 w" and "GetAddrBalance env addr code w = (r, w')"
  shows "docs w' = docs w \<and> (r = Ok (balance (points_of (docs w)) addr code) \<or>
    (\<exists>e. r = Fail e \<and> \<not> mongo_up (Db env) docs uniq))"
  by (rule mongo.addr_balance [OF assms(1) refl reachable_inv [OF assms(1-3)] assms(4)])

theorem GetAddrBalance_exact_witness:
  "fst (GetAddrBalance demo_env ''a'' (demo_txid 1) demo_history) =
     Ok (balance (points_of (mem_docs demo_history)) ''a'' (demo_txid 1))"
  using GetAddrBalance_exact [OF demo_mongo demo_start demo_reachable prod.collapse [symmetric], of "''a''" "demo_txid 1"]
    demo_mongo_up by simp

text \<open>
  C13: balances of users. In every reachable state \<open>GetUserBalance\<close> returns the sum of the
  balances of the addresses registered for the user; it fails only when the database does.
\<close>

theorem GetUserBalance_exact:
  assumes "mongo (Db env) docs uniq" and "ledger_start env client S docs uniq w0"
    and "(ledger_step env client S)\<^sup>*\<^sup>* w0 w" and "wf_addrs (docs w) (uniq w)"
    and "GetUserBalance env appid userid userIndex code w = (r, w')"
  shows "docs w' = docs w \<and>
    (r = Ok (\<Sum>a \<in> Info_Addr ` set (filter (owns appid userid userIndex) (addrs_of (docs w))).
       balance (points_of (docs w)) a code) \<or>
     (\<exists>e. r = Fail e \<and> \<not> mongo_up (Db env) docs uniq))"
  by (rule mongo.user_balance [OF assms(1) refl reachable_inv [OF assms(1-3)] assms(4,5)])

theorem GetUserBalance_exact_witness:
  "\<exists>w. addrs_of (mem_docs w) = [demo_addr_info ''x'' 1] \<and>
     fst (GetUserBalance demo_env ''app'' 1 0 ''c'' w) = Ok (\<Sum>a \<in> {''x''}. balance (points_of (mem_docs w)) a ''c'')"
proof -
  let ?w0 = "mem_users [] []" and ?u = "\<lambda>w c. set (mem_uniq w c)"
  have wf: "wf_db (mem_docs ?w0) (?u ?w0)" "wf_addrs (mem_docs ?w0) (?u ?w0)" by (rule mem_users_wf; simp)+
  obtain w where run: "AddOrUpdateAddrInfo mem_mgo (demo_addr_info ''x'' 1) ?w0 = (Ok (), w)"
    using mem.AddOrUpdateAddrInfo_up by blast
  then have reg: "SetAddrInfo demo_env 9 ''app'' 1 0 ''x'' ?w0 = (Ok (), w)"
    by (simp add: SetAddrInfo_def demo_addr_info_def)
  note res = mem.AddOrUpdateAddrInfo_res [OF wf(2) run]
  have start: "ledger_start demo_env demo_client {} mem_docs ?u ?w0"
    using demo_start wf by (simp add: ledger_start_def no_double_spend_def)
  have "(ledger_step demo_env demo_client {})\<^sup>*\<^sup>* ?w0 w"
    by (rule r_into_rtranclp, rule ledger_step.register [OF reg])
  from GetUserBalance_exact [OF demo_mongo start this _ prod.collapse [symmetric], of "''app''" 1 0 "''c''"]
  have "fst (GetUserBalance demo_env ''app'' 1 0 ''c'' w) = Ok (\<Sum>a \<in> {''x''}. balance (points_of (mem_docs w)) a ''c'')"
    using res demo_mongo_up by (simp add: owns_def demo_addr_info_def)
  then show ?thesis using res by auto
qed

text \<open>
  C24: processing is idempotent. Once \<open>ProcessMsgTx\<close> has succeeded for a transaction in a reachable state of the
  ledger, let any steps follow: other transactions recorded and processed, addresses registered, points
  marked as spent, heights changed, with any failures. Processing the transaction again, however it ends, leaves the stored points
  as they are.
\<close>

theorem ProcessMsgTx_idempotent:
  assumes "mongo (Db env) docs uniq" and "ledger_start env client S docs uniq w0"
    and "(ledger_step env client S)\<^sup>*\<^sup>* w0 w" and "t \<in> S" and "ProcessMsgTx env t ts w = (Ok invt, w1)"
    and "(ledger_step env client S)\<^sup>*\<^sup>* w1 w2" and "ProcessMsgTx env t ts' w2 = (r, w3)"
  shows "points_of (docs w3) = points_of (docs w2)"
proof -
  have env: "addr_lib_ok (AddrL env)" "mapi_ok docs uniq client" and S: "no_double_spend S" "inj_on (TxHash (TxL env)) S"
    using assms(2) by (simp_all add: ledger_start_def)
  have inv: "ledger_inv env S docs uniq w" by (rule reachable_inv [OF assms(1-3)])
  have inv1: "ledger_inv env S docs uniq w1" by (rule mongo.ledger_inv_process [OF assms(1) inv refl env(1) S assms(4,5)])
  from mongo.points_grow_reachable [OF assms(1,6) inv1 refl env S]
  have "ledger_inv env S docs uniq w2" "prefix (map nostate (points_of (docs w1))) (map nostate (points_of (docs w2)))"
    by simp_all
  then show ?thesis by (intro mongo.process_again [OF assms(1) refl env(1) S inv _ assms(4,5) _ assms(7)])
qed

text \<open>The payment of 60 is processed, marked as spent where it spends, and processed again.\<close>

theorem ProcessMsgTx_idempotent_witness:
  "\<exists>invt w. ProcessMsgTx demo_env (demo_spend 2 1 60) 7 (snd (ProcessMsgTx demo_env (demo_issue 1 100) 5 demo_fresh)) = (Ok invt, w) \<and>
     points_of (mem_docs (snd (ProcessMsgTx demo_env (demo_spend 2 1 60) 9 (snd (SetSpent demo_env demo_client 9000 w))))) =
     points_of (mem_docs (snd (SetSpent demo_env demo_client 9000 w)))"
proof -
  let ?S = "{demo_issue 1 100, demo_spend 2 1 60}"
  let ?w = "snd (ProcessMsgTx demo_env (demo_issue 1 100) 5 demo_fresh)"
  let ?w1 = "snd (ProcessMsgTx demo_env (demo_spend 2 1 60) 7 ?w)"
  have "succeeds (ProcessMsgTx demo_env (demo_spend 2 1 60) 7 ?w)" by code_simp
  then obtain invt where run: "ProcessMsgTx demo_env (demo_spend 2 1 60) 7 ?w = (Ok invt, ?w1)" by (rule succeedsE)
  have 1: "(ledger_step demo_env demo_client ?S)\<^sup>*\<^sup>* demo_fresh ?w"
    by (intro r_into_rtranclp ledger_step.process [of "demo_issue 1 100", OF _ prod.collapse [symmetric]]) simp
  have 2: "(ledger_step demo_env demo_client ?S)\<^sup>*\<^sup>* ?w1 (snd (SetSpent demo_env demo_client 9000 ?w1))"
    by (intro r_into_rtranclp ledger_step.mark [OF prod.collapse [symmetric]])
  from ProcessMsgTx_idempotent [OF demo_mongo demo_start 1 _ run 2 prod.collapse [symmetric], of 9] show ?thesis
    using run by auto
qed

end
