(* ===== verification/Partition_Repo.thy ===== *)
theory Partition_Repo
  imports Tx_Point_Repo
begin

text \<open>
  \<open>src/models/partition_info.go\<close>: the chain is cut into partitions of blocks, and the
  collection holds, for each partition, a hash of its closed transactions.
\<close>

section \<open>Operations\<close>

abbreviation TBL_PARTITION_INFO :: string where "TBL_PARTITION_INFO \<equiv> ''partition_info''"

record PartitionInfo =
  Part_Id :: int
  Part_Hash :: string

definition doc_of_PartitionInfo :: "PartitionInfo \<Rightarrow> doc" where
  "doc_of_PartitionInfo p = [ID \<mapsto> BInt (Part_Id p), HASH \<mapsto> BStr (Part_Hash p)]"

definition PartitionInfo_of_doc :: "doc \<Rightarrow> PartitionInfo" where
  "PartitionInfo_of_doc d = \<lparr>Part_Id = get_int d ID, Part_Hash = get_str d HASH\<rparr>"

lemma PartitionInfo_of_doc_of_PartitionInfo [simp]: "PartitionInfo_of_doc (doc_of_PartitionInfo p) = p"
  by (simp add: PartitionInfo_of_doc_def doc_of_PartitionInfo_def get_int_def get_str_def)

definition PartitionInfo_CreateIndex :: "'w mgo \<Rightarrow> ('w, unit) io" where
  "PartitionInfo_CreateIndex drv = CreateIndex drv TBL_PARTITION_INFO [([ID], True)]"

definition GetPartitionInfo :: "'w mgo \<Rightarrow> int \<Rightarrow> ('w, PartitionInfo) io" where
  "GetPartitionInfo drv pid =
     andThen (GetOne drv TBL_PARTITION_INFO [QEq ID (BInt pid)]) (\<lambda>d. ret (PartitionInfo_of_doc d))"

definition GetPartitionInfos :: "'w mgo \<Rightarrow> int \<Rightarrow> int \<Rightarrow> ('w, PartitionInfo list) io" where
  "GetPartitionInfos drv offset limit =
     andThen (GetMany drv TBL_PARTITION_INFO [] ID offset limit) (\<lambda>ds. ret (map PartitionInfo_of_doc ds))"

definition AddPartitionInfo :: "'w mgo \<Rightarrow> int \<Rightarrow> string \<Rightarrow> ('w, unit) io" where
  "AddPartitionInfo drv pid hash =
     Insert drv TBL_PARTITION_INFO (doc_of_PartitionInfo \<lparr>Part_Id = pid, Part_Hash = hash\<rparr>)"

definition UpdatePartitionInfo :: "'w mgo \<Rightarrow> int \<Rightarrow> string \<Rightarrow> ('w, unit) io" where
  "UpdatePartitionInfo drv pid hash =
     UpdateAll drv TBL_PARTITION_INFO [QEq ID (BInt pid)] [(HASH, BStr hash)]"

definition GetPartitionsCount :: "'w mgo \<Rightarrow> ('w, int) io" where
  "GetPartitionsCount drv = Count drv TBL_PARTITION_INFO []"


section \<open>The collection as a map\<close>

text \<open>
  Well-formed: the documents are encodings of structs and the unique index exists and
  holds. Then the collection is a finite map from partitions to hashes.
\<close>

definition parts_of :: "(string \<Rightarrow> doc list) \<Rightarrow> PartitionInfo list" where
  "parts_of db = map PartitionInfo_of_doc (db TBL_PARTITION_INFO)"

definition wf_parts :: "(string \<Rightarrow> doc list) \<Rightarrow> (string \<Rightarrow> string list set) \<Rightarrow> bool" where
  "wf_parts db un \<longleftrightarrow>
     (\<forall>d \<in> set (db TBL_PARTITION_INFO). d = doc_of_PartitionInfo (PartitionInfo_of_doc d)) \<and>
     un TBL_PARTITION_INFO = {[ID]} \<and> distinct (map Part_Id (parts_of db))"

definition part_map :: "(string \<Rightarrow> doc list) \<Rightarrow> int \<rightharpoonup> string" where
  "part_map db = map_of (map (\<lambda>p. (Part_Id p, Part_Hash p)) (parts_of db))"

lemma dom_part_map: "dom (part_map db) = Part_Id ` set (parts_of db)"
  by (simp add: part_map_def dom_map_of_conv_image_fst image_image)

lemma map_of_set_value:
  "map_of (map (\<lambda>p. (Part_Id p, Part_Hash p))
     (map (\<lambda>p. if Part_Id p = i then p\<lparr>Part_Hash := h\<rparr> else p) ps)) =
   (if i \<in> Part_Id ` set ps then (map_of (map (\<lambda>p. (Part_Id p, Part_Hash p)) ps))(i \<mapsto> h)
    else map_of (map (\<lambda>p. (Part_Id p, Part_Hash p)) ps))"
  by (induction ps) (auto simp: fun_eq_iff)

context mongo
begin

lemma parts_enc:
  "wf_parts (docs w) (uniq w) \<Longrightarrow> docs w TBL_PARTITION_INFO = map doc_of_PartitionInfo (parts_of (docs w))"
  unfolding parts_of_def by (rule map_roundtrip) (simp add: wf_parts_def)

lemma AddPartitionInfo_res:
  assumes wf: "wf_parts (docs w) (uniq w)" and run: "AddPartitionInfo drv i h w = (r, w')"
  shows "wf_parts (docs w') (uniq w') \<and> uniq w' = uniq w \<and>
    (\<forall>c. c \<noteq> TBL_PARTITION_INFO \<longrightarrow> docs w' c = docs w c) \<and> (case r of
      Ok u \<Rightarrow> i \<notin> dom (part_map (docs w)) \<and> part_map (docs w') = (part_map (docs w))(i \<mapsto> h)
    | Fail e \<Rightarrow> docs w' = docs w \<and> (is_duplicate e \<longrightarrow> i \<in> dom (part_map (docs w)))
    | Stop s \<Rightarrow> False)"
proof -
  let ?p = "\<lparr>Part_Id = i, Part_Hash = h\<rparr>" and ?ps = "parts_of (docs w)"
  note enc = parts_enc [OF wf]
  have cl: "clash [ID] (doc_of_PartitionInfo ?p) (docs w TBL_PARTITION_INFO) \<longleftrightarrow> i \<in> dom (part_map (docs w))"
    unfolding enc dom_part_map by (auto simp: clash_def doc_of_PartitionInfo_def image_iff eq_commute)
  have un: "uniq w TBL_PARTITION_INFO = {[ID]}" using wf by (simp add: wf_parts_def)
  note ins = Insert_res [OF run [unfolded AddPartitionInfo_def]]
  show ?thesis
  proof (cases r)
    case (Ok u)
    then have new: "i \<notin> dom (part_map (docs w))" and u: "uniq w' = uniq w"
      and d: "docs w' = (docs w)(TBL_PARTITION_INFO := map doc_of_PartitionInfo (?ps @ [?p]))"
      using ins un cl by (auto simp: enc)
    have ps': "parts_of (docs w') = ?ps @ [?p]" by (simp add: parts_of_def d comp_def)
    have "part_map (docs w') = (part_map (docs w))(i \<mapsto> h)"
      using new by (auto simp: part_map_def ps' map_add_def fun_eq_iff split: option.splits)
    moreover have "wf_parts (docs w') (uniq w')"
      using wf new u ps' unfolding dom_part_map by (auto simp: wf_parts_def d)
    ultimately show ?thesis using new Ok d u by simp
  qed (use ins wf un cl in auto)
qed

lemma UpdatePartitionInfo_res:
  assumes wf: "wf_parts (docs w) (uniq w)" and run: "UpdatePartitionInfo drv i h w = (r, w')"
  shows "uniq w' = uniq w \<and> (\<forall>c. c \<noteq> TBL_PARTITION_INFO \<longrightarrow> docs w' c = docs w c) \<and> (case r of
      Ok u \<Rightarrow> wf_parts (docs w') (uniq w') \<and>
        part_map (docs w') = (if i \<in> dom (part_map (docs w)) then (part_map (docs w))(i \<mapsto> h) else part_map (docs w))
    | Fail e \<Rightarrow> True
    | Stop s \<Rightarrow> False)"
proof -
  let ?ps = "parts_of (docs w)" and ?f = "\<lambda>p. if Part_Id p = i then p\<lparr>Part_Hash := h\<rparr> else p"
  note enc = parts_enc [OF wf]
  have one: "(if matches [QEq ID (BInt i)] (doc_of_PartitionInfo p)
      then set_fields [(HASH, BStr h)] (doc_of_PartitionInfo p) else doc_of_PartitionInfo p) =
      doc_of_PartitionInfo (?f p)" for p
    by (auto simp: matches_def doc_of_PartitionInfo_def set_fields_def fun_eq_iff)
  note up = UpdateAll_res [OF run [unfolded UpdatePartitionInfo_def]]
  show ?thesis
  proof (cases r)
    case (Ok u)
    then have d: "docs w' TBL_PARTITION_INFO = map doc_of_PartitionInfo (map ?f ?ps)"
      using up by (simp add: enc comp_def one)
    then have ps': "parts_of (docs w') = map ?f ?ps" unfolding parts_of_def d by (simp add: comp_def)
    have ids: "map Part_Id (parts_of (docs w')) = map Part_Id ?ps" unfolding ps' by simp
    have "uniq w' = uniq w" using up by simp
    then have "wf_parts (docs w') (uniq w')"
      using wf unfolding wf_parts_def ids by (simp add: d)
    moreover have "part_map (docs w') = (if i \<in> dom (part_map (docs w)) then (part_map (docs w))(i \<mapsto> h)
        else part_map (docs w))"
      by (simp only: dom_part_map) (simp only: part_map_def ps' map_of_set_value)
    ultimately show ?thesis using Ok up by simp
  qed (use up in auto)
qed

end

end
