(* ===== verification/Server.thy ===== *)
theory Server
  imports Ledger_History Partition_Repo
begin

text \<open>
  The server of \<open>src/services/touchstone_server.go\<close> around the ledger: its state (peers and
  the partitions whose hash is out of date), the hashes of partitions, and the answers it
  gives to its peers.

  \<open>World\<close> is everything outside the process: the database, the miner, the network. The locks
  of the source only keep its threads apart; the model runs one handler at a time.
\<close>

section \<open>State\<close>

text \<open>
  A peer is the generated gRPC client of \<open>src/message/message.proto\<close>: one call per method. \<open>NotifyTxs\<close>
  is started with \<open>go\<close> and its answer is dropped, so it only changes the world.
\<close>

record 'w Node =
  PeerNotifyTxs :: "byte list list \<Rightarrow> 'w \<Rightarrow> 'w"
  PeerGetTxs :: "byte list list \<Rightarrow> ('w, byte list list) io"
  PeerGetPartitionsHash :: "int \<Rightarrow> int \<Rightarrow> ('w, byte list list) io"
  PeerGetUnconfirmTxids :: "('w, byte list list) io"
  PeerGetTxidsByPartitions :: "int list \<Rightarrow> ('w, byte list list) io"

text \<open>
  The two Go maps of the server are lists of their entries. \<open>range\<close> visits a map in an
  unspecified order: the order is taken from the runtime, as is the clock.
\<close>

record 'w server =
  World :: 'w
  Peers :: "(string \<times> 'w Node) list"
  NeedRecompute :: "int list"

record 'w runtime =
  Now :: "'w \<Rightarrow> int \<times> 'w"
  RangeInts :: "int list \<Rightarrow> 'w \<Rightarrow> int list \<times> 'w"
  RangeKeys :: "string list \<Rightarrow> 'w \<Rightarrow> string list \<times> 'w"

record ('w, 'a) senv =
  Env :: "('w, 'a) env"
  Client :: "'w MapiClient"
  Runtime :: "'w runtime"
  Sha256 :: "byte list \<Rightarrow> byte list"
  GrpcDial :: "string \<Rightarrow> ('w, 'w Node) io"

text \<open>An operation on the world alone, as one of the server.\<close>

definition world :: "('w, 'b) io \<Rightarrow> ('w server, 'b) io" where
  "world m = (\<lambda>s. case m (World s) of (r, w') \<Rightarrow> (r, s\<lparr>World := w'\<rparr>))"

definition effect :: "('w \<Rightarrow> 'b \<times> 'w) \<Rightarrow> ('w server, 'b) io" where
  "effect f = (\<lambda>s. case f (World s) of (x, w') \<Rightarrow> (Ok x, s\<lparr>World := w'\<rparr>))"

definition modify :: "('s \<Rightarrow> 's) \<Rightarrow> ('s, unit) io" where
  "modify f = (\<lambda>s. (Ok (), f s))"

definition gets :: "('s \<Rightarrow> 'b) \<Rightarrow> ('s, 'b) io" where
  "gets f = (\<lambda>s. (Ok (f s), s))"

text \<open>\<open>for pubkey, peer := range this.Peers()\<close>\<close>

definition range_peers :: "('w, 'a) senv \<Rightarrow> ('w server, (string \<times> 'w Node) list) io" where
  "range_peers senv =
     andThen (gets Peers) (\<lambda>ps.
     andThen (effect (RangeKeys (Runtime senv) (map fst ps))) (\<lambda>ks.
       ret (List.map_filter (\<lambda>k. map_option (Pair k) (map_of ps k)) ks)))"


section \<open>Partitions out of date\<close>

definition AddNeedRecomputehashPartition :: "int \<Rightarrow> ('w server, unit) io" where
  "AddNeedRecomputehashPartition pid =
     modify (\<lambda>s. s\<lparr>NeedRecompute := List.insert pid (NeedRecompute s)\<rparr>)"

definition partition_of :: "gconfig \<Rightarrow> int \<Rightarrow> int" where
  "partition_of cfg height = go_div (sub64 height (GStartHeight cfg)) PARTITION_BLOCK_COUNT"

definition AddNeedRecomputehashPartitionByHeight :: "('w, 'a) senv \<Rightarrow> int \<Rightarrow> ('w server, unit) io" where
  "AddNeedRecomputehashPartitionByHeight senv height =
     (if height < GStartHeight (Conf (Env senv)) then ret ()
      else AddNeedRecomputehashPartition (partition_of (Conf (Env senv)) height))"

definition ClearPartitionsCache :: "('w server, int list) io" where
  "ClearPartitionsCache =
     andThen (gets NeedRecompute) (\<lambda>oldCache.
     andThen (modify (\<lambda>s. s\<lparr>NeedRecompute := []\<rparr>)) (\<lambda>_.
       ret oldCache))"

text \<open>The bytes a partition's hash is computed from.\<close>

fun decode_all :: "string list \<Rightarrow> byte list list res" where
  "decode_all [] = Ok []"
| "decode_all (txid # rest) = bind_res (hex_decode txid) (\<lambda>b. bind_res (decode_all rest) (\<lambda>bs. Ok (b # bs)))"

definition partition_start :: "gconfig \<Rightarrow> int \<Rightarrow> int" where
  "partition_start cfg pid = add64 (GStartHeight cfg) (wrap64 (pid * PARTITION_BLOCK_COUNT))"

definition ComputePartitionHash :: "('w, 'a) senv \<Rightarrow> int \<Rightarrow> ('w, byte list) io" where
  "ComputePartitionHash senv pid =
     (let startHeight = partition_start (Conf (Env senv)) pid
      in andThen (GetTxidsByHeightRangeOrderByTxid (Db (Env senv)) startHeight
             (add64 startHeight PARTITION_BLOCK_COUNT) TX_STATE_CLOSED False) (\<lambda>txPoints.
         andThen (of_res (decode_all txPoints)) (\<lambda>txids.
           ret (Sha256 senv (concat txids)))))"

definition ComputeAndSetPartitionHash :: "('w, 'a) senv \<Rightarrow> int \<Rightarrow> ('w, unit) io" where
  "ComputeAndSetPartitionHash senv pid =
     andThen (ComputePartitionHash senv pid) (\<lambda>hash.
     andThen (attempt (AddPartitionInfo (Db (Env senv)) pid (hex_encode hash))
         (\<lambda>err. if \<not> is_duplicate err then fail err else ret ()) ret) (\<lambda>_.
       UpdatePartitionInfo (Db (Env senv)) pid (hex_encode hash)))"

definition set_hashes :: "('w, 'a) senv \<Rightarrow> int list \<Rightarrow> ('w server, unit) io" where
  "set_hashes senv ids =
     for_each (\<lambda>pid. if pid = -1 then ret () else world (ComputeAndSetPartitionHash senv pid)) ids"

definition ClearCacheAndSetHash :: "('w, 'a) senv \<Rightarrow> ('w server, unit) io" where
  "ClearCacheAndSetHash senv =
     andThen ClearPartitionsCache (\<lambda>cache.
     andThen (effect (RangeInts (Runtime senv) cache)) (\<lambda>ids.
       set_hashes senv ids))"


section \<open>Answers to peers\<close>

fun GetTxs_loop :: "('w, 'a) env \<Rightarrow> byte list list \<Rightarrow> byte list list \<Rightarrow> ('w, byte list list) io" where
  "GetTxs_loop env [] Rawtxs = ret Rawtxs"
| "GetTxs_loop env (txidBytes # rest) Rawtxs =
     attempt (GetMsgTxInfo (Db env) (TxL env) (hex_encode txidBytes))
       (\<lambda>err. if \<not> is_not_found err then fail err else GetTxs_loop env rest Rawtxs)
       (\<lambda>msgTxInfo. GetTxs_loop env rest (Rawtxs @ [SeserializeMsgTxBytes (TxL env) (Info_MsgTx msgTxInfo)]))"

definition GetTxs :: "('w, 'a) env \<Rightarrow> byte list list \<Rightarrow> ('w, byte list list) io" where
  "GetTxs env Txids = GetTxs_loop env Txids []"

definition GetPartitionsHash :: "('w, 'a) env \<Rightarrow> int \<Rightarrow> int \<Rightarrow> ('w, byte list list) io" where
  "GetPartitionsHash env Offset Limit =
     andThen (GetPartitionInfos (Db env) Offset Limit) (\<lambda>partitionInfos.
       of_res (decode_all (map Part_Hash partitionInfos)))"

text \<open>Decoding the ids that are not in \<open>txidSet\<close> yet.\<close>

fun add_txids :: "string list \<Rightarrow> string list \<times> byte list list \<Rightarrow> (string list \<times> byte list list) res" where
  "add_txids [] acc = Ok acc"
| "add_txids (txid # rest) (txidSet, Txids) =
     (if txid \<in> set txidSet then add_txids rest (txidSet, Txids)
      else bind_res (hex_decode txid) (\<lambda>txidByte. add_txids rest (txid # txidSet, Txids @ [txidByte])))"

definition GetUnconfirmTxids :: "('w, 'a) env \<Rightarrow> ('w, byte list list) io" where
  "GetUnconfirmTxids env =
     andThen (GetTxidsByHeightRangeOrderByTxid (Db env) (-1) 1 TX_STATE_CLOSED False) (\<lambda>txidBsons.
     andThen (of_res (add_txids txidBsons ([], []))) (\<lambda>acc. ret (snd acc)))"

fun GetPartitionsTxids_loop ::
  "('w, 'a) env \<Rightarrow> int list \<Rightarrow> string list \<times> byte list list \<Rightarrow> ('w, string list \<times> byte list list) io" where
  "GetPartitionsTxids_loop env [] acc = ret acc"
| "GetPartitionsTxids_loop env (pid # rest) acc =
     (let start = partition_start (Conf env) pid
      in andThen (GetTxidsByHeightRangeOrderByTxid (Db env) start (add64 start PARTITION_BLOCK_COUNT)
             TX_STATE_CLOSED False) (\<lambda>txidBsons.
         andThen (of_res (add_txids txidBsons acc)) (\<lambda>acc'.
           GetPartitionsTxids_loop env rest acc')))"

definition GetPartitionsTxids :: "('w, 'a) env \<Rightarrow> int list \<Rightarrow> ('w, byte list list) io" where
  "GetPartitionsTxids env Ids =
     andThen (GetPartitionsTxids_loop env Ids ([], [])) (\<lambda>acc. ret (snd acc))"


section \<open>The hash of a partition\<close>

text \<open>
  The recorded transactions carry the texts of 32-byte hashes. The closed ones of a range
  of heights are a set; the hash of a partition is a function of that set.
\<close>

definition wf_raw :: "(string \<Rightarrow> doc list) \<Rightarrow> bool" where
  "wf_raw db \<longleftrightarrow> (\<forall>d \<in> set (db TBL_RAW_TX_INFO). \<exists>bs. length bs = 32 \<and> d TXID = Some (BStr (hex_encode bs)))"

definition closed_qual :: "int \<Rightarrow> int \<Rightarrow> qual list" where
  "closed_qual lo hi =
     [QEq INDEX (BInt TX_INFO_INDEX), QEq STATE (BInt TX_STATE_CLOSED), QRange HEIGHT lo hi]"

definition closed_txids :: "(string \<Rightarrow> doc list) \<Rightarrow> int \<Rightarrow> int \<Rightarrow> string set" where
  "closed_txids db lo hi =
     (\<lambda>d. get_str d TXID) ` set (filter (matches (closed_qual lo hi)) (db TBL_RAW_TX_INFO))"

definition hash_bytes :: "string \<Rightarrow> byte list" where
  "hash_bytes txid = (case hex_decode txid of Ok bs \<Rightarrow> bs | _ \<Rightarrow> [])"

definition partition_txids :: "gconfig \<Rightarrow> (string \<Rightarrow> doc list) \<Rightarrow> int \<Rightarrow> string set" where
  "partition_txids cfg db pid =
     closed_txids db (partition_start cfg pid) (add64 (partition_start cfg pid) PARTITION_BLOCK_COUNT)"

definition partition_input :: "string set \<Rightarrow> byte list" where
  "partition_input T = concat (map hash_bytes (sorted_list_of_set T))"

definition partition_hash :: "('w, 'a) senv \<Rightarrow> (string \<Rightarrow> doc list) \<Rightarrow> int \<Rightarrow> byte list" where
  "partition_hash senv db pid = Sha256 senv (partition_input (partition_txids (Conf (Env senv)) db pid))"

lemma partition_txids_hashes:
  assumes "wf_raw db" "t \<in> partition_txids cfg db pid"
  shows "\<exists>bs. length bs = 32 \<and> t = hex_encode bs"
proof -
  obtain d where "d \<in> set (db TBL_RAW_TX_INFO)" "t = get_str d TXID"
    using assms(2) by (auto simp: partition_txids_def closed_txids_def)
  then show ?thesis using assms(1) by (fastforce simp: wf_raw_def get_str_def)
qed

lemma finite_partition_txids [simp]: "finite (partition_txids cfg db pid)"
  by (simp add: partition_txids_def closed_txids_def)

lemma hash_bytes_hex [simp]: "hash_bytes (hex_encode bs) = bs"
  by (simp add: hash_bytes_def)

lemma decode_all_hashes:
  "(\<And>t. t \<in> set ts \<Longrightarrow> \<exists>bs. t = hex_encode bs) \<Longrightarrow> decode_all ts = Ok (map hash_bytes ts)"
proof (induction ts)
  case (Cons t ts)
  obtain bs where "t = hex_encode bs" using Cons.prems [of t] by auto
  then show ?case using Cons by simp
qed simp

lemma concat_fixed_length_inj:
  assumes "\<forall>x \<in> set xs. length x = n" "\<forall>y \<in> set ys. length y = n" "0 < n" "concat xs = concat ys"
  shows "xs = ys"
proof -
  have len: "length (concat zs) = length zs * n" if "\<forall>z \<in> set zs. length z = n" for zs :: "'a list list"
    using that by (induction zs) auto
  have "length xs = length ys" using len [OF assms(1)] len [OF assms(2)] assms(3,4) by simp
  then show ?thesis
    using assms
  proof (induction xs ys rule: list_induct2)
    case (Cons x xs y ys)
    then show ?case by (simp add: append_eq_append_conv)
  qed simp
qed

lemma partition_input_inj:
  assumes T: "finite T" "finite T'" "\<forall>t \<in> T \<union> T'. \<exists>bs. length bs = 32 \<and> t = hex_encode bs"
    and eq: "partition_input T = partition_input T'"
  shows "T = T'"
proof -
  have len: "length (hash_bytes t) = 32" if t: "t \<in> T \<union> T'" for t
  proof -
    obtain bs where "length bs = 32" "t = hex_encode bs" using T(3) t by blast
    then show ?thesis by simp
  qed
  have "map hash_bytes (sorted_list_of_set T) = map hash_bytes (sorted_list_of_set T')"
    by (rule concat_fixed_length_inj [of _ 32]) (use eq T len in \<open>auto simp: partition_input_def\<close>)
  moreover have "inj_on hash_bytes (T \<union> T')"
    by (rule inj_onI) (use T(3) hash_bytes_hex in metis)
  ultimately have "sorted_list_of_set T = sorted_list_of_set T'"
    using inj_on_map_eq_map [of hash_bytes "sorted_list_of_set T" "sorted_list_of_set T'"] T by simp
  then show ?thesis using T by (metis set_sorted_list_of_set)
qed

context mongo
begin

lemma GetTxids_res:
  assumes wf: "wf_db (docs w) (uniq w)" "wf_raw (docs w)"
    and run: "GetTxidsByHeightRangeOrderByTxid drv lo hi TX_STATE_CLOSED False w = (r, w')"
  shows "same w w' \<and> (case r of Ok ts \<Rightarrow> ts = sorted_list_of_set (closed_txids (docs w) lo hi)
    | Fail e \<Rightarrow> True | Stop s \<Rightarrow> False)"
proof -
  let ?ds = "filter (matches (closed_qual lo hi)) (docs w TBL_RAW_TX_INFO)"
  let ?sel = "map (select (Some [TXID])) ?ds" and ?txid = "\<lambda>d. get_str d TXID"
  have txid: "d TXID = Some (BStr (?txid d))" if "d \<in> set ?sel" for d
    using that wf(2) by (fastforce simp: wf_raw_def select_def get_str_def)
  have sel_txid: "?txid (select (Some [TXID]) d) = ?txid d" for d by (simp add: select_def get_str_def)
  have dist: "distinct (map ?txid ?sel)"
  proof -
    have "inj_on raw_id (set ?ds)" using wf(1) by (auto simp: wf_db_def distinct_map inj_on_def)
    moreover have "raw_id d = (Some (BStr (?txid d)), Some (BInt TX_INFO_INDEX))" if "d \<in> set ?ds" for d
      using that wf(2) by (fastforce simp: raw_id_def closed_qual_def matches_def wf_raw_def get_str_def)
    ultimately have "inj_on ?txid (set ?ds)" by (auto simp: inj_on_def)
    moreover have "distinct ?ds" using wf(1) by (simp add: wf_db_def distinct_map)
    ultimately show ?thesis by (simp add: distinct_map sel_txid comp_def)
  qed
  from run show ?thesis
    unfolding GetTxidsByHeightRangeOrderByTxid_def Let_def andThen_def
  proof (cases rule: attempt_eqE)
    case (Ok es w1)
    have q: "[QEq INDEX (BInt TX_INFO_INDEX), QEq STATE (BInt TX_STATE_CLOSED)] @
        (if False then [QOr [QRange HEIGHT lo hi, QEq HEIGHT (BInt UNCONFIRM_TX_HEIGHT)]] else [QRange HEIGHT lo hi])
        = closed_qual lo hi" by (simp add: closed_qual_def)
    have g: "same w w1" "mset es = mset ?sel" "sorted_by TXID es"
      using GetAll_res [OF Ok(1)] unfolding q by simp_all
    have "set es = set ?sel" using g(2) by (metis set_mset_mset)
    then have "map (\<lambda>d. d TXID) es = map (\<lambda>t. Some (BStr t)) (map ?txid es)" using txid by simp
    moreover have "sorted (map (\<lambda>d. d TXID) es)" using g(3) by (simp add: sorted_by_def has_prefix_def)
    ultimately have "sorted (map (\<lambda>t. Some (BStr t)) (map ?txid es))" by (simp only:)
    then have "sorted (map ?txid es)" by (simp add: sorted_map)
    moreover have "mset (map ?txid es) = mset (map ?txid ?sel)" by (simp only: mset_map g(2))
    then have "distinct (map ?txid es)" using dist mset_eq_imp_distinct_iff by blast
    moreover have "set (map ?txid es) = closed_txids (docs w) lo hi"
      using \<open>set es = set ?sel\<close> by (simp add: closed_txids_def sel_txid image_image)
    ultimately have "map ?txid es = sorted_list_of_set (closed_txids (docs w) lo hi)"
      by (metis sorted_list_of_set.idem_if_sorted_distinct)
    then show ?thesis using Ok(2) g(1) by (auto simp: ret_def)
  qed (auto simp: fail_def dest: GetAll_res)
qed

lemma ComputePartitionHash_res:
  assumes wf: "wf_db (docs w) (uniq w)" "wf_raw (docs w)" and db: "Db (Env senv) = drv"
    and run: "ComputePartitionHash senv pid w = (r, w')"
  shows "same w w' \<and> (case r of Ok h \<Rightarrow> h = partition_hash senv (docs w) pid | Fail e \<Rightarrow> True | Stop s \<Rightarrow> False)"
proof -
  let ?T = "partition_txids (Conf (Env senv)) (docs w) pid"
  have dec: "decode_all (sorted_list_of_set ?T) = Ok (map hash_bytes (sorted_list_of_set ?T))"
    by (rule decode_all_hashes) (use partition_txids_hashes [OF wf(2)] in \<open>simp, blast\<close>)
  from run show ?thesis
    unfolding ComputePartitionHash_def Let_def andThen_def db
  proof (cases rule: attempt_eqE)
    case (Ok ts w1)
    have "same w w1" "ts = sorted_list_of_set ?T"
      using GetTxids_res [OF wf Ok(1)] by (simp_all add: partition_txids_def)
    then show ?thesis using Ok(2) dec by (auto simp: go_simps partition_hash_def partition_input_def)
  qed (auto simp: fail_def dest!: GetTxids_res [OF wf])
qed

lemma ComputeAndSetPartitionHash_res:
  assumes wf: "wf_db (docs w) (uniq w)" "wf_raw (docs w)" "wf_parts (docs w) (uniq w)" and db: "Db (Env senv) = drv"
    and run: "ComputeAndSetPartitionHash senv pid w = (r, w')"
  shows "uniq w' = uniq w \<and> (\<forall>c. c \<noteq> TBL_PARTITION_INFO \<longrightarrow> docs w' c = docs w c) \<and> (case r of
      Ok u \<Rightarrow> wf_parts (docs w') (uniq w') \<and>
        part_map (docs w') = (part_map (docs w))(pid \<mapsto> hex_encode (partition_hash senv (docs w) pid))
    | Fail e \<Rightarrow> True | Stop s \<Rightarrow> False)"
  using run unfolding ComputeAndSetPartitionHash_def
proof (cases rule: andThen_eqE)
  case (Ok h w1)
  have h: "same w w1" "h = partition_hash senv (docs w) pid"
    using ComputePartitionHash_res [OF wf(1,2) db Ok(1)] by simp_all
  then have wf1: "wf_parts (docs w1) (uniq w1)" using wf(3) by (simp add: same_def)
  from Ok(2) show ?thesis unfolding db
  proof (cases rule: andThen_eqE)
    case (Ok u w2)
    have two: "wf_parts (docs w2) (uniq w2) \<and> uniq w2 = uniq w \<and>
        (\<forall>c. c \<noteq> TBL_PARTITION_INFO \<longrightarrow> docs w2 c = docs w c) \<and> pid \<in> dom (part_map (docs w2)) \<and>
        (part_map (docs w2) = part_map (docs w) \<or> part_map (docs w2) = (part_map (docs w))(pid \<mapsto> hex_encode h))"
      using Ok(1)
    proof (cases rule: attempt_eqE)
      case (Ok x v)
      then show ?thesis using AddPartitionInfo_res [OF wf1 Ok(1)] h(1) by (auto simp: ret_def same_def)
    next
      case (Fail e v)
      then show ?thesis using AddPartitionInfo_res [OF wf1 Fail(1)] h(1) wf(3)
        by (auto simp: go_simps same_def split: if_splits)
    qed simp
    then have "(part_map (docs w2))(pid \<mapsto> hex_encode h) = (part_map (docs w))(pid \<mapsto> hex_encode h)" by auto
    then show ?thesis
      using UpdatePartitionInfo_res [OF _ Ok(2)] two h(2) by (auto cong: res.case_cong)
  next
    case (Fail e)
    then show ?thesis
      using h(1) by (auto simp: go_simps same_def elim!: attempt_eqE dest!: AddPartitionInfo_res [OF wf1] split: if_splits)
  next
    case (Stop x)
    then show ?thesis
      using h(1) by (auto simp: go_simps same_def elim!: attempt_eqE dest!: AddPartitionInfo_res [OF wf1] split: if_splits)
  qed
qed (auto simp: same_def dest!: ComputePartitionHash_res [OF wf(1,2) db])

text \<open>Recomputing a list of partitions brings exactly these up to date.\<close>

lemma set_hashes_res:
  assumes db: "Db (Env senv) = drv"
  shows "set_hashes senv ids s = (Ok u, s') \<Longrightarrow>
    wf_db (docs (World s)) (uniq (World s)) \<Longrightarrow> wf_raw (docs (World s)) \<Longrightarrow>
    wf_parts (docs (World s)) (uniq (World s)) \<Longrightarrow>
    Peers s' = Peers s \<and> NeedRecompute s' = NeedRecompute s \<and>
    (\<forall>c. c \<noteq> TBL_PARTITION_INFO \<longrightarrow> docs (World s') c = docs (World s) c) \<and>
    part_map (docs (World s')) = (\<lambda>i. if i \<in> set ids - {-1}
      then Some (hex_encode (partition_hash senv (docs (World s)) i)) else part_map (docs (World s)) i)"
proof (induction ids arbitrary: s)
  case Nil
  then show ?case by (simp add: set_hashes_def ret_def)
next
  case (Cons i ids)
  let ?m = "\<lambda>pid. if pid = -1 then ret () else world (ComputeAndSetPartitionHash senv pid)"
  from Cons.prems(1) obtain s1 where s1: "?m i s = (Ok (), s1)" and rest: "set_hashes senv ids s1 = (Ok u, s')"
    by (auto simp: set_hashes_def andThen_eq_Ok)
  show ?case
  proof (cases "i = -1")
    case True
    then show ?thesis using Cons.IH [OF rest] Cons.prems s1 by (simp add: ret_def insert_Diff_if cong: if_cong)
  next
    case False
    then obtain w1 where run: "ComputeAndSetPartitionHash senv i (World s) = (Ok (), w1)" and s1w: "s1 = s\<lparr>World := w1\<rparr>"
      using s1 by (auto simp: world_def split: prod.splits)
    note res = ComputeAndSetPartitionHash_res [OF Cons.prems(2-4) db run]
    have raw: "docs w1 TBL_RAW_TX_INFO = docs (World s) TBL_RAW_TX_INFO"
      "docs w1 TBL_TX_POINT = docs (World s) TBL_TX_POINT" and un: "uniq w1 = uniq (World s)"
      using res by simp_all
    have ph: "partition_hash senv (docs w1) = partition_hash senv (docs (World s))"
      by (simp add: fun_eq_iff partition_hash_def partition_txids_def closed_txids_def raw)
    have "wf_db (docs w1) (uniq w1)" "wf_raw (docs w1)" "wf_parts (docs w1) (uniq w1)"
      using Cons.prems(2,3) res by (simp_all add: wf_db_def wf_raw_def points_of_def raw un)
    moreover have w1: "World s1 = w1" "Peers s1 = Peers s" "NeedRecompute s1 = NeedRecompute s"
      by (simp_all add: s1w)
    ultimately have ih: "Peers s' = Peers s" "NeedRecompute s' = NeedRecompute s"
      "\<forall>c. c \<noteq> TBL_PARTITION_INFO \<longrightarrow> docs (World s') c = docs w1 c"
      "part_map (docs (World s')) = (\<lambda>i. if i \<in> set ids - {-1}
        then Some (hex_encode (partition_hash senv (docs (World s)) i)) else part_map (docs w1) i)"
      using Cons.IH [OF rest] unfolding w1 ph by blast+
    have pm: "part_map (docs w1) = (part_map (docs (World s)))(i \<mapsto> hex_encode (partition_hash senv (docs (World s)) i))"
      using res by simp
    show ?thesis using ih(1-3) res False unfolding ih(4) pm by (auto simp: fun_eq_iff)
  qed
qed

end


context mongo_up
begin

lemma ComputePartitionHash_up:
  assumes wf: "wf_db (docs w) (uniq w)" "wf_raw (docs w)" and db: "Db (Env senv) = drv"
  obtains w' where "ComputePartitionHash senv pid w = (Ok (partition_hash senv (docs w) pid), w')"
proof -
  obtain r w' where run: "ComputePartitionHash senv pid w = (r, w')" by fastforce
  note res = ComputePartitionHash_res [OF wf db run]
  have "r \<noteq> Fail e" for e
  proof
    assume e: "r = Fail e"
    from run [unfolded ComputePartitionHash_def Let_def db] show False
    proof (cases rule: andThen_eqE)
      case (Ok ts w1)
      have "decode_all ts = Ok (map hash_bytes ts)"
        using GetTxids_res [OF wf Ok(1)] partition_txids_hashes [OF wf(2), of _ "Conf (Env senv)" pid]
        by (intro decode_all_hashes) (simp add: partition_txids_def [symmetric], blast)
      then show ?thesis using Ok(2) e by (simp add: go_simps)
    next
      case (Fail e')
      then show ?thesis unfolding GetTxidsByHeightRangeOrderByTxid_def Let_def
        by (cases rule: andThen_eqE) (auto simp: GetAll_up ret_def)
    qed (use e in simp)
  qed
  then show ?thesis using that run res by (cases r) auto
qed

lemma ComputeAndSetPartitionHash_up:
  assumes wf: "wf_db (docs w) (uniq w)" "wf_raw (docs w)" "wf_parts (docs w) (uniq w)" and db: "Db (Env senv) = drv"
  obtains w' where "ComputeAndSetPartitionHash senv pid w = (Ok (), w')"
proof -
  obtain r w' where run: "ComputeAndSetPartitionHash senv pid w = (r, w')" by fastforce
  obtain w1 where w1: "ComputePartitionHash senv pid w = (Ok (partition_hash senv (docs w) pid), w1)"
    by (rule ComputePartitionHash_up [OF wf(1,2) db])
  have "r \<noteq> Fail e" for e
  proof
    assume e: "r = Fail e"
    from run [unfolded ComputeAndSetPartitionHash_def db] show False
    proof (cases rule: andThen_eqE)
      case (Ok h v)
      from Ok(2) show ?thesis
      proof (cases rule: andThen_eqE)
        case (Ok x v')
        then show ?thesis using e UpdateAll_up by (simp add: UpdatePartitionInfo_def)
      qed (use e Insert_Fail_up in \<open>auto simp: go_simps AddPartitionInfo_def elim!: attempt_eqE split: if_splits\<close>)
    qed (use e w1 in auto)
  qed
  then show ?thesis using that run ComputeAndSetPartitionHash_res [OF wf db run] by (cases r) auto
qed

end


section \<open>Properties\<close>

text \<open>A server for the witnesses, and a world with partitions.\<close>

definition demo_senv :: "(mem, byte list) senv" where
  "demo_senv =
     \<lparr>Env = demo_env, Client = demo_client,
      Runtime = \<lparr>Now = Pair 5, RangeInts = Pair, RangeKeys = Pair\<rparr>,
      Sha256 = (\<lambda>bs. bs), GrpcDial = (\<lambda>_. fail (Error ''refused''))\<rparr>"

definition mem_parts :: "TxPoint list \<Rightarrow> RawTxInfo list \<Rightarrow> PartitionInfo list \<Rightarrow> mem" where
  "mem_parts pts infos parts =
     (mem_ledger pts infos)
       \<lparr>mem_docs := (mem_docs (mem_ledger pts infos))(TBL_PARTITION_INFO := map doc_of_PartitionInfo parts),
        mem_uniq := (mem_uniq (mem_ledger pts infos))(TBL_PARTITION_INFO := [[ID]])\<rparr>"

lemma demo_senv_simps [simp]:
  "Env demo_senv = demo_env" "Client demo_senv = demo_client" "Sha256 demo_senv = (\<lambda>bs. bs)"
  "Runtime demo_senv = \<lparr>Now = Pair 5, RangeInts = Pair, RangeKeys = Pair\<rparr>"
  by (simp_all add: demo_senv_def)

lemma demo_mongo_senv: "mongo (Db (Env demo_senv)) mem_docs (\<lambda>w c. set (mem_uniq w c))"
  by (simp add: mem.mongo_axioms)

lemma mem_parts_wf:
  assumes "distinct (map point_id pts)" "distinct (map (\<lambda>r. (Raw_Txid r, Raw_Index r)) infos)"
    "distinct (map Part_Id parts)"
  shows "wf_db (mem_docs (mem_parts pts infos parts)) (\<lambda>c. set (mem_uniq (mem_parts pts infos parts) c))"
    and "wf_parts (mem_docs (mem_parts pts infos parts)) (\<lambda>c. set (mem_uniq (mem_parts pts infos parts) c))"
  using wf_mem_ledger [OF assms(1,2)] assms(3)
  by (simp_all add: wf_db_def wf_parts_def mem_parts_def parts_of_def points_of_def mem_ledger_def comp_def)

lemma mem_parts_raw:
  "list_all (\<lambda>r. \<exists>n. Raw_Txid r = demo_txid n) infos \<Longrightarrow> wf_raw (mem_docs (mem_parts pts infos parts))"
proof -
  assume all: "list_all (\<lambda>r. \<exists>n. Raw_Txid r = demo_txid n) infos"
  have "\<exists>bs. length bs = 32 \<and> doc_of_RawTxInfo r TXID = Some (BStr (hex_encode bs))" if r: "r \<in> set infos" for r
  proof -
    obtain n where "Raw_Txid r = demo_txid n" using all r by (auto simp: list_all_iff)
    then show ?thesis by (intro exI [of _ "replicate 31 0 @ [word_of_int n]"]) (simp add: demo_txid_def)
  qed
  then show ?thesis by (simp add: wf_raw_def mem_parts_def mem_ledger_def)
qed

lemma demo_closed_wf:
  assumes "infos = [demo_info 1 TX_STATE_CLOSED, demo_info 2 TX_STATE_CLOSED] \<or>
    infos = [demo_info 2 TX_STATE_CLOSED, demo_info 1 TX_STATE_CLOSED]"
  shows "wf_db (mem_docs (mem_parts [] infos [])) (\<lambda>c. set (mem_uniq (mem_parts [] infos []) c))"
    "wf_parts (mem_docs (mem_parts [] infos [])) (\<lambda>c. set (mem_uniq (mem_parts [] infos []) c))"
    "wf_raw (mem_docs (mem_parts [] infos []))"
proof -
  have "distinct (map (\<lambda>r. (Raw_Txid r, Raw_Index r)) infos)" using assms by (auto simp: demo_info_def demo_txid_eq)
  then show "wf_db (mem_docs (mem_parts [] infos [])) (\<lambda>c. set (mem_uniq (mem_parts [] infos []) c))"
    "wf_parts (mem_docs (mem_parts [] infos [])) (\<lambda>c. set (mem_uniq (mem_parts [] infos []) c))"
    by (intro mem_parts_wf; simp)+
  show "wf_raw (mem_docs (mem_parts [] infos []))" by (rule mem_parts_raw) (use assms in \<open>auto simp: demo_info_def\<close>)
qed

text \<open>
  C14: nodes compare partitions by hash. Two nodes, each with its own database, compute the
  same hash for a partition exactly when they have closed the same transactions in its
  block range: the order in which transactions arrived does not matter, and unless the
  two inputs collide under SHA-256 no difference goes unnoticed.
\<close>

theorem ComputePartitionHash_agrees:
  assumes "mongo (Db (Env a)) docs uniq" and "wf_db (docs w) (uniq w)" and "wf_raw (docs w)"
    and "mongo (Db (Env b)) docs' uniq'" and "wf_db (docs' v) (uniq' v)" and "wf_raw (docs' v)"
    and "Sha256 b = Sha256 a" and "Conf (Env b) = Conf (Env a)"
    and "ComputePartitionHash a pid w = (Ok h, w')" and "ComputePartitionHash b pid v = (Ok h', v')"
    and "inj_on (Sha256 a) {partition_input (partition_txids (Conf (Env a)) (docs w) pid),
      partition_input (partition_txids (Conf (Env a)) (docs' v) pid)}"
  shows "h = h' \<longleftrightarrow>
    partition_txids (Conf (Env a)) (docs w) pid = partition_txids (Conf (Env a)) (docs' v) pid"
proof -
  let ?T = "partition_txids (Conf (Env a)) (docs w) pid" and ?T' = "partition_txids (Conf (Env a)) (docs' v) pid"
  have h: "h = Sha256 a (partition_input ?T)" "h' = Sha256 a (partition_input ?T')"
    using mongo.ComputePartitionHash_res [OF assms(1-3) refl assms(9)]
      mongo.ComputePartitionHash_res [OF assms(4-6) refl assms(10)] assms(7,8)
    by (simp_all add: partition_hash_def)
  have "?T = ?T'" if "partition_input ?T = partition_input ?T'"
  proof (rule partition_input_inj [OF _ _ _ that])
    show "\<forall>t \<in> ?T \<union> ?T'. \<exists>bs. length bs = 32 \<and> t = hex_encode bs"
      using partition_txids_hashes [OF assms(3)] partition_txids_hashes [OF assms(6)] by blast
  qed simp_all
  then have "partition_input ?T = partition_input ?T' \<longleftrightarrow> ?T = ?T'" by auto
  then show ?thesis unfolding h using inj_on_eq_iff [OF assms(11)] by simp
qed

theorem ComputePartitionHash_agrees_witness:
  "fst (ComputePartitionHash demo_senv 1 (mem_parts [] [demo_info 1 TX_STATE_CLOSED, demo_info 2 TX_STATE_CLOSED] [])) =
   fst (ComputePartitionHash demo_senv 1 (mem_parts [] [demo_info 2 TX_STATE_CLOSED, demo_info 1 TX_STATE_CLOSED] []))"
proof -
  let ?v = "mem_parts [] [demo_info 1 TX_STATE_CLOSED, demo_info 2 TX_STATE_CLOSED] []"
    and ?w = "mem_parts [] [demo_info 2 TX_STATE_CLOSED, demo_info 1 TX_STATE_CLOSED] []"
  note v = demo_closed_wf(1,3) [OF disjI1 [OF refl]] and w = demo_closed_wf(1,3) [OF disjI2 [OF refl]]
  have "Db (Env demo_senv) = mem_mgo" by simp
  from mem.ComputePartitionHash_up [OF v this] mem.ComputePartitionHash_up [OF w this]
  obtain h h' v' w' where r: "ComputePartitionHash demo_senv 1 ?v = (Ok h, v')"
    "ComputePartitionHash demo_senv 1 ?w = (Ok h', w')" by metis
  have "partition_txids (Conf (Env demo_senv)) (mem_docs ?v) 1 = partition_txids (Conf (Env demo_senv)) (mem_docs ?w) 1"
    by (auto simp: partition_txids_def closed_txids_def mem_parts_def mem_ledger_def)
  then have "h = h'"
    using ComputePartitionHash_agrees [OF demo_mongo_senv v demo_mongo_senv w refl refl r] by (simp add: inj_on_def)
  then show ?thesis using r by simp
qed

text \<open>The runtime only picks an order and reads a clock.\<close>

definition runtime_ok :: "('w \<Rightarrow> string \<Rightarrow> doc list) \<Rightarrow> ('w \<Rightarrow> string \<Rightarrow> string list set) \<Rightarrow> 'w runtime \<Rightarrow> bool" where
  "runtime_ok docs uniq rt \<longleftrightarrow>
     (\<forall>w n w'. Now rt w = (n, w') \<longrightarrow> docs w' = docs w \<and> uniq w' = uniq w) \<and>
     (\<forall>l w l' w'. RangeInts rt l w = (l', w') \<longrightarrow> mset l' = mset l \<and> docs w' = docs w \<and> uniq w' = uniq w) \<and>
     (\<forall>l w l' w'. RangeKeys rt l w = (l', w') \<longrightarrow> mset l' = mset l \<and> docs w' = docs w \<and> uniq w' = uniq w)"

text \<open>
  C15: bringing hashes up to date. When \<open>ClearCacheAndSetHash\<close> succeeds, in whatever order the map
  of marked partitions is visited, every marked partition has the hash of its closed
  transactions stored, all other partitions are as before, nothing else in the database
  has changed and no partition is marked any more.
\<close>

theorem ClearCacheAndSetHash_updates:
  assumes "mongo (Db (Env senv)) docs uniq" and "runtime_ok docs uniq (Runtime senv)"
    and "wf_db (docs (World s)) (uniq (World s))" and "wf_raw (docs (World s))"
    and "wf_parts (docs (World s)) (uniq (World s))"
    and "ClearCacheAndSetHash senv s = (Ok u, s')"
  shows "NeedRecompute s' = [] \<and>
    (\<forall>c. c \<noteq> TBL_PARTITION_INFO \<longrightarrow> docs (World s') c = docs (World s) c) \<and>
    part_map (docs (World s')) = (\<lambda>i. if i \<in> set (NeedRecompute s) - {-1}
      then Some (hex_encode (partition_hash senv (docs (World s)) i)) else part_map (docs (World s)) i)"
proof -
  obtain ids w1 where r: "RangeInts (Runtime senv) (NeedRecompute s) (World s) = (ids, w1)" by fastforce
  have same: "set ids = set (NeedRecompute s)" "docs w1 = docs (World s)" "uniq w1 = uniq (World s)"
    using assms(2) r unfolding runtime_ok_def by (metis set_mset_mset)+
  have "set_hashes senv ids (s\<lparr>NeedRecompute := [], World := w1\<rparr>) = (Ok u, s')"
    using assms(6) r by (simp add: ClearCacheAndSetHash_def ClearPartitionsCache_def go_simps attempt_def gets_def
        modify_def effect_def)
  from mongo.set_hashes_res [OF assms(1) refl this] show ?thesis using assms(3-5) same by (simp cong: if_cong)
qed

theorem ClearCacheAndSetHash_updates_witness:
  "\<exists>s s'. NeedRecompute s = [1] \<and> ClearCacheAndSetHash demo_senv s = (Ok (), s') \<and> NeedRecompute s' = [] \<and>
     part_map (mem_docs (World s')) 1 = Some (hex_encode (partition_hash demo_senv (mem_docs (World s)) 1))"
proof -
  let ?v = "mem_parts [] [demo_info 1 TX_STATE_CLOSED, demo_info 2 TX_STATE_CLOSED] []"
  let ?s = "\<lparr>World = ?v, Peers = [], NeedRecompute = [1]\<rparr>"
  note v = demo_closed_wf [OF disjI1 [OF refl]]
  have "Db (Env demo_senv) = mem_mgo" by simp
  then obtain w' where "ComputeAndSetPartitionHash demo_senv 1 ?v = (Ok (), w')"
    by (rule mem.ComputeAndSetPartitionHash_up [OF v(1,3,2)])
  then have run: "ClearCacheAndSetHash demo_senv ?s = (Ok (), ?s\<lparr>World := w', NeedRecompute := []\<rparr>)"
    by (simp add: ClearCacheAndSetHash_def ClearPartitionsCache_def set_hashes_def go_simps attempt_def gets_def
        modify_def effect_def world_def)
  have rt: "runtime_ok mem_docs (\<lambda>w c. set (mem_uniq w c)) (Runtime demo_senv)" by (simp add: runtime_ok_def)
  have "part_map (mem_docs w') 1 = Some (hex_encode (partition_hash demo_senv (mem_docs ?v) 1))"
    using ClearCacheAndSetHash_updates [OF demo_mongo_senv rt _ _ _ run] v by simp
  then show ?thesis using run by (intro exI [of _ ?s] exI [of _ "?s\<lparr>World := w', NeedRecompute := []\<rparr>"]) simp
qed

text \<open>
  C31: the comment in \<open>ClearCacheAndSetHash\<close> is right to worry. The marks are cleared before
  the hashes are computed: when the call fails, no mark is left, so the partitions that
  were not recomputed keep their old hash and no later call repairs them.
\<close>

theorem ClearCacheAndSetHash_forgets:
  assumes "ClearCacheAndSetHash senv s = (Fail e, s')"
  shows "NeedRecompute s' = []"
proof -
  let ?I = "\<lambda>s. NeedRecompute s = []"
  have step: "?I v'" if "(if pid = -1 then ret () else world (ComputeAndSetPartitionHash senv pid)) v = (r, v')" "?I v"
    for pid v r v'
    using that by (auto simp: ret_def world_def split: if_splits prod.splits)
  obtain ids w1 where r: "RangeInts (Runtime senv) (NeedRecompute s) (World s) = (ids, w1)" by fastforce
  have "set_hashes senv ids (s\<lparr>NeedRecompute := [], World := w1\<rparr>) = (Fail e, s')"
    using assms r by (simp add: ClearCacheAndSetHash_def ClearPartitionsCache_def go_simps attempt_def gets_def
        modify_def effect_def)
  then show ?thesis
    unfolding set_hashes_def by (rule for_each_invariant [where I = ?I, rotated]) (use step in auto)
qed

theorem ClearCacheAndSetHash_forgets_witness:
  "\<exists>s s' e. NeedRecompute s = [0, 1] \<and> ClearCacheAndSetHash demo_senv s = (Fail e, s') \<and> NeedRecompute s' = []"
proof -
  let ?r = "(demo_info 1 TX_STATE_CLOSED)\<lparr>Raw_Txid := ''x'', Raw_Height := 7\<rparr>"
  let ?s = "\<lparr>World = mem_parts [] [?r] [], Peers = [], NeedRecompute = [0, 1]\<rparr>"
  have "(case fst (ClearCacheAndSetHash demo_senv ?s) of Fail e \<Rightarrow> True | _ \<Rightarrow> False)" by code_simp
  then obtain e s' where run: "ClearCacheAndSetHash demo_senv ?s = (Fail e, s')"
    by (cases "ClearCacheAndSetHash demo_senv ?s") (auto split: res.splits)
  from ClearCacheAndSetHash_forgets [OF run] run show ?thesis
    by (intro exI [of _ ?s] exI [of _ s'] exI [of _ e]) simp
qed

end
