(* ===== verification/Raw_Tx.thy ===== *)
theory Raw_Tx
  imports Ledger_History
begin

text \<open>
  The content of the transaction repository: which documents make up a recorded
  transaction, that recording keeps this under every failure, and that \<open>GetMsgTxInfo\<close>
  puts the segments together again.
\<close>

section \<open>Recorded transactions\<close>

definition segments :: "tx_lib \<Rightarrow> MsgTx \<Rightarrow> string list" where
  "segments lib t = (case SplitString (SeserializeMsgTxStr lib t) MAX_SEGMENT_SIZE of Some ps \<Rightarrow> ps | None \<Rightarrow> [])"

definition seg :: "tx_lib \<Rightarrow> MsgTx \<Rightarrow> nat \<Rightarrow> doc" where
  "seg lib t i = segment_doc (TxHash lib t) (int i) (segments lib t ! i)"

text \<open>
  Every document belongs to a transaction of \<open>S\<close>: it is one of its segments, or its
  information document, and the latter is there only when all segments are.
\<close>

definition raw_ok :: "tx_lib \<Rightarrow> MsgTx set \<Rightarrow> (string \<Rightarrow> doc list) \<Rightarrow> bool" where
  "raw_ok lib S db \<longleftrightarrow> (\<forall>d \<in> set (db TBL_RAW_TX_INFO). \<exists>t \<in> S. d TXID = Some (BStr (TxHash lib t)) \<and>
     ((\<exists>i < length (segments lib t). d = seg lib t i) \<or>
      d INDEX = Some (BInt TX_INFO_INDEX) \<and>
      (\<forall>i < length (segments lib t). seg lib t i \<in> set (db TBL_RAW_TX_INFO))))"

lemma SplitString_segments: "SplitString (SeserializeMsgTxStr lib t) MAX_SEGMENT_SIZE = Some (segments lib t)"
  by (rule SplitString_spec [of MAX_SEGMENT_SIZE "SeserializeMsgTxStr lib t"])
     (simp_all add: segments_def MAX_SEGMENT_SIZE_def)

lemma concat_segments: "concat (segments lib t) = SeserializeMsgTxStr lib t"
  by (rule SplitString_spec [of MAX_SEGMENT_SIZE "SeserializeMsgTxStr lib t"])
     (simp_all add: segments_def MAX_SEGMENT_SIZE_def)

lemma seg_fields [simp]:
  "seg lib t i TXID = Some (BStr (TxHash lib t))" "seg lib t i INDEX = Some (BInt (int i))"
  "Raw_Index (RawTxInfo_of_doc (seg lib t i)) = int i"
  "Raw_Data (RawTxInfo_of_doc (seg lib t i)) = segments lib t ! i"
  by (simp_all add: seg_def segment_doc_def)

lemma info_doc_fields [simp]:
  "info_doc txid h b ts TXID = Some (BStr txid)" "info_doc txid h b ts INDEX = Some (BInt TX_INFO_INDEX)"
  by (simp_all add: info_doc_def)

lemma raw_okD:
  assumes "raw_ok lib S db" "inj_on (TxHash lib) S" "t \<in> S" "d \<in> set (db TBL_RAW_TX_INFO)"
    "d TXID = Some (BStr (TxHash lib t))"
  shows "(\<exists>i < length (segments lib t). d = seg lib t i) \<or>
    d INDEX = Some (BInt TX_INFO_INDEX) \<and> (\<forall>i < length (segments lib t). seg lib t i \<in> set (db TBL_RAW_TX_INFO))"
proof -
  obtain t' where t': "t' \<in> S" "d TXID = Some (BStr (TxHash lib t'))" and
    k: "(\<exists>i < length (segments lib t'). d = seg lib t' i) \<or> d INDEX = Some (BInt TX_INFO_INDEX) \<and>
      (\<forall>i < length (segments lib t'). seg lib t' i \<in> set (db TBL_RAW_TX_INFO))"
    using assms(1,4) unfolding raw_ok_def by blast
  have "t' = t" using assms(2,3,5) t' by (simp add: inj_on_def)
  then show ?thesis using k by blast
qed

lemma raw_ok_cong: "db' TBL_RAW_TX_INFO = db TBL_RAW_TX_INFO \<Longrightarrow> raw_ok lib S db' = raw_ok lib S db"
  by (simp add: raw_ok_def)

text \<open>Rewriting other fields of an information document keeps the content.\<close>

lemma raw_ok_update:
  assumes ok: "raw_ok lib S db" and i: "i < length (db TBL_RAW_TX_INFO)"
    and m: "matches (info_key txid) (db TBL_RAW_TX_INFO ! i)"
    and u: "TXID \<notin> fst ` set u" "INDEX \<notin> fst ` set u"
    and db': "db' TBL_RAW_TX_INFO = (db TBL_RAW_TX_INFO)[i := set_fields u (db TBL_RAW_TX_INFO ! i)]"
  shows "raw_ok lib S db'"
proof -
  let ?R = "db TBL_RAW_TX_INFO"
  have same: "set_fields u d TXID = d TXID" "set_fields u d INDEX = d INDEX" for d
    using u by (simp_all add: set_fields_def map_add_def map_of_eq_None_iff [THEN iffD2])
  have idx: "(?R ! i) INDEX = Some (BInt TX_INFO_INDEX)" using m by (simp add: matches_def info_key_def)
  have seg: "seg lib t k \<in> set (db' TBL_RAW_TX_INFO)" if "seg lib t k \<in> set ?R" for t k
  proof -
    obtain j where j: "j < length ?R" "?R ! j = seg lib t k" using \<open>seg lib t k \<in> set ?R\<close> by (auto simp: in_set_conv_nth)
    have "j \<noteq> i" using idx j by (auto simp: tx_info_consts)
    then have "db' TBL_RAW_TX_INFO ! j = seg lib t k" "j < length (db' TBL_RAW_TX_INFO)" using j by (simp_all add: db')
    then show ?thesis by (metis nth_mem)
  qed
  show ?thesis
    unfolding raw_ok_def
  proof
    fix d assume "d \<in> set (db' TBL_RAW_TX_INFO)"
    then obtain j where j: "j < length ?R" "d = (if j = i then set_fields u (?R ! i) else ?R ! j)"
      unfolding db' by (auto simp: in_set_conv_nth nth_list_update)
    have "?R ! j \<in> set ?R" using j(1) by simp
    then obtain t where t: "t \<in> S" "(?R ! j) TXID = Some (BStr (TxHash lib t))"
      "(\<exists>k < length (segments lib t). ?R ! j = seg lib t k) \<or> (?R ! j) INDEX = Some (BInt TX_INFO_INDEX) \<and>
       (\<forall>k < length (segments lib t). seg lib t k \<in> set ?R)"
      using ok unfolding raw_ok_def by blast
    show "\<exists>t \<in> S. d TXID = Some (BStr (TxHash lib t)) \<and> ((\<exists>k < length (segments lib t). d = seg lib t k) \<or>
        d INDEX = Some (BInt TX_INFO_INDEX) \<and> (\<forall>k < length (segments lib t). seg lib t k \<in> set (db' TBL_RAW_TX_INFO)))"
    proof (cases "j = i")
      case False
      then show ?thesis using j(2) t seg by (intro bexI [OF _ t(1)]) auto
    next
      case True
      have "?R ! i \<noteq> seg lib t k" for k using idx by (auto simp: tx_info_consts)
      then show ?thesis using True j(2) t seg same by (intro bexI [OF _ t(1)]) auto
    qed
  qed
qed


section \<open>Operations keep the content\<close>

definition wf_store :: "tx_lib \<Rightarrow> MsgTx set \<Rightarrow> (string \<Rightarrow> doc list) \<Rightarrow> (string \<Rightarrow> string list set) \<Rightarrow> bool" where
  "wf_store lib S db un \<longleftrightarrow> wf_db db un \<and> raw_ok lib S db"

context mongo
begin

lemma SetMsgTxState_raw:
  assumes "raw_ok lib S (docs w)" "SetMsgTxState drv t s w = (r, w')"
  shows "raw_ok lib S (docs w')"
proof (cases "s \<in> {TX_STATE_NEW, TX_STATE_OPEN, TX_STATE_CLOSED}")
  case True
  then have "UpdateOne drv TBL_RAW_TX_INFO (info_key t) [(STATE, BInt s)] w = (r, w')"
    using assms(2) by (simp add: SetMsgTxState_def)
  note up = UpdateOne_res [OF this]
  show ?thesis
  proof (cases r)
    case (Ok u)
    then obtain i where i: "i < length (docs w TBL_RAW_TX_INFO)" "matches (info_key t) (docs w TBL_RAW_TX_INFO ! i)"
      "docs w' TBL_RAW_TX_INFO = (docs w TBL_RAW_TX_INFO)[i := set_fields [(STATE, BInt s)] (docs w TBL_RAW_TX_INFO ! i)]"
      using up by auto
    show ?thesis by (rule raw_ok_update [where db = "docs w" and db' = "docs w'", OF assms(1) i(1,2) _ _ i(3)]) simp_all
  qed (use up assms(1) in auto)
qed (use assms in \<open>auto simp: SetMsgTxState_def fail_def\<close>)

text \<open>The store with this content is a ledger, too, so everything proved of ledgers keeps it.\<close>

lemma is_ledger_raw:
  "ledger drv (\<lambda>w. points_of (docs w)) (\<lambda>w. txstate_of (docs w)) (\<lambda>w. wf_store lib S (docs w) (uniq w))"
proof (unfold_locales, goal_cases)
  case (1 w t i r w')
  then show ?case using RepoGetTxPoint_res [of w t i r w'] by (simp add: wf_store_def same_def)
next
  case (2 w p r w')
  have "docs w' TBL_RAW_TX_INFO = docs w TBL_RAW_TX_INFO"
    using Insert_res [OF 2(2) [unfolded AddTxPoint_def]] by (cases r) auto
  then have "raw_ok lib S (docs w')" using 2(1) raw_ok_cong [of "docs w'" "docs w"] by (simp add: wf_store_def)
  then show ?case using AddTxPoint_res [of w p r w'] 2 by (simp add: wf_store_def)
next
  case (3 w t r w')
  then show ?case using GetMsgTxBriefInfo_res [of w t r w'] by (simp add: wf_store_def same_def)
next
  case (4 w t s r w')
  then show ?case using SetMsgTxState_res [of w t s r w'] SetMsgTxState_raw [of lib S w t s r w'] by (simp add: wf_store_def)
next
  case (5 w)
  then show ?case by (simp add: wf_store_def wf_db_def)
qed

lemma insert_raw_res:
  assumes wf: "wf_db (docs w) (uniq w)" and run: "insert_ignore_dup drv TBL_RAW_TX_INFO d w = (r, w')"
  shows "wf_db (docs w') (uniq w') \<and> uniq w' = uniq w \<and>
    (\<forall>c. c \<noteq> TBL_RAW_TX_INFO \<longrightarrow> docs w' c = docs w c) \<and>
    (docs w' TBL_RAW_TX_INFO = docs w TBL_RAW_TX_INFO \<or>
     docs w' TBL_RAW_TX_INFO = docs w TBL_RAW_TX_INFO @ [d] \<and> raw_id d \<notin> raw_id ` set (docs w TBL_RAW_TX_INFO)) \<and>
    (case r of Ok u \<Rightarrow> raw_id d \<in> raw_id ` set (docs w' TBL_RAW_TX_INFO) | Fail e \<Rightarrow> True | Stop x \<Rightarrow> False)"
proof -
  have un: "uniq w TBL_RAW_TX_INFO = {[TXID, INDEX]}" using wf by (simp add: wf_db_def)
  have cl: "clash [TXID, INDEX] d (docs w TBL_RAW_TX_INFO) \<longleftrightarrow> raw_id d \<in> raw_id ` set (docs w TBL_RAW_TX_INFO)"
  proof -
    have "clash [TXID, INDEX] d (docs w TBL_RAW_TX_INFO) \<longleftrightarrow> (\<exists>d' \<in> set (docs w TBL_RAW_TX_INFO). raw_id d' = raw_id d)"
      by (simp add: clash_def raw_id_def)
    then show ?thesis unfolding image_iff by metis
  qed
  have wf': "wf_db (docs w') (uniq w')" using insert_raw_keeps [OF wf run] by blast
  show ?thesis
    using run unfolding insert_ignore_dup_def
  proof (cases rule: attempt_eqE)
    case (Ok u w1)
    have out: "r = Ok u" "w1 = w'" using Ok(2) by (simp_all add: ret_def)
    have d: "docs w' = (docs w)(TBL_RAW_TX_INFO := docs w TBL_RAW_TX_INFO @ [d])" "uniq w' = uniq w"
      "\<not> clash [TXID, INDEX] d (docs w TBL_RAW_TX_INFO)"
      using Insert_res [OF Ok(1)] un unfolding out(2) by simp_all
    show ?thesis using d cl wf' out by simp
  next
    case (Fail e w1)
    have out: "w1 = w'" "r = Fail e \<or> is_duplicate e \<and> r = Ok ()"
      using Fail(2) by (auto simp: go_simps split: if_splits)
    have d: "docs w' = docs w" "uniq w' = uniq w" "is_duplicate e \<Longrightarrow> clash [TXID, INDEX] d (docs w TBL_RAW_TX_INFO)"
      using Insert_res [OF Fail(1)] un unfolding out(1) by simp_all
    show ?thesis using out(2) d cl wf' by (elim disjE conjE) simp_all
  next
    case (Stop x)
    then show ?thesis using Insert_res [OF Stop(1)] by simp
  qed
qed

end

lemma raw_ok_append:
  assumes "raw_ok lib S db" "db' TBL_RAW_TX_INFO = db TBL_RAW_TX_INFO @ [d]" "t \<in> S" "d TXID = Some (BStr (TxHash lib t))"
    "(\<exists>i < length (segments lib t). d = seg lib t i) \<or> d INDEX = Some (BInt TX_INFO_INDEX) \<and>
      (\<forall>i < length (segments lib t). seg lib t i \<in> set (db TBL_RAW_TX_INFO))"
  shows "raw_ok lib S db'"
proof -
  let ?P = "\<lambda>R d. \<exists>t \<in> S. d TXID = Some (BStr (TxHash lib t)) \<and> ((\<exists>i < length (segments lib t). d = seg lib t i) \<or>
      d INDEX = Some (BInt TX_INFO_INDEX) \<and> (\<forall>i < length (segments lib t). seg lib t i \<in> set R))"
  have more: "?P (R @ [d]) e" if P: "?P R e" for R e
  proof -
    obtain t where t: "t \<in> S" "e TXID = Some (BStr (TxHash lib t))" "(\<exists>i < length (segments lib t). e = seg lib t i) \<or>
      e INDEX = Some (BInt TX_INFO_INDEX) \<and> (\<forall>i < length (segments lib t). seg lib t i \<in> set R)" using P by blast
    show ?thesis by (rule bexI [OF _ t(1)]) (use t(2,3) in auto)
  qed
  have "?P (db TBL_RAW_TX_INFO) d" using assms(3-5) by blast
  moreover have "\<forall>e \<in> set (db TBL_RAW_TX_INFO). ?P (db TBL_RAW_TX_INFO) e" using assms(1) unfolding raw_ok_def .
  ultimately have "\<forall>e \<in> set (db TBL_RAW_TX_INFO @ [d]). ?P (db TBL_RAW_TX_INFO @ [d]) e" using more by simp
  then show ?thesis unfolding raw_ok_def assms(2) .
qed

text \<open>A key that is taken by a document of the right content holds the segment.\<close>

lemma raw_ok_seg:
  assumes "raw_ok lib S db" "inj_on (TxHash lib) S" "t \<in> S" "i < length (segments lib t)"
    "raw_id (seg lib t i) \<in> raw_id ` set (db TBL_RAW_TX_INFO)"
  shows "seg lib t i \<in> set (db TBL_RAW_TX_INFO)"
proof -
  obtain d where d: "d \<in> set (db TBL_RAW_TX_INFO)" "d TXID = Some (BStr (TxHash lib t))" "d INDEX = Some (BInt (int i))"
    using assms(5) by (auto simp: raw_id_def)
  have "d INDEX \<noteq> Some (BInt TX_INFO_INDEX)" using d(3) by (simp add: tx_info_consts)
  then obtain k where "d = seg lib t k" using raw_okD [OF assms(1-3) d(1,2)] by blast
  then show ?thesis using d by simp
qed

lemma txstate_of_append:
  assumes "db' TBL_RAW_TX_INFO = db TBL_RAW_TX_INFO @ [d]"
  shows "d INDEX \<noteq> Some (BInt TX_INFO_INDEX) \<Longrightarrow> txstate_of db' = txstate_of db"
    and "raw_id d = (Some (BStr t), Some (BInt TX_INFO_INDEX)) \<Longrightarrow> raw_id d \<notin> raw_id ` set (db TBL_RAW_TX_INFO) \<Longrightarrow>
      t \<notin> dom (txstate_of db) \<and> txstate_of db' = (txstate_of db)(t \<mapsto> get_int d STATE)"
proof -
  have i: "info_docs db' u = info_docs db u @ (if raw_id d = (Some (BStr u), Some (BInt TX_INFO_INDEX)) then [d] else [])" for u
    by (simp add: info_docs_def assms matches_info_key)
  show "txstate_of db' = txstate_of db" if "d INDEX \<noteq> Some (BInt TX_INFO_INDEX)"
    using that by (auto simp: txstate_of_def fun_eq_iff i raw_id_def)
  assume d: "raw_id d = (Some (BStr t), Some (BInt TX_INFO_INDEX))" "raw_id d \<notin> raw_id ` set (db TBL_RAW_TX_INFO)"
  then have n: "info_docs db t = []"
    by (auto simp: info_docs_def filter_empty_conv matches_info_key image_iff)
  then show "t \<notin> dom (txstate_of db) \<and> txstate_of db' = (txstate_of db)(t \<mapsto> get_int d STATE)"
    using d(1) by (auto simp: txstate_of_def fun_eq_iff i)
qed


section \<open>Recording\<close>

context mongo
begin

lemma insert_seg_res:
  assumes wf: "wf_store lib S (docs w) (uniq w)" and S: "inj_on (TxHash lib) S" "t \<in> S"
    and i: "i < length (segments lib t)"
    and run: "insert_ignore_dup drv TBL_RAW_TX_INFO (seg lib t i) w = (r, w')"
  shows "wf_store lib S (docs w') (uniq w') \<and> points_of (docs w') = points_of (docs w) \<and>
    txstate_of (docs w') = txstate_of (docs w) \<and> set (docs w TBL_RAW_TX_INFO) \<subseteq> set (docs w' TBL_RAW_TX_INFO) \<and>
    (case r of Ok u \<Rightarrow> seg lib t i \<in> set (docs w' TBL_RAW_TX_INFO) | Fail e \<Rightarrow> True | Stop x \<Rightarrow> False)"
proof -
  have wf1: "wf_db (docs w) (uniq w)" "raw_ok lib S (docs w)" using wf by (simp_all add: wf_store_def)
  note res = insert_raw_res [OF wf1(1) run]
  have pts: "points_of (docs w') = points_of (docs w)" using res by (simp add: points_of_def)
  have new: "raw_ok lib S (docs w') \<and> txstate_of (docs w') = txstate_of (docs w) \<and>
      set (docs w TBL_RAW_TX_INFO) \<subseteq> set (docs w' TBL_RAW_TX_INFO)"
  proof (cases "docs w' TBL_RAW_TX_INFO = docs w TBL_RAW_TX_INFO")
    case True
    then have "txstate_of (docs w') = txstate_of (docs w)" by (simp add: txstate_of_def info_docs_def fun_eq_iff)
    then show ?thesis using True wf1(2) raw_ok_cong [of "docs w'" "docs w"] by simp
  next
    case False
    then have d: "docs w' TBL_RAW_TX_INFO = docs w TBL_RAW_TX_INFO @ [seg lib t i]" using res by simp
    have "seg lib t i INDEX \<noteq> Some (BInt TX_INFO_INDEX)" by (simp add: tx_info_consts)
    moreover have "raw_ok lib S (docs w')" by (rule raw_ok_append [where db' = "docs w'", OF wf1(2) d S(2)]) (use i in auto)
    ultimately show ?thesis using txstate_of_append(1) [of "docs w'" "docs w", OF d] d by auto
  qed
  have "seg lib t i \<in> set (docs w' TBL_RAW_TX_INFO)" if "r = Ok u" for u
    using raw_ok_seg [of lib S "docs w'" t i] new S i res that by simp
  moreover have "wf_db (docs w') (uniq w')" and "r \<noteq> Stop x" for x using res by auto
  ultimately show ?thesis using new pts by (cases r) (auto simp: wf_store_def)
qed

lemma insert_segs_res:
  assumes S: "inj_on (TxHash lib) S" "t \<in> S"
  shows "for_each (\<lambda>(index, piece). insert_ignore_dup drv TBL_RAW_TX_INFO (segment_doc (TxHash lib t) index piece))
      (map (\<lambda>i. (int i, segments lib t ! i)) is) w = (r, w') \<Longrightarrow>
    wf_store lib S (docs w) (uniq w) \<Longrightarrow> \<forall>i \<in> set is. i < length (segments lib t) \<Longrightarrow>
    wf_store lib S (docs w') (uniq w') \<and> points_of (docs w') = points_of (docs w) \<and>
    txstate_of (docs w') = txstate_of (docs w) \<and> set (docs w TBL_RAW_TX_INFO) \<subseteq> set (docs w' TBL_RAW_TX_INFO) \<and>
    (case r of Ok u \<Rightarrow> seg lib t ` set is \<subseteq> set (docs w' TBL_RAW_TX_INFO) | Fail e \<Rightarrow> True | Stop x \<Rightarrow> False)"
proof (induction "is" arbitrary: w)
  case Nil
  then show ?case by (auto simp: ret_def)
next
  case (Cons i "is")
  have i: "i < length (segments lib t)" using Cons.prems(3) by simp
  have one: "andThen (insert_ignore_dup drv TBL_RAW_TX_INFO (seg lib t i)) (\<lambda>_.
      for_each (\<lambda>(index, piece). insert_ignore_dup drv TBL_RAW_TX_INFO (segment_doc (TxHash lib t) index piece))
      (map (\<lambda>i. (int i, segments lib t ! i)) is)) w = (r, w')"
    using Cons.prems(1) by (simp add: seg_def)
  then show ?case
  proof (cases rule: andThen_eqE)
    case (Ok u w1)
    note a = insert_seg_res [OF Cons.prems(2) S i Ok(1)]
    have "wf_store lib S (docs w1) (uniq w1)" "\<forall>i \<in> set is. i < length (segments lib t)" using a Cons.prems(3) by simp_all
    note b = Cons.IH [OF Ok(2) this]
    have in1: "seg lib t i \<in> set (docs w' TBL_RAW_TX_INFO)" using a b by auto
    show ?thesis using a b in1 by (cases r) auto
  next
    case (Fail e)
    then show ?thesis using insert_seg_res [OF Cons.prems(2) S i Fail(1)] by simp
  next
    case (Stop x)
    then show ?thesis using insert_seg_res [OF Cons.prems(2) S i Stop(1)] by simp
  qed
qed

lemma indexed_eq_map: "indexed xs = map (\<lambda>i. (int i, xs ! i)) [0..<length xs]"
  by (rule nth_equalityI) (simp_all add: indexed_def)

text \<open>
  Recording a transaction, on every outcome: nothing but its own documents is added, and
  after success it is known.
\<close>

lemma AddMsgTxInfo_res:
  assumes wf: "wf_store lib S (docs w) (uniq w)" and S: "inj_on (TxHash lib) S" "t \<in> S"
    and run: "AddMsgTxInfo drv lib t height hash ts w = (r, w')"
  defines "txid \<equiv> TxHash lib t"
  shows "wf_store lib S (docs w') (uniq w') \<and> points_of (docs w') = points_of (docs w) \<and>
    (txstate_of (docs w') = txstate_of (docs w) \<or>
     txid \<notin> dom (txstate_of (docs w)) \<and> txstate_of (docs w') = (txstate_of (docs w))(txid \<mapsto> TX_STATE_NEW)) \<and>
    (case r of Ok u \<Rightarrow> txid \<in> dom (txstate_of (docs w')) | Fail e \<Rightarrow> True | Stop x \<Rightarrow> False)"
proof -
  let ?segs = "for_each (\<lambda>(index, piece). insert_ignore_dup drv TBL_RAW_TX_INFO (segment_doc (TxHash lib t) index piece))
      (map (\<lambda>i. (int i, segments lib t ! i)) [0..<length (segments lib t)])"
  let ?info = "info_doc (TxHash lib t) height hash ts"
  have "andThen ?segs (\<lambda>_. insert_ignore_dup drv TBL_RAW_TX_INFO ?info) w = (r, w')"
    using run by (simp add: AddMsgTxInfo_def SplitString_segments indexed_eq_map)
  then show ?thesis
  proof (cases rule: andThen_eqE)
    case (Ok u w1)
    have a: "wf_store lib S (docs w1) (uniq w1)" "points_of (docs w1) = points_of (docs w)"
      "txstate_of (docs w1) = txstate_of (docs w)"
      "seg lib t ` set [0..<length (segments lib t)] \<subseteq> set (docs w1 TBL_RAW_TX_INFO)"
      using insert_segs_res [OF S Ok(1) wf] by simp_all
    have wf1: "wf_db (docs w1) (uniq w1)" "raw_ok lib S (docs w1)" using a(1) by (simp_all add: wf_store_def)
    note res = insert_raw_res [OF wf1(1) Ok(2)]
    have id: "raw_id ?info = (Some (BStr txid), Some (BInt TX_INFO_INDEX))" by (simp add: raw_id_def txid_def)
    have pts: "points_of (docs w') = points_of (docs w)" using res a(2) by (simp add: points_of_def)
    have known: "txid \<in> dom (txstate_of (docs w'))" if "r = Ok u" for u
    proof -
      have "raw_id ?info \<in> raw_id ` set (docs w' TBL_RAW_TX_INFO)" using res that by simp
      then obtain d where d: "raw_id ?info = raw_id d" "d \<in> set (docs w' TBL_RAW_TX_INFO)" by (rule imageE)
      then have "matches (info_key txid) d" using id by (simp add: matches_info_key)
      then have "info_docs (docs w') txid \<noteq> []" using d(2) by (auto simp: info_docs_def filter_empty_conv)
      then show ?thesis by (auto simp: txstate_of_def split: list.splits)
    qed
    have st: "raw_ok lib S (docs w') \<and> (txstate_of (docs w') = txstate_of (docs w) \<or>
        txid \<notin> dom (txstate_of (docs w)) \<and> txstate_of (docs w') = (txstate_of (docs w))(txid \<mapsto> TX_STATE_NEW))"
    proof (cases "docs w' TBL_RAW_TX_INFO = docs w1 TBL_RAW_TX_INFO")
      case True
      then have "txstate_of (docs w') = txstate_of (docs w1)" by (simp add: txstate_of_def info_docs_def fun_eq_iff)
      then show ?thesis using True wf1(2) raw_ok_cong [of "docs w'" "docs w1"] a(3) by simp
    next
      case False
      then have d: "docs w' TBL_RAW_TX_INFO = docs w1 TBL_RAW_TX_INFO @ [?info]"
        "raw_id ?info \<notin> raw_id ` set (docs w1 TBL_RAW_TX_INFO)" using res by simp_all
      have "raw_ok lib S (docs w')" by (rule raw_ok_append [where db' = "docs w'", OF wf1(2) d(1) S(2)]) (use a(4) in auto)
      moreover have "get_int ?info STATE = TX_STATE_NEW" by (simp add: info_doc_def)
      ultimately show ?thesis using txstate_of_append(2) [of "docs w'" "docs w1", OF d(1) id d(2)] a(3) by simp
    qed
    have wf': "wf_db (docs w') (uniq w')" and ns: "r \<noteq> Stop x" for x using res by auto
    show ?thesis using st pts known wf' ns by (cases r) (auto simp: wf_store_def)
  next
    case (Fail e)
    then show ?thesis using insert_segs_res [OF S Fail(1) wf] by simp
  next
    case (Stop x)
    then show ?thesis using insert_segs_res [OF S Stop(1) wf] by simp
  qed
qed

end


section \<open>Reading back\<close>

lemma scan_page_eq:
  "scan_page rows (info, parts) =
     ((case filter (\<lambda>r. Raw_Index r = TX_INFO_INDEX) rows of [] \<Rightarrow> info | rs \<Rightarrow> Some (last rs)),
      parts @ map Raw_Data (filter (\<lambda>r. Raw_Index r \<noteq> TX_INFO_INDEX) rows))"
proof (induction rows arbitrary: info parts)
  case (Cons r rows)
  have "scan_page (r # rows) (info, parts) = scan_page rows (if Raw_Index r = TX_INFO_INDEX then (Some r, parts)
      else (info, parts @ [Raw_Data r]))"
    by (simp add: scan_page_def)
  then show ?case using Cons by (auto split: list.splits)
qed (simp add: scan_page_def)

text \<open>The documents of a transaction in the order of their indices.\<close>

definition tx_rows :: "(string \<Rightarrow> doc list) \<Rightarrow> string \<Rightarrow> doc list" where
  "tx_rows db txid = filter (matches [QEq TXID (BStr txid)]) (db TBL_RAW_TX_INFO)"

lemma set_tx_rows: "d \<in> set (tx_rows db txid) \<longleftrightarrow> d \<in> set (db TBL_RAW_TX_INFO) \<and> d TXID = Some (BStr txid)"
  by (simp add: tx_rows_def matches_def)

lemma info_in_rows: "info_docs db txid = filter (\<lambda>d. d INDEX = Some (BInt TX_INFO_INDEX)) (tx_rows db txid)"
  unfolding info_docs_def tx_rows_def filter_filter
  by (intro filter_cong refl) (auto simp: matches_def info_key_def)

lemma ordered_segments:
  assumes wf: "wf_store lib S db un" and S: "inj_on (TxHash lib) S" "t \<in> S"
    and known: "TxHash lib t \<in> dom (txstate_of db)"
    and es: "mset es = mset (tx_rows db (TxHash lib t))" "sorted_by INDEX es"
  shows "filter (\<lambda>d. d INDEX \<noteq> Some (BInt TX_INFO_INDEX)) es = map (seg lib t) [0..<length (segments lib t)]"
proof -
  let ?f = "\<lambda>d. d INDEX" and ?segs = "map (seg lib t) [0..<length (segments lib t)]"
  let ?fs = "filter (\<lambda>d. d INDEX \<noteq> Some (BInt TX_INFO_INDEX)) es" and ?R = "db TBL_RAW_TX_INFO"
  have ok: "raw_ok lib S db" and dist: "distinct (map raw_id ?R)" using wf by (simp_all add: wf_store_def wf_db_def)
  have es_set: "d \<in> set es \<longleftrightarrow> d \<in> set ?R \<and> d TXID = Some (BStr (TxHash lib t))" for d
    using es(1) set_tx_rows by (metis set_mset_mset)
  have "info_docs db (TxHash lib t) \<noteq> []" using known by (auto simp: txstate_of_def)
  then obtain d0 where d0: "d0 \<in> set ?R" "matches (info_key (TxHash lib t)) d0"
    by (auto simp: info_docs_def filter_empty_conv)
  have "d0 TXID = Some (BStr (TxHash lib t))" "d0 INDEX = Some (BInt TX_INFO_INDEX)"
    using d0(2) by (simp_all add: matches_def info_key_def)
  then have segs: "seg lib t i \<in> set ?R" if "i < length (segments lib t)" for i
    using raw_okD [OF ok S d0(1)] that by (auto simp: tx_info_consts)
  have seg_idx: "seg lib t i INDEX \<noteq> Some (BInt TX_INFO_INDEX)" for i by (simp add: tx_info_consts)
  have set_eq: "set ?fs = set ?segs"
  proof
    show "set ?fs \<subseteq> set ?segs"
    proof
      fix d assume "d \<in> set ?fs"
      then have d: "d \<in> set ?R" "d TXID = Some (BStr (TxHash lib t))" "d INDEX \<noteq> Some (BInt TX_INFO_INDEX)"
        using es_set by auto
      then show "d \<in> set ?segs" using raw_okD [OF ok S d(1,2)] by auto
    qed
    show "set ?segs \<subseteq> set ?fs" using segs seg_idx es_set by auto
  qed
  have "distinct (map raw_id (tx_rows db (TxHash lib t)))" using dist by (simp add: tx_rows_def distinct_map_filter)
  moreover have "mset (map raw_id es) = mset (map raw_id (tx_rows db (TxHash lib t)))" by (simp only: mset_map es(1))
  ultimately have de: "distinct (map raw_id es)" using mset_eq_imp_distinct_iff by blast
  have inj: "inj_on ?f (set ?segs)" by (auto simp: inj_on_def)
  have "distinct es" using de by (simp add: distinct_map)
  then have "distinct (map ?f ?fs)" using inj unfolding distinct_map set_eq by simp
  moreover have "sorted (map ?f es)" using es(2) by (simp add: sorted_by_def has_prefix_def)
  then have "sorted (map ?f ?fs)" by (rule sorted_filter)
  moreover have "map ?f ?segs = map (\<lambda>i. Some (BInt (int i))) [0..<length (segments lib t)]" by simp
  then have "sorted (map ?f ?segs)" "distinct (map ?f ?segs)"
    by (simp_all add: sorted_map distinct_map inj_on_def sorted_wrt_upt)
  ultimately show ?thesis using inj set_eq by (intro map_sorted_distinct_set_unique [of ?f]) simp_all
qed

lemma length_tx_rows:
  assumes wf: "wf_store lib S db un" and S: "inj_on (TxHash lib) S" "t \<in> S"
    and known: "TxHash lib t \<in> dom (txstate_of db)"
  shows "length (tx_rows db (TxHash lib t)) = Suc (length (segments lib t))"
proof -
  let ?rows = "tx_rows db (TxHash lib t)" and ?P = "\<lambda>d. d INDEX = Some (BInt TX_INFO_INDEX)"
  have "mset (mem_sort INDEX ?rows) = mset ?rows" by simp
  from ordered_segments [OF wf S known this] have
    "length (filter (\<lambda>d. \<not> ?P d) (mem_sort INDEX ?rows)) = length (segments lib t)" by simp
  moreover have "length (filter (\<lambda>d. \<not> ?P d) (mem_sort INDEX ?rows)) = length (filter (\<lambda>d. \<not> ?P d) ?rows)"
    by (rule mset_eq_length) (simp only: mset_filter mset_mem_sort)
  moreover have "length (info_docs db (TxHash lib t)) = 1"
  proof -
    have "info_docs db (TxHash lib t) \<noteq> []" using known by (auto simp: txstate_of_def)
    then obtain d where "d \<in> set (db TBL_RAW_TX_INFO)" "matches (info_key (TxHash lib t)) d"
      by (auto simp: info_docs_def filter_empty_conv)
    then show ?thesis using wf info_doc_unique [of db d] by (simp add: wf_store_def wf_db_def)
  qed
  moreover have "length (filter ?P ?rows) + length (filter (\<lambda>d. \<not> ?P d) ?rows) = length ?rows"
    by (rule sum_length_filter_compl)
  ultimately show ?thesis by (simp add: info_in_rows)
qed

context mongo
begin

lemma GetMsgTxInfo_page:
  assumes "GetMany drv TBL_RAW_TX_INFO [QEq TXID (BStr txid)] INDEX 0 128 w = (r, w')"
  shows "same w w' \<and> (case r of
      Ok ds \<Rightarrow> (\<exists>es. mset es = mset (tx_rows (docs w) txid) \<and> sorted_by INDEX es \<and> ds = take 128 es)
    | Fail e \<Rightarrow> \<not> is_not_found e | Stop x \<Rightarrow> False)"
  using GetMany_res [OF assms] unfolding tx_rows_def by (auto cong: res.case_cong)

text \<open>The loop returns only when all documents of the transaction fit into half a page.\<close>

lemma GetMsgTxInfo_loop_res:
  assumes "GetMsgTxInfo_loop drv txid st w = Some y"
  shows "same w (snd y) \<and> (case fst y of
      Ok st' \<Rightarrow> (\<exists>es. mset es = mset (tx_rows (docs w) txid) \<and> sorted_by INDEX es \<and> length es < 64 \<and>
        st' = scan_page (map RawTxInfo_of_doc es) st)
    | Fail e \<Rightarrow> \<not> is_not_found e \<and>
        (\<exists>v v'. GetMany drv TBL_RAW_TX_INFO [QEq TXID (BStr txid)] INDEX 0 128 v = (Fail e, v'))
    | Stop x \<Rightarrow> False)"
proof -
  let ?Q = "\<lambda>x st w y. same w (snd y) \<and> (case fst y of
      Ok st' \<Rightarrow> (\<exists>es. mset es = mset (tx_rows (docs w) x) \<and> sorted_by INDEX es \<and> length es < 64 \<and>
        st' = scan_page (map RawTxInfo_of_doc es) st)
    | Fail e \<Rightarrow> \<not> is_not_found e \<and>
        (\<exists>v v'. GetMany drv TBL_RAW_TX_INFO [QEq TXID (BStr x)] INDEX 0 128 v = (Fail e, v'))
    | Stop x \<Rightarrow> False)"
  have step: "?Q x st w y"
    if f: "\<And>x st w y. f drv x st w = Some y \<Longrightarrow> ?Q x st w y"
      and body: "(case GetMany drv TBL_RAW_TX_INFO [QEq TXID (BStr x)] INDEX 0 128 w of (r, w') \<Rightarrow> (case r of
           Fail e \<Rightarrow> Some (Fail e, w') | Stop p \<Rightarrow> Some (Stop p, w')
         | Ok ds \<Rightarrow> (if length ds < 128 div 2 then Some (Ok (scan_page (map RawTxInfo_of_doc ds) st), w')
              else f drv x (scan_page (map RawTxInfo_of_doc ds) st) w'))) = Some y"
    for f x st w y
  proof -
    obtain q w1 where q: "GetMany drv TBL_RAW_TX_INFO [QEq TXID (BStr x)] INDEX 0 128 w = (q, w1)" by fastforce
    note pg = GetMsgTxInfo_page [OF q]
    show ?thesis
    proof (cases q)
      case (Ok ds)
      then obtain es where es: "mset es = mset (tx_rows (docs w) x)" "sorted_by INDEX es" "ds = take 128 es"
        and same: "same w w1" using pg by auto
      show ?thesis
      proof (cases "length ds < 64")
        case True
        then have "ds = es" "length es < 64" using es(3) by auto
        moreover have "y = (Ok (scan_page (map RawTxInfo_of_doc ds) st), w1)" using body q Ok True by simp
        ultimately show ?thesis using es same by auto
      next
        case False
        then have long: "64 \<le> length (tx_rows (docs w) x)" using es(3) mset_eq_length [OF es(1)] by auto
        have "f drv x (scan_page (map RawTxInfo_of_doc ds) st) w1 = Some y" using body q Ok False by simp
        note ih = f [OF this]
        have d: "docs w1 = docs w" using same by (simp add: same_def)
        have "fst y \<noteq> Ok st'" for st'
        proof
          assume "fst y = Ok st'"
          then obtain es' where "mset es' = mset (tx_rows (docs w) x)" "length es' < 64" using ih d by auto
          then show False using long mset_eq_length by fastforce
        qed
        then show ?thesis using ih same_trans [OF same] by (cases "fst y") auto
      qed
    qed (use body q pg in \<open>auto, blast\<close>)
  qed
  have "d = drv \<longrightarrow> ?Q x st w y" if run: "GetMsgTxInfo_loop d x st w = Some y" for d x st w y
    by (rule GetMsgTxInfo_loop.raw_induct [where P = "\<lambda>d x st w y. d = drv \<longrightarrow> ?Q x st w y", OF _ run])
       (intro impI, rule step, auto)
  then show ?thesis using assms by blast
qed

lemma GetMsgTxInfo_loop_short:
  assumes "length (tx_rows (docs w) txid) < 64"
  shows "GetMsgTxInfo_loop drv txid st w \<noteq> None"
proof -
  obtain q w1 where q: "GetMany drv TBL_RAW_TX_INFO [QEq TXID (BStr txid)] INDEX 0 128 w = (q, w1)" by fastforce
  show ?thesis
  proof (cases q)
    case (Ok ds)
    then obtain es where "mset es = mset (tx_rows (docs w) txid)" "ds = take 128 es"
      using GetMsgTxInfo_page [OF q] by auto
    then have "length ds < 64" using assms mset_eq_length by fastforce
    then show ?thesis using q Ok by (subst GetMsgTxInfo_loop.simps) simp
  qed (use q in \<open>subst GetMsgTxInfo_loop.simps, simp\<close>)+
qed

lemma scan_rows:
  assumes wf: "wf_store lib S (docs w) (uniq w)" and S: "inj_on (TxHash lib) S" "t \<in> S"
    and known: "TxHash lib t \<in> dom (txstate_of (docs w))"
    and es: "mset es = mset (tx_rows (docs w) (TxHash lib t))" "sorted_by INDEX es"
  obtains r where "scan_page (map RawTxInfo_of_doc es) (None, []) = (Some r, segments lib t)"
proof -
  let ?P = "\<lambda>d. d INDEX = Some (BInt TX_INFO_INDEX)"
  have idx: "Raw_Index (RawTxInfo_of_doc d) = TX_INFO_INDEX \<longleftrightarrow> ?P d" if "d \<in> set es" for d
  proof -
    have d: "d \<in> set (docs w TBL_RAW_TX_INFO)" "d TXID = Some (BStr (TxHash lib t))"
      using es(1) that set_tx_rows [of d "docs w" "TxHash lib t"] by (metis set_mset_mset)+
    have "raw_ok lib S (docs w)" using wf by (simp add: wf_store_def)
    from raw_okD [OF this S d] show ?thesis by (auto simp: RawTxInfo_of_doc_def get_int_def tx_info_consts)
  qed
  have info: "filter ?P es \<noteq> []"
  proof -
    have "info_docs (docs w) (TxHash lib t) \<noteq> []" using known by (auto simp: txstate_of_def)
    moreover have "mset (filter ?P es) = mset (info_docs (docs w) (TxHash lib t))"
      by (simp only: info_in_rows mset_filter es(1))
    ultimately show ?thesis by (metis mset_zero_iff)
  qed
  have "filter (\<lambda>r. Raw_Index r = TX_INFO_INDEX) (map RawTxInfo_of_doc es) = map RawTxInfo_of_doc (filter ?P es)"
    using idx by (simp add: filter_map comp_def cong: filter_cong)
  moreover have "filter (\<lambda>r. Raw_Index r \<noteq> TX_INFO_INDEX) (map RawTxInfo_of_doc es) =
      map RawTxInfo_of_doc (filter (\<lambda>d. \<not> ?P d) es)"
    using idx by (simp add: filter_map comp_def cong: filter_cong)
  moreover have "map (Raw_Data \<circ> RawTxInfo_of_doc) (filter (\<lambda>d. \<not> ?P d) es) = segments lib t"
    unfolding ordered_segments [OF wf S known es] by (rule nth_equalityI) simp_all
  ultimately have "scan_page (map RawTxInfo_of_doc es) (None, []) =
      (Some (last (map RawTxInfo_of_doc (filter ?P es))), segments lib t)"
    using info by (auto simp: scan_page_eq split: list.splits)
  then show ?thesis using that by blast
qed

text \<open>Reading a transaction, on every outcome.\<close>

lemma GetMsgTxInfo_res:
  assumes wf: "wf_store lib S (docs w) (uniq w)" and S: "inj_on (TxHash lib) S" "\<forall>t \<in> S. tx_ok lib t"
    and run: "GetMsgTxInfo drv lib txid w = (r, w')"
  shows "same w w' \<and> (case r of
      Ok info \<Rightarrow> Info_MsgTx info \<in> S \<and> TxHash lib (Info_MsgTx info) = txid
    | Fail e \<Rightarrow> is_not_found e \<longrightarrow> txid \<notin> dom (txstate_of (docs w))
    | Stop x \<Rightarrow> 64 \<le> length (tx_rows (docs w) txid))"
proof (cases "GetMsgTxInfo_loop drv txid (None, []) w")
  case None
  then have "64 \<le> length (tx_rows (docs w) txid)" using GetMsgTxInfo_loop_short [of w txid] by (meson not_le)
  then show ?thesis using run None by (auto simp: GetMsgTxInfo_def andThen_def attempt_def)
next
  case (Some y)
  obtain q w1 where y: "y = (q, w1)" by fastforce
  note loop = GetMsgTxInfo_loop_res [OF Some, unfolded y, simplified]
  show ?thesis
  proof (cases q)
    case (Ok st)
    then obtain es where es: "mset es = mset (tx_rows (docs w) txid)" "sorted_by INDEX es"
      "st = scan_page (map RawTxInfo_of_doc es) (None, [])" and same: "same w w1"
      using loop by auto
    show ?thesis
    proof (cases "txid \<in> dom (txstate_of (docs w))")
      case True
      then have "info_docs (docs w) txid \<noteq> []" by (auto simp: txstate_of_def)
      then obtain d where "d \<in> set (docs w TBL_RAW_TX_INFO)" "d TXID = Some (BStr txid)"
        by (auto simp: info_docs_def filter_empty_conv matches_def info_key_def)
      then obtain t where t: "t \<in> S" "TxHash lib t = txid"
        using wf unfolding wf_store_def raw_ok_def by force
      obtain r0 where "st = (Some r0, segments lib t)"
        using scan_rows [OF wf S(1) t(1)] True es unfolding t(2) by metis
      moreover have "DeserializeTxStr lib (concat (segments lib t)) = Ok t"
        using DeserializeTxStr_SeserializeMsgTxStr S(2) t(1) by (simp add: concat_segments)
      ultimately show ?thesis using run Some y Ok t same by (auto simp: GetMsgTxInfo_def go_simps attempt_def)
    next
      case False
      then have none: "info_docs (docs w) txid = []" by (auto simp: txstate_of_def split: list.splits)
      have "fst st = None"
      proof -
        have "Raw_Index (RawTxInfo_of_doc d) \<noteq> TX_INFO_INDEX" if "d \<in> set es" for d
        proof -
          have "d \<in> set (tx_rows (docs w) txid)" using that es(1) by (metis set_mset_mset)
          then have "d INDEX \<noteq> Some (BInt TX_INFO_INDEX)" "d \<in> set (docs w TBL_RAW_TX_INFO)"
            using none unfolding info_in_rows by (auto simp: filter_empty_conv set_tx_rows)
          then show ?thesis using wf unfolding wf_store_def raw_ok_def
            by (fastforce simp: tx_info_consts)
        qed
        then have "filter (\<lambda>r. Raw_Index r = TX_INFO_INDEX) (map RawTxInfo_of_doc es) = []"
          by (simp add: filter_empty_conv)
        then show ?thesis by (simp add: es(3) scan_page_eq)
      qed
      then show ?thesis using run Some y Ok same False
        by (cases st) (auto simp: GetMsgTxInfo_def go_simps attempt_def)
    qed
  qed (use run Some y loop in \<open>auto simp: GetMsgTxInfo_def go_simps attempt_def\<close>)
qed

end

context mongo_up
begin

lemma AddMsgTxInfo_up: "\<exists>w'. AddMsgTxInfo drv lib t height hash ts w = (Ok (), w')"
proof -
  have ins: "\<exists>w'. insert_ignore_dup drv c d w = (Ok (), w')" for c d w
  proof -
    obtain r w' where run: "Insert drv c d w = (r, w')" by fastforce
    then show ?thesis using Insert_Fail_up Insert_res [OF run]
      by (cases r) (auto simp: insert_ignore_dup_def attempt_def go_simps)
  qed
  have "\<exists>w'. for_each (\<lambda>(index, piece). insert_ignore_dup drv TBL_RAW_TX_INFO (segment_doc txid index piece)) l w = (Ok (), w')"
    for txid l w
  proof (induction l arbitrary: w)
    case (Cons x l)
    obtain i p where x: "x = (i, p)" by fastforce
    obtain w1 where "insert_ignore_dup drv TBL_RAW_TX_INFO (segment_doc txid i p) w = (Ok (), w1)" using ins by blast
    moreover obtain w2 where "for_each (\<lambda>(index, piece). insert_ignore_dup drv TBL_RAW_TX_INFO
        (segment_doc txid index piece)) l w1 = (Ok (), w2)" using Cons by blast
    ultimately show ?case by (auto simp: x andThen_eq_Ok)
  qed (simp add: ret_def)
  then obtain w1 where "for_each (\<lambda>(index, piece). insert_ignore_dup drv TBL_RAW_TX_INFO
      (segment_doc (TxHash lib t) index piece)) (indexed (segments lib t)) w = (Ok (), w1)" by blast
  moreover obtain w2 where "insert_ignore_dup drv TBL_RAW_TX_INFO (info_doc (TxHash lib t) height hash ts) w1 = (Ok (), w2)"
    using ins by blast
  ultimately show ?thesis by (auto simp: AddMsgTxInfo_def SplitString_segments andThen_eq_Ok)
qed

lemma GetMsgTxInfo_up:
  assumes wf: "wf_store lib S (docs w) (uniq w)" and S: "inj_on (TxHash lib) S" "\<forall>t \<in> S. tx_ok lib t" "t \<in> S"
    and known: "TxHash lib t \<in> dom (txstate_of (docs w))"
  shows "if length (segments lib t) < 63
    then \<exists>info w'. GetMsgTxInfo drv lib (TxHash lib t) w = (Ok info, w') \<and> Info_MsgTx info = t
    else GetMsgTxInfo drv lib (TxHash lib t) w = (Diverge, w)"
proof -
  obtain r w' where run: "GetMsgTxInfo drv lib (TxHash lib t) w = (r, w')" by fastforce
  note len = length_tx_rows [OF wf S(1,3) known]
  show ?thesis
  proof (cases "GetMsgTxInfo_loop drv (TxHash lib t) (None, []) w")
    case None
    then have "\<not> length (segments lib t) < 63"
      using GetMsgTxInfo_loop_short [of w "TxHash lib t" "(None, [])"] len by auto
    then show ?thesis using None by (simp add: GetMsgTxInfo_def andThen_def attempt_def)
  next
    case (Some y)
    note loop = GetMsgTxInfo_loop_res [OF Some]
    obtain st where st: "fst y = Ok st" using loop GetMany_up by (cases "fst y") auto
    then obtain es where es: "mset es = mset (tx_rows (docs w) (TxHash lib t))" "length es < 64" "sorted_by INDEX es"
      "st = scan_page (map RawTxInfo_of_doc es) (None, [])" using loop by auto
    then have short: "length (segments lib t) < 63" using len mset_eq_length [OF es(1)] by simp
    note res = GetMsgTxInfo_res [OF wf S(1,2) run]
    have "r \<noteq> Stop x" for x using res short len by auto
    moreover have "r \<noteq> Fail e" for e
    proof
      assume r: "r = Fail e"
      obtain r0 where "st = (Some r0, segments lib t)"
        unfolding es(4) by (rule scan_rows [OF wf S(1,3) known es(1,3)])
      moreover have "DeserializeTxStr lib (concat (segments lib t)) = Ok t"
        using DeserializeTxStr_SeserializeMsgTxStr S(2,3) by (simp add: concat_segments)
      ultimately show False using run r Some st by (cases y) (auto simp: GetMsgTxInfo_def go_simps attempt_def)
    qed
    ultimately obtain info where "r = Ok info" by (cases r) auto
    then show ?thesis using run res short S(1,3) by (auto simp: inj_on_def)
  qed
qed

end


section \<open>Properties\<close>

text \<open>
  C26: recording and reading back. On a database that is up, after \<open>AddMsgTxInfo\<close> of a transaction
  whose hexadecimal text takes fewer than 63 segments (about 4 MB of transaction),
  \<open>GetMsgTxInfo\<close> of its hash returns that transaction, also when parts of it had been
  recorded before.
\<close>

theorem AddMsgTxInfo_roundtrip:
  assumes "mongo_up drv docs uniq" and "wf_store lib S (docs w) (uniq w)"
    and "inj_on (TxHash lib) S" and "\<forall>t \<in> S. tx_ok lib t" and "t \<in> S" and "length (segments lib t) < 63"
    and "AddMsgTxInfo drv lib t height hash ts w = (r, w1)"
  shows "r = Ok () \<and> (\<exists>info w2. GetMsgTxInfo drv lib (TxHash lib t) w1 = (Ok info, w2) \<and> Info_MsgTx info = t)"
proof -
  have m: "mongo drv docs uniq" using assms(1) by (simp add: mongo_up_def)
  have r: "r = Ok ()" using mongo_up.AddMsgTxInfo_up [OF assms(1)] assms(7) by (metis prod.inject)
  have "wf_store lib S (docs w1) (uniq w1)" "TxHash lib t \<in> dom (txstate_of (docs w1))"
    using mongo.AddMsgTxInfo_res [OF m assms(2,3,5,7)] r by simp_all
  from mongo_up.GetMsgTxInfo_up [OF assms(1) this(1) assms(3-5) this(2)] show ?thesis using r assms(6) by simp
qed

definition big_lib :: "nat \<Rightarrow> tx_lib" where
  "big_lib n =
     \<lparr>TxHash = (\<lambda>t. demo_txid (LockTime t)), Serialize = (\<lambda>_. replicate n 0), Deserialize = (\<lambda>_. Ok (NewMsgTx 2)),
      NewHashFromStr = Ok\<rparr>"

lemma big_lib_ok: "\<forall>t \<in> {NewMsgTx 2}. tx_ok (big_lib n) t"
  by (auto simp: tx_ok_def big_lib_def demo_txid_def intro!: exI [of _ "replicate 31 0 @ [_]"])

lemma big_lib_segments: "length (segments (big_lib n) t) = (2 * n + 131069) div 131070"
  using SplitString_length [OF _ SplitString_segments [of "big_lib n" t]]
  by (simp add: MAX_SEGMENT_SIZE_def SeserializeMsgTxStr_def SeserializeMsgTxBytes_def big_lib_def)

lemma empty_store: "wf_store lib S (mem_docs (mem_ledger [] [])) (\<lambda>c. set (mem_uniq (mem_ledger [] []) c))"
  using wf_mem_ledger [of "[]" "[]"] by (simp add: wf_store_def raw_ok_def mem_ledger_def)

lemma mem_up: "mongo_up mem_mgo mem_docs (\<lambda>w c. set (mem_uniq w c))"
  by (rule mem.mongo_up_axioms)

theorem AddMsgTxInfo_roundtrip_witness:
  "\<exists>w1 info w2. AddMsgTxInfo mem_mgo (big_lib 100000) (NewMsgTx 2) 7 ''b'' 5 (mem_ledger [] []) = (Ok (), w1) \<and>
     GetMsgTxInfo mem_mgo (big_lib 100000) (TxHash (big_lib 100000) (NewMsgTx 2)) w1 = (Ok info, w2) \<and>
     Info_MsgTx info = NewMsgTx 2 \<and> length (segments (big_lib 100000) (NewMsgTx 2)) = 2"
proof -
  let ?lib = "big_lib 100000"
  obtain r w1 where run: "AddMsgTxInfo mem_mgo ?lib (NewMsgTx 2) 7 ''b'' 5 (mem_ledger [] []) = (r, w1)" by fastforce
  have "length (segments ?lib (NewMsgTx 2)) = 2" by (simp add: big_lib_segments)
  then show ?thesis
    using AddMsgTxInfo_roundtrip [OF mem_up empty_store _ big_lib_ok _ _ run] run by auto
qed

text \<open>
  C37: large transactions cannot be read. A recorded transaction of 63 segments or more makes
  \<open>GetMsgTxInfo\<close> read the same page for ever, since its offset is never advanced.
\<close>

theorem GetMsgTxInfo_large_diverges:
  assumes "mongo_up drv docs uniq" and "wf_store lib S (docs w) (uniq w)"
    and "inj_on (TxHash lib) S" and "\<forall>t \<in> S. tx_ok lib t" and "t \<in> S" and "63 \<le> length (segments lib t)"
    and "TxHash lib t \<in> dom (txstate_of (docs w))"
  shows "fst (GetMsgTxInfo drv lib (TxHash lib t) w) = Diverge"
  using mongo_up.GetMsgTxInfo_up [OF assms(1-5,7)] assms(6) by simp

theorem GetMsgTxInfo_large_diverges_witness:
  "\<exists>w. fst (GetMsgTxInfo mem_mgo (big_lib 4128705) (TxHash (big_lib 4128705) (NewMsgTx 2)) w) = Diverge"
proof -
  let ?lib = "big_lib 4128705"
  obtain w where run: "AddMsgTxInfo mem_mgo ?lib (NewMsgTx 2) 7 ''b'' 5 (mem_ledger [] []) = (Ok (), w)"
    using mem.AddMsgTxInfo_up by blast
  have "wf_store ?lib {NewMsgTx 2} (mem_docs w) (\<lambda>c. set (mem_uniq w c))"
    "TxHash ?lib (NewMsgTx 2) \<in> dom (txstate_of (mem_docs w))"
    using mem.AddMsgTxInfo_res [OF empty_store _ _ run, of "{NewMsgTx 2}"] by simp_all
  moreover have "63 \<le> length (segments ?lib (NewMsgTx 2))" by (simp add: big_lib_segments)
  ultimately have "fst (GetMsgTxInfo mem_mgo ?lib (TxHash ?lib (NewMsgTx 2)) w) = Diverge"
    by (intro GetMsgTxInfo_large_diverges [OF mem_up _ _ big_lib_ok]) simp_all
  then show ?thesis by blast
qed

end
