(* ===== verification/Sync.thy ===== *)
theory Sync
  imports Server Raw_Tx "HOL-Library.AList"
begin

text \<open>
  Synchronisation in \<open>src/services/touchstone_server.go\<close>: fetching the transactions that are
  missing (\<open>SyncTxs\<close>), from a peer or from the client that submits one, comparing
  partitions with peers (\<open>SyncPatitions\<close>, \<open>SyncState\<close>), and the connections to peers.
\<close>

section \<open>Sources of transactions\<close>

text \<open>The interface \<open>TxSource\<close> has one method, \<open>GetTxBytes\<close>; its two implementations:\<close>

type_synonym 'w tx_source = "byte list list \<Rightarrow> ('w, byte list list) io"

record LocalSingleTxSource =
  Local_txid :: "byte list"
  Local_txbytes :: "byte list"

definition NewLocalSingleTxSource :: "tx_lib \<Rightarrow> string \<Rightarrow> LocalSingleTxSource res" where
  "NewLocalSingleTxSource lib rawTx =
     bind_res (hex_decode rawTx) (\<lambda>msgTxByte.
     bind_res (DeserializeTxBytes lib msgTxByte) (\<lambda>msgTx.
     bind_res (GetHashByte (TxHash lib msgTx)) (\<lambda>txid.
       Ok \<lparr>Local_txid = txid, Local_txbytes = msgTxByte\<rparr>)))"

definition LocalGetTxBytes :: "LocalSingleTxSource \<Rightarrow> 'w tx_source" where
  "LocalGetTxBytes this txids =
     of_res (case txids of
       [] \<Rightarrow> Ok []
     | [txid] \<Rightarrow> (if Local_txid this \<noteq> txid then Fail (Error ''tx not found'') else Ok [Local_txbytes this])
     | _ \<Rightarrow> Fail (Error ''only support single tx''))"

definition NodeGetTxBytes :: "'w Node \<Rightarrow> 'w tx_source" where
  "NodeGetTxBytes this txids = (if txids = [] then ret [] else PeerGetTxs this txids)"


section \<open>SyncTxs\<close>

record SyncTxsResult =
  Sync_TxInventorys :: "TxInventory list"
  Sync_ErrTxs :: "TxidMsg list"
  AlreadyClosedTxs :: "string list"

definition NotifyTxs :: "('w, 'a) senv \<Rightarrow> byte list list \<Rightarrow> ('w server, unit) io" where
  "NotifyTxs senv Txids =
     (if Txids = [] then ret ()
      else andThen (range_peers senv) (\<lambda>peers.
        for_each (\<lambda>(_, peer). effect (\<lambda>w. ((), PeerNotifyTxs peer Txids w))) peers))"

text \<open>The local variables of the first loop, which sorts the ids by what is known of them.\<close>

record sync_vars =
  lackTxids :: "byte list list"
  txStatesCache :: "string \<rightharpoonup> TxState"
  needProcessTx :: "MsgTx list"
  alreadyClosedTxs :: "string list"
  errTxs :: "TxidMsg list"

fun SyncTxs_search :: "('w, 'a) senv \<Rightarrow> byte list list \<Rightarrow> sync_vars \<Rightarrow> ('w server, sync_vars) io" where
  "SyncTxs_search senv [] v = ret v"
| "SyncTxs_search senv (txidByte # rest) v =
     (let txid = hex_encode txidByte
      in attempt (world (GetMsgTxBriefInfo (Db (Env senv)) txid))
        (\<lambda>err. if \<not> is_not_found err then fail err
           else andThen (world (GetTxState (Client senv) txid)) (\<lambda>txState.
             if ReturnResult (Ts_Payload txState) \<noteq> RETURN_RESULT_FAILURE
             then SyncTxs_search senv rest (v\<lparr>txStatesCache := (txStatesCache v)(txid \<mapsto> txState),
                    lackTxids := lackTxids v @ [txidByte]\<rparr>)
             else SyncTxs_search senv rest (v\<lparr>errTxs := errTxs v @
                    [\<lparr>Msg_Txid = txid, Msg = ResultDescription (Ts_Payload txState)\<rparr>]\<rparr>)))
        (\<lambda>txBriefInfo.
           if Brief_State txBriefInfo = TX_STATE_CLOSED
           then SyncTxs_search senv rest (v\<lparr>alreadyClosedTxs := alreadyClosedTxs v @ [txid]\<rparr>)
           else andThen (world (GetMsgTxInfo (Db (Env senv)) (TxL (Env senv)) txid)) (\<lambda>msgTxInfo.
             andThen (AddNeedRecomputehashPartitionByHeight senv (Brief_Height txBriefInfo)) (\<lambda>_.
               SyncTxs_search senv rest (v\<lparr>needProcessTx := needProcessTx v @ [Info_MsgTx msgTxInfo]\<rparr>)))))"

text \<open>The second loop records what was fetched: the fetched ids, what to process, whom to notify.\<close>

fun SyncTxs_record ::
  "('w, 'a) senv \<Rightarrow> (string \<rightharpoonup> TxState) \<Rightarrow> byte list list \<Rightarrow> string list \<Rightarrow> MsgTx list \<Rightarrow> byte list list
     \<Rightarrow> ('w server, string list \<times> MsgTx list \<times> byte list list) io" where
  "SyncTxs_record senv cache [] getTxids need notify = ret (getTxids, need, notify)"
| "SyncTxs_record senv cache (txBytes # rest) getTxids need notify =
     andThen (of_res (DeserializeTxBytes (TxL (Env senv)) txBytes)) (\<lambda>msgTx.
       let txid = TxHash (TxL (Env senv)) msgTx
       in case cache txid of
          None \<Rightarrow> fail (Error ''txState not found'')
        | Some txState \<Rightarrow>
            let height = (if BlockHash (Ts_Payload txState) \<noteq> [] then BlockHeight (Ts_Payload txState)
                          else UNCONFIRM_TX_HEIGHT)
            in andThen (effect (Now (Runtime senv))) (\<lambda>now.
               andThen (world (AddMsgTxInfo (Db (Env senv)) (TxL (Env senv)) msgTx height
                   (BlockHash (Ts_Payload txState)) now)) (\<lambda>_.
               andThen (AddNeedRecomputehashPartitionByHeight senv (BlockHeight (Ts_Payload txState))) (\<lambda>_.
               andThen (of_res (GetHashByte txid)) (\<lambda>txidByte.
                 SyncTxs_record senv cache rest (txid # getTxids) (need @ [msgTx]) (notify @ [txidByte]))))))"

definition not_fetched :: "byte list list \<Rightarrow> string list \<Rightarrow> TxidMsg list" where
  "not_fetched lack getTxids =
     map (\<lambda>lackTxid. \<lparr>Msg_Txid = hex_encode lackTxid, Msg = ''transaction not found''\<rparr>)
       (filter (\<lambda>lackTxid. hex_encode lackTxid \<notin> set getTxids) lack)"

definition SyncTxs :: "('w, 'a) senv \<Rightarrow> byte list list \<Rightarrow> 'w tx_source \<Rightarrow> ('w server, SyncTxsResult) io" where
  "SyncTxs senv txidBytes txSource =
     andThen (SyncTxs_search senv txidBytes \<lparr>lackTxids = [], txStatesCache = Map.empty, needProcessTx = [],
         alreadyClosedTxs = [], errTxs = []\<rparr>) (\<lambda>v.
     andThen (world (txSource (lackTxids v))) (\<lambda>txsbytes.
     andThen (SyncTxs_record senv (txStatesCache v) txsbytes [] (needProcessTx v) []) (\<lambda>(getTxids, need, notify).
     andThen (effect (Now (Runtime senv))) (\<lambda>now.
     andThen (world (ProcessMsgTxs (Env senv) need now)) (\<lambda>processMsgTxsResult.
     andThen (NotifyTxs senv notify) (\<lambda>_.
       ret \<lparr>Sync_TxInventorys = TxInventorys processMsgTxsResult,
            Sync_ErrTxs = errTxs v @ not_fetched (lackTxids v) getTxids @ ErrTxs processMsgTxsResult,
            AlreadyClosedTxs = alreadyClosedTxs v\<rparr>))))))"

definition NotifiedTxs :: "('w, 'a) senv \<Rightarrow> byte list list \<Rightarrow> string \<Rightarrow> ('w server, unit) io" where
  "NotifiedTxs senv Txids peerPubkey =
     andThen (gets Peers) (\<lambda>peers. case map_of peers peerPubkey of
       None \<Rightarrow> ret ()
     | Some peer \<Rightarrow> attempt (SyncTxs senv Txids (NodeGetTxBytes peer)) (\<lambda>_. ret ()) (\<lambda>_. ret ()))"

definition SendRawTransaction :: "('w, 'a) senv \<Rightarrow> string \<Rightarrow> ('w server, TxInventory) io" where
  "SendRawTransaction senv rawTx =
     (let lib = TxL (Env senv)
      in andThen (of_res (hex_decode rawTx)) (\<lambda>msgTxByte.
         andThen (of_res (DeserializeTxBytes lib msgTxByte)) (\<lambda>msgTx.
         andThen (of_res (GetHashByte (TxHash lib msgTx))) (\<lambda>hash.
         andThen (SyncTxs senv [hash] (LocalGetTxBytes \<lparr>Local_txid = hash, Local_txbytes = msgTxByte\<rparr>))
           (\<lambda>syncTxsResult. case Sync_ErrTxs syncTxsResult of
              m # _ \<Rightarrow> fail (Error (Msg m))
            | [] \<Rightarrow> (case Sync_TxInventorys syncTxsResult of
                txInventory # _ \<Rightarrow> ret txInventory
              | [] \<Rightarrow> world (GetTransactionInventory (Env senv) (TxHash lib msgTx))))))))"


section \<open>Comparing partitions\<close>

text \<open>The partitions whose hash differs from the peer's, compared position by position.\<close>

fun differing :: "PartitionInfo list \<Rightarrow> byte list list \<Rightarrow> int list" where
  "differing [] Hashs = []"
| "differing (partitionInfo # rest) [] = []"
| "differing (partitionInfo # rest) (peerHash # Hashs) =
     (case hex_decode (Part_Hash partitionInfo) of
        Ok hash \<Rightarrow> (if hash = peerHash then differing rest Hashs
                    else Part_Id partitionInfo # differing rest Hashs)
      | _ \<Rightarrow> differing rest Hashs)"

text \<open>The body of the inner loop; \<open>continue\<close> is a return of the body, an error leaves both loops.\<close>

definition SyncPatitions_peer :: "('w, 'a) senv \<Rightarrow> int \<Rightarrow> 'w Node \<Rightarrow> ('w server, unit) io" where
  "SyncPatitions_peer senv offset peer =
     attempt (world (PeerGetPartitionsHash peer offset COMPARE_PARTITIONS_COUNT)) (\<lambda>_. ret ()) (\<lambda>Hashs.
     andThen (world (GetPartitionInfos (Db (Env senv)) offset COMPARE_PARTITIONS_COUNT)) (\<lambda>partitionInfos.
       let Ids = differing partitionInfos Hashs
       in if Ids = [] then ret ()
          else attempt (world (PeerGetTxidsByPartitions peer Ids)) (\<lambda>_. ret ()) (\<lambda>Txids.
            attempt (SyncTxs senv Txids (NodeGetTxBytes peer)) (\<lambda>_. ret ()) (\<lambda>_.
              ClearCacheAndSetHash senv))))"

definition SyncPatitions_round :: "('w, 'a) senv \<Rightarrow> int \<Rightarrow> ('w server, unit) io" where
  "SyncPatitions_round senv offset =
     andThen (ClearCacheAndSetHash senv) (\<lambda>_.
     andThen (range_peers senv) (\<lambda>peers.
       for_each (\<lambda>(_, peer). SyncPatitions_peer senv offset peer) peers))"

text \<open>The outer loop, with the wrap-around of \<open>offset\<close>; \<open>fuel\<close> bounds the number of rounds.\<close>

fun SyncPatitions_loop :: "nat \<Rightarrow> ('w, 'a) senv \<Rightarrow> int \<Rightarrow> int \<Rightarrow> ('w server, unit) io" where
  "SyncPatitions_loop 0 senv offset stop = of_res Diverge"
| "SyncPatitions_loop (Suc fuel) senv offset stop =
     (if offset \<le> stop
      then andThen (SyncPatitions_round senv offset) (\<lambda>_.
             SyncPatitions_loop fuel senv (add64 offset COMPARE_PARTITIONS_COUNT) stop)
      else ret ())"

definition sync_fuel :: "int \<Rightarrow> int \<Rightarrow> nat" where
  "sync_fuel start stop = nat ((stop - start) div COMPARE_PARTITIONS_COUNT + 1) + 1"

definition SyncPatitions :: "('w, 'a) senv \<Rightarrow> int \<Rightarrow> int \<Rightarrow> ('w server, unit) io" where
  "SyncPatitions senv start stop = SyncPatitions_loop (sync_fuel start stop) senv start stop"

definition SyncUnconfirmTx :: "('w, 'a) senv \<Rightarrow> ('w server, unit) io" where
  "SyncUnconfirmTx senv =
     andThen (range_peers senv) (\<lambda>peers.
       for_each (\<lambda>(_, peer).
         attempt (world (PeerGetUnconfirmTxids peer)) (\<lambda>_. ret ()) (\<lambda>Txids.
         attempt (SyncTxs senv Txids (NodeGetTxBytes peer)) (\<lambda>_. ret ()) (\<lambda>_. ret ()))) peers)"

definition SyncState :: "('w, 'a) senv \<Rightarrow> bool \<Rightarrow> ('w server, unit) io" where
  "SyncState senv syncAll =
     andThen (world (GetFeeQuote (Client senv))) (\<lambda>feeQuote.
     andThen (world (GetPartitionsCount (Db (Env senv)))) (\<lambda>count.
     andThen (SyncUnconfirmTx senv) (\<lambda>_.
       let expectPartitionsCount = add64 (go_div (sub64 (CurrentHighestBlockHeight (Fq_Payload feeQuote))
             (GStartHeight (Conf (Env senv)))) PARTITION_BLOCK_COUNT) 1;
           start = sub64 count RE_CONPUTE_PARTITION_COUNT;
           start' = (if start < 0 \<or> syncAll then 0 else start)
       in andThen (for_each AddNeedRecomputehashPartition [start'..expectPartitionsCount - 1]) (\<lambda>_.
            SyncPatitions senv start' expectPartitionsCount))))"


section \<open>Connections\<close>

fun ConnectPeer_loop ::
  "('w, 'a) senv \<Rightarrow> (string \<times> 'w Node) list \<Rightarrow> PeerConfig list \<Rightarrow> (string \<times> 'w Node) list
     \<Rightarrow> ('w server, (string \<times> 'w Node) list) io" where
  "ConnectPeer_loop senv oldPeers [] peers = ret peers"
| "ConnectPeer_loop senv oldPeers (peerConfig # rest) peers =
     (case map_of oldPeers (Pubkey peerConfig) of
        Some peer \<Rightarrow> ConnectPeer_loop senv oldPeers rest (AList.update (Pubkey peerConfig) peer peers)
      | None \<Rightarrow> attempt (world (GrpcDial senv (Host peerConfig)))
          (\<lambda>_. ConnectPeer_loop senv oldPeers rest peers)
          (\<lambda>c. ConnectPeer_loop senv oldPeers rest (AList.update (Pubkey peerConfig) c peers)))"

definition ConnectPeer :: "('w, 'a) senv \<Rightarrow> PeerConfig list \<Rightarrow> ('w server, unit) io" where
  "ConnectPeer senv peerConfigs =
     andThen (gets Peers) (\<lambda>oldPeers.
     andThen (ConnectPeer_loop senv oldPeers peerConfigs []) (\<lambda>peers.
     andThen (modify (\<lambda>s. s\<lparr>Peers := peers\<rparr>)) (\<lambda>_.
       if length peers = length peerConfigs then ret () else fail (Error ''still have connect failed''))))"


section \<open>What the environment promises\<close>

text \<open>A transaction the miner does not deny.\<close>

definition acknowledged :: "'w MapiClient \<Rightarrow> string \<Rightarrow> bool" where
  "acknowledged client txid \<longleftrightarrow> (\<exists>w st w'. GetTxState client txid w = (Ok st, w') \<and>
     ReturnResult (Ts_Payload st) \<noteq> RETURN_RESULT_FAILURE)"

text \<open>Calls to the miner, to a source of transactions and to peers do not touch the own database.\<close>

definition miner_ok :: "('w \<Rightarrow> string \<Rightarrow> doc list) \<Rightarrow> ('w \<Rightarrow> string \<Rightarrow> string list set) \<Rightarrow> 'w MapiClient \<Rightarrow> bool" where
  "miner_ok docs uniq client \<longleftrightarrow>
     (\<forall>txid w r w'. GetTxState client txid w = (r, w') \<longrightarrow> docs w' = docs w \<and> uniq w' = uniq w)"

definition source_ok :: "('w \<Rightarrow> string \<Rightarrow> doc list) \<Rightarrow> ('w \<Rightarrow> string \<Rightarrow> string list set) \<Rightarrow> 'w tx_source \<Rightarrow> bool" where
  "source_ok docs uniq src \<longleftrightarrow>
     (\<forall>txids w r w'. src txids w = (r, w') \<longrightarrow> docs w' = docs w \<and> uniq w' = uniq w)"

definition notify_ok :: "('w \<Rightarrow> string \<Rightarrow> doc list) \<Rightarrow> ('w \<Rightarrow> string \<Rightarrow> string list set) \<Rightarrow> (string \<times> 'w Node) list \<Rightarrow> bool"
  where
  "notify_ok docs uniq peers \<longleftrightarrow> (\<forall>(k, peer) \<in> set peers. \<forall>txids w.
     docs (PeerNotifyTxs peer txids w) = docs w \<and> uniq (PeerNotifyTxs peer txids w) = uniq w)"

text \<open>
  The transactions \<open>S\<close> of the chain: no output is spent twice, hashes do not collide, the
  libraries behave as documented, and bytes that decode to an acknowledged transaction
  decode to one of them.
\<close>

definition chain_ok :: "('w, 'a) senv \<Rightarrow> MsgTx set \<Rightarrow> bool" where
  "chain_ok senv S \<longleftrightarrow>
     addr_lib_ok (AddrL (Env senv)) \<and> no_double_spend S \<and> inj_on (TxHash (TxL (Env senv))) S \<and>
     (\<forall>t \<in> S. tx_ok (TxL (Env senv)) t) \<and>
     (\<forall>bs t. DeserializeTxBytes (TxL (Env senv)) bs = Ok t \<longrightarrow>
        acknowledged (Client senv) (TxHash (TxL (Env senv)) t) \<longrightarrow> t \<in> S)"

definition store_inv ::
  "('w, 'a) env \<Rightarrow> MsgTx set \<Rightarrow> ('w \<Rightarrow> string \<Rightarrow> doc list) \<Rightarrow> ('w \<Rightarrow> string \<Rightarrow> string list set) \<Rightarrow> 'w \<Rightarrow> bool" where
  "store_inv env S docs uniq w \<longleftrightarrow> wf_store (TxL env) S (docs w) (uniq w) \<and> ledger_inv env S docs uniq w"

lemma world_eq: "world m s = (r, s') \<longleftrightarrow> (\<exists>w'. m (World s) = (r, w') \<and> s' = s\<lparr>World := w'\<rparr>)"
  by (auto simp: world_def split: prod.splits)

lemma effect_eq: "effect f s = (r, s') \<longleftrightarrow> (\<exists>x w'. f (World s) = (x, w') \<and> r = Ok x \<and> s' = s\<lparr>World := w'\<rparr>)"
  by (auto simp: effect_def split: prod.splits)

lemma mark_partition [simp]:
  "AddNeedRecomputehashPartitionByHeight senv h s = (r, s') \<Longrightarrow> r = Ok () \<and> World s' = World s \<and> Peers s' = Peers s"
  by (auto simp: AddNeedRecomputehashPartitionByHeight_def AddNeedRecomputehashPartition_def modify_def ret_def
      split: if_splits)


section \<open>SyncTxs keeps the ledger\<close>

context mongo
begin

lemma SyncTxs_search_res:
  assumes db: "Db (Env senv) = drv" and miner: "miner_ok docs uniq (Client senv)" and chain: "chain_ok senv S"
  shows "SyncTxs_search senv txids v s = (r, s') \<Longrightarrow> store_inv (Env senv) S docs uniq (World s) \<Longrightarrow>
    same (World s) (World s') \<and> Peers s' = Peers s \<and> (case r of
      Ok v' \<Rightarrow> set (needProcessTx v') \<subseteq> set (needProcessTx v) \<union> S \<and>
        (\<forall>x \<in> dom (txStatesCache v') - dom (txStatesCache v).
           acknowledged (Client senv) x \<and> x \<in> hex_encode ` set txids)
    | _ \<Rightarrow> True)"
proof (induction txids arbitrary: v s)
  case Nil
  then show ?case by (auto simp: ret_def)
next
  case (Cons txidByte rest)
  let ?txid = "hex_encode txidByte"
  have inv: "store_inv (Env senv) S docs uniq (World s1)" if "same (World s) (World s1)" for s1
    using Cons.prems(2) that by (simp add: store_inv_def wf_store_def ledger_inv_def same_def)
  have ih: "?case" if s1: "same (World s) (World s1)" "Peers s1 = Peers s"
    and run: "SyncTxs_search senv rest v1 s1 = (r, s')"
    and need: "set (needProcessTx v1) \<subseteq> set (needProcessTx v) \<union> S"
    and cache: "\<forall>x \<in> dom (txStatesCache v1) - dom (txStatesCache v).
      acknowledged (Client senv) x \<and> x \<in> hex_encode ` set (txidByte # rest)" for v1 s1
    using Cons.IH [OF run inv [OF s1(1)]] s1 same_trans [OF s1(1)] need cache by (cases r) (auto, blast+)
  have wf: "wf_db (docs (World s)) (uniq (World s))"
    "wf_store (TxL (Env senv)) S (docs (World s)) (uniq (World s))"
    using Cons.prems(2) by (simp_all add: store_inv_def wf_store_def)
  from Cons.prems(1) [unfolded SyncTxs_search.simps Let_def db] show ?case
  proof (cases rule: attempt_eqE)
    case (Ok brief s1)
    then have s1: "same (World s) (World s1)" "Peers s1 = Peers s"
      using GetMsgTxBriefInfo_res [OF wf(1)] by (auto simp: world_eq)
    show ?thesis
    proof (cases "Brief_State brief = TX_STATE_CLOSED")
      case True
      then have run: "SyncTxs_search senv rest (v\<lparr>alreadyClosedTxs := alreadyClosedTxs v @ [?txid]\<rparr>) s1 = (r, s')"
        using Ok(2) by simp
      show ?thesis by (rule ih [OF s1 run]) auto
    next
      case False
      have c: "inj_on (TxHash (TxL (Env senv))) S" "\<forall>t \<in> S. tx_ok (TxL (Env senv)) t"
        using chain by (simp_all add: chain_ok_def)
      have wf1: "wf_store (TxL (Env senv)) S (docs (World s1)) (uniq (World s1))"
        using wf(2) s1(1) by (simp add: same_def)
      note got = GetMsgTxInfo_res [OF wf1 c]
      from Ok(2) False have "andThen (world (GetMsgTxInfo drv (TxL (Env senv)) ?txid)) (\<lambda>msgTxInfo.
          andThen (AddNeedRecomputehashPartitionByHeight senv (Brief_Height brief)) (\<lambda>_.
            SyncTxs_search senv rest (v\<lparr>needProcessTx := needProcessTx v @ [Info_MsgTx msgTxInfo]\<rparr>))) s1 = (r, s')"
        by simp
      then show ?thesis
      proof (cases rule: andThen_eqE)
        case (Ok info s2)
        then have s2: "same (World s1) (World s2)" "Peers s2 = Peers s1" "Info_MsgTx info \<in> S"
          by (auto simp: world_eq dest!: got)
        from Ok(2) obtain s3 where s3: "World s3 = World s2" "Peers s3 = Peers s2"
          and run: "SyncTxs_search senv rest (v\<lparr>needProcessTx := needProcessTx v @ [Info_MsgTx info]\<rparr>) s3 = (r, s')"
          by (cases rule: andThen_eqE) (auto dest: mark_partition)
        show ?thesis by (rule ih [OF _ _ run]) (use s1 s2 s3 same_trans [OF s1(1)] in auto)
      qed (use s1 got same_trans [OF s1(1)] in \<open>auto simp: world_eq\<close>)
    qed
  next
    case (Fail e s1)
    then have s1: "same (World s) (World s1)" "Peers s1 = Peers s"
      using GetMsgTxBriefInfo_res [OF wf(1)] by (auto simp: world_eq)
    show ?thesis
    proof (cases "is_not_found e")
      case False
      then show ?thesis using Fail(2) s1 by (auto simp: fail_def)
    next
      case True
      with Fail(2) have "andThen (world (GetTxState (Client senv) ?txid)) (\<lambda>txState.
          if ReturnResult (Ts_Payload txState) \<noteq> RETURN_RESULT_FAILURE
          then SyncTxs_search senv rest (v\<lparr>txStatesCache := (txStatesCache v)(?txid \<mapsto> txState),
                 lackTxids := lackTxids v @ [txidByte]\<rparr>)
          else SyncTxs_search senv rest (v\<lparr>errTxs := errTxs v @
                 [\<lparr>Msg_Txid = ?txid, Msg = ResultDescription (Ts_Payload txState)\<rparr>]\<rparr>)) s1 = (r, s')" by simp
      then show ?thesis
      proof (cases rule: andThen_eqE)
        case (Ok st s2)
        then obtain w2 where w2: "GetTxState (Client senv) ?txid (World s1) = (Ok st, w2)" "s2 = s1\<lparr>World := w2\<rparr>"
          by (auto simp: world_eq)
        have s2: "same (World s) (World s2)" "Peers s2 = Peers s"
          using miner w2 s1 unfolding miner_ok_def same_def by (metis server.select_convs server.surjective server.update_convs(1))+
        show ?thesis
        proof (cases "ReturnResult (Ts_Payload st) \<noteq> RETURN_RESULT_FAILURE")
          case True
          then have ack: "acknowledged (Client senv) ?txid" using w2(1) unfolding acknowledged_def by blast
          have run: "SyncTxs_search senv rest (v\<lparr>txStatesCache := (txStatesCache v)(?txid \<mapsto> st),
              lackTxids := lackTxids v @ [txidByte]\<rparr>) s2 = (r, s')" using Ok(2) True by simp
          show ?thesis by (rule ih [OF s2 run]) (use ack in auto)
        next
          case False
          then have run: "SyncTxs_search senv rest (v\<lparr>errTxs := errTxs v @
              [\<lparr>Msg_Txid = ?txid, Msg = ResultDescription (Ts_Payload st)\<rparr>]\<rparr>) s2 = (r, s')" using Ok(2) by simp
          show ?thesis by (rule ih [OF s2 run]) auto
        qed
      qed (use s1 miner in \<open>auto simp: world_eq miner_ok_def same_def\<close>)
    qed
  next
    case (Stop x)
    then show ?thesis using GetMsgTxBriefInfo_res [OF wf(1)] by (auto simp: world_eq)
  qed
qed

text \<open>
  The invariant during a run that starts with the transactions \<open>K\<close> and may add those of \<open>A\<close>.
\<close>

definition sync_inv :: "('w, 'a) senv \<Rightarrow> MsgTx set \<Rightarrow> string set \<Rightarrow> string set \<Rightarrow> 'w \<Rightarrow> bool" where
  "sync_inv senv S K A w \<longleftrightarrow> store_inv (Env senv) S docs uniq w \<and>
     K \<subseteq> dom (txstate_of (docs w)) \<and> dom (txstate_of (docs w)) \<subseteq> K \<union> A"

lemma sync_inv_same: "sync_inv senv S K A w \<Longrightarrow> same w w' \<Longrightarrow> sync_inv senv S K A w'"
  by (simp add: sync_inv_def store_inv_def wf_store_def ledger_inv_def same_def)

lemma sync_inv_add:
  assumes inv: "sync_inv senv S K A w" and db: "Db (Env senv) = drv" and chain: "chain_ok senv S"
    and t: "t \<in> S" "TxHash (TxL (Env senv)) t \<in> A"
    and run: "AddMsgTxInfo drv (TxL (Env senv)) t h b ts w = (r, w')"
  shows "sync_inv senv S K A w' \<and> (\<forall>x. r \<noteq> Stop x)"
proof -
  have wf: "wf_store (TxL (Env senv)) S (docs w) (uniq w)" using inv by (simp add: sync_inv_def store_inv_def)
  have "inj_on (TxHash (TxL (Env senv))) S" using chain by (simp add: chain_ok_def)
  note res = AddMsgTxInfo_res [OF wf this t(1) run]
  have grow: "K \<subseteq> D' \<and> D' \<subseteq> K \<union> A" if "D' = D \<or> D' = insert x D" "x \<in> A" "K \<subseteq> D" "D \<subseteq> K \<union> A" for D D' x
    using that by auto
  have "ledger_inv (Env senv) S docs uniq w'"
    using inv res by (simp add: sync_inv_def store_inv_def ledger_inv_def wf_store_def)
  moreover have "dom (txstate_of (docs w')) = dom (txstate_of (docs w)) \<or>
      dom (txstate_of (docs w')) = insert (TxHash (TxL (Env senv)) t) (dom (txstate_of (docs w)))"
    using res by (elim conjE disjE) simp_all
  then have "K \<subseteq> dom (txstate_of (docs w'))" "dom (txstate_of (docs w')) \<subseteq> K \<union> A"
    using inv t(2) grow [of "dom (txstate_of (docs w'))" "dom (txstate_of (docs w))"] unfolding sync_inv_def by simp_all
  moreover have "r \<noteq> Stop x" for x using res by auto
  ultimately show ?thesis using res by (simp add: sync_inv_def store_inv_def)
qed

lemma sync_inv_process:
  assumes inv: "sync_inv senv S K A w" and db: "Db (Env senv) = drv" and chain: "chain_ok senv S"
    and t: "t \<in> S" and run: "ProcessMsgTx (Env senv) t ts w = (r, w')"
  shows "sync_inv senv S K A w'"
proof -
  have wf: "wf_store (TxL (Env senv)) S (docs w) (uniq w)" and li: "ledger_inv (Env senv) S docs uniq w"
    using inv by (simp_all add: sync_inv_def store_inv_def)
  have c: "addr_lib_ok (AddrL (Env senv))" "no_double_spend S" "inj_on (TxHash (TxL (Env senv))) S"
    using chain by (simp_all add: chain_ok_def)
  note out = ledger.ProcessMsgTx_outcome [OF is_ledger_raw db wf c(1) run]
  have "txstate_of (docs w') = txstate_of (docs w) \<or> (\<exists>st. TxHash (TxL (Env senv)) t \<in> dom (txstate_of (docs w)) \<and>
      txstate_of (docs w') = (txstate_of (docs w))(TxHash (TxL (Env senv)) t \<mapsto> st))"
    using out unfolding ledger.unchanged_def [OF is_ledger_raw] by (cases r) auto
  then have "dom (txstate_of (docs w')) = dom (txstate_of (docs w))"
    by (elim disjE exE conjE) (simp_all add: insert_absorb)
  then show ?thesis
    using out ledger_inv_process [OF li db c t run] inv by (simp add: sync_inv_def store_inv_def)
qed

lemma sync_inv_process_all:
  assumes db: "Db (Env senv) = drv" and chain: "chain_ok senv S"
  shows "ProcessMsgTxs_loop (Env senv) ts l acc w = (r, w') \<Longrightarrow> sync_inv senv S K A w \<Longrightarrow> set l \<subseteq> S \<Longrightarrow>
    sync_inv senv S K A w'"
proof (induction l arbitrary: acc w)
  case (Cons t l)
  have t: "t \<in> S" "set l \<subseteq> S" using Cons.prems(3) by auto
  from Cons.prems(1) [unfolded ProcessMsgTxs_loop.simps] show ?case
  proof (cases rule: attempt_eqE)
    case (Ok i w1)
    show ?thesis by (rule Cons.IH [OF Ok(2) sync_inv_process [OF Cons.prems(2) db chain t(1) Ok(1)] t(2)])
  next
    case (Fail e w1)
    show ?thesis by (rule Cons.IH [OF Fail(2) sync_inv_process [OF Cons.prems(2) db chain t(1) Fail(1)] t(2)])
  next
    case (Stop x)
    then show ?thesis using sync_inv_process [OF Cons.prems(2) db chain t(1) Stop(1)] by simp
  qed
qed (simp add: ret_def)

lemma SyncTxs_record_res:
  assumes db: "Db (Env senv) = drv" and chain: "chain_ok senv S" and rt: "runtime_ok docs uniq (Runtime senv)"
    and cache: "\<forall>x \<in> dom cache. acknowledged (Client senv) x \<and> x \<in> A"
  shows "SyncTxs_record senv cache txs g need n s = (r, s') \<Longrightarrow> sync_inv senv S K A (World s) \<Longrightarrow>
    sync_inv senv S K A (World s') \<and> Peers s' = Peers s \<and>
    (case r of Ok (g', need', n') \<Rightarrow> set need' \<subseteq> set need \<union> S | _ \<Rightarrow> True)"
proof (induction txs arbitrary: g need n s)
  case Nil
  then show ?case by (auto simp: ret_def)
next
  case (Cons txBytes rest)
  from Cons.prems(1) [unfolded SyncTxs_record.simps Let_def] show ?case
  proof (cases rule: andThen_eqE)
    case (Ok t s1)
    have s1: "s1 = s" using Ok(1) by (simp add: of_res_def)
    let ?txid = "TxHash (TxL (Env senv)) t"
    show ?thesis
    proof (cases "cache ?txid")
      case None
      then show ?thesis using Ok(2) s1 Cons.prems(2) by (auto simp: fail_def)
    next
      case (Some st)
      then have ack: "acknowledged (Client senv) ?txid" and inA: "?txid \<in> A" using cache by auto
      then have tS: "t \<in> S" using chain Ok(1) unfolding chain_ok_def of_res_def by blast
      let ?h = "if BlockHash (Ts_Payload st) \<noteq> [] then BlockHeight (Ts_Payload st) else UNCONFIRM_TX_HEIGHT"
      from Ok(2) Some s1 have "andThen (effect (Now (Runtime senv))) (\<lambda>now.
          andThen (world (AddMsgTxInfo drv (TxL (Env senv)) t ?h (BlockHash (Ts_Payload st)) now)) (\<lambda>_.
          andThen (AddNeedRecomputehashPartitionByHeight senv (BlockHeight (Ts_Payload st))) (\<lambda>_.
          andThen (of_res (GetHashByte ?txid)) (\<lambda>txidByte.
            SyncTxs_record senv cache rest (?txid # g) (need @ [t]) (n @ [txidByte]))))) s = (r, s')"
        by (simp add: db)
      then show ?thesis
      proof (cases rule: andThen_eqE)
        case (Ok now s2)
        then obtain w2 where w2: "Now (Runtime senv) (World s) = (now, w2)" "s2 = s\<lparr>World := w2\<rparr>"
          by (auto simp: effect_eq)
        have s2: "sync_inv senv S K A (World s2)" "Peers s2 = Peers s"
          using sync_inv_same [OF Cons.prems(2), of w2] rt w2 unfolding runtime_ok_def same_def by auto
        from Ok(2) show ?thesis
        proof (cases rule: andThen_eqE)
          case (Ok u s3)
          then have s3: "sync_inv senv S K A (World s3)" "Peers s3 = Peers s2"
            using sync_inv_add [OF s2(1) db chain tS inA] by (auto simp: world_eq)
          from Ok(2) obtain u s4 where s4: "World s4 = World s3" "Peers s4 = Peers s3"
            and rest: "andThen (of_res (GetHashByte ?txid)) (\<lambda>txidByte.
              SyncTxs_record senv cache rest (?txid # g) (need @ [t]) (n @ [txidByte])) s4 = (r, s')"
            by (cases rule: andThen_eqE) (auto dest: mark_partition)
          have inv4: "sync_inv senv S K A (World s4)" using s3 s4 by simp
          from rest show ?thesis
          proof (cases rule: andThen_eqE)
            case (Ok b s5)
            then have "s5 = s4" by (simp add: of_res_def)
            then show ?thesis
              using Cons.IH [OF Ok(2)] inv4 s2(2) s3(2) s4(2) tS by (auto split: res.splits)
          qed (use inv4 s2 s3 s4 in \<open>auto simp: of_res_def\<close>)
        next
          case (Fail e)
          then show ?thesis using sync_inv_add [OF s2(1) db chain tS inA] s2(2) by (auto simp: world_eq)
        next
          case (Stop x)
          then show ?thesis using sync_inv_add [OF s2(1) db chain tS inA] s2(2) by (auto simp: world_eq)
        qed
      qed (auto simp: effect_eq)
    qed
  qed (use Cons.prems(2) in \<open>auto simp: of_res_def\<close>)
qed

lemma range_peers_res:
  assumes "runtime_ok docs uniq (Runtime senv)" "range_peers senv s = (r, s')"
  shows "\<exists>ps. r = Ok ps \<and> set ps \<subseteq> set (Peers s) \<and> same (World s) (World s') \<and> Peers s' = Peers s \<and>
    NeedRecompute s' = NeedRecompute s"
proof -
  obtain ks w1 where k: "RangeKeys (Runtime senv) (map fst (Peers s)) (World s) = (ks, w1)" by fastforce
  have "same (World s) w1" using assms(1) k unfolding runtime_ok_def same_def by blast
  moreover have "r = Ok (List.map_filter (\<lambda>k. map_option (Pair k) (map_of (Peers s) k)) ks)" "s' = s\<lparr>World := w1\<rparr>"
    using assms(2) k by (auto simp: range_peers_def go_simps attempt_def gets_def effect_def)
  moreover have "set (List.map_filter (\<lambda>k. map_option (Pair k) (map_of (Peers s) k)) ks) \<subseteq> set (Peers s)"
    by (auto simp: List.map_filter_def dest: map_of_SomeD)
  ultimately show ?thesis by simp
qed

lemma NotifyTxs_res:
  assumes rt: "runtime_ok docs uniq (Runtime senv)" and peers: "notify_ok docs uniq (Peers s)"
    and run: "NotifyTxs senv txids s = (r, s')"
  shows "same (World s) (World s') \<and> Peers s' = Peers s"
proof (cases "txids = []")
  case False
  then have "andThen (range_peers senv) (\<lambda>ps. for_each (\<lambda>(_, peer). effect (\<lambda>w. ((), PeerNotifyTxs peer txids w))) ps) s
      = (r, s')" using run by (simp add: NotifyTxs_def)
  then show ?thesis
  proof (cases rule: andThen_eqE)
    case (Ok ps s1)
    have s1: "set ps \<subseteq> set (Peers s)" "same (World s) (World s1)" "Peers s1 = Peers s"
      using range_peers_res [OF rt Ok(1)] by auto
    have ok: "docs (PeerNotifyTxs p txids w) = docs w \<and> uniq (PeerNotifyTxs p txids w) = uniq w" if "(k, p) \<in> set ps" for k p w
      using peers s1(1) that unfolding notify_ok_def by blast
    show ?thesis
      by (rule for_each_invariant [where I = "\<lambda>v. same (World s) (World v) \<and> Peers v = Peers s", OF _ Ok(2)])
         (use s1 ok in \<open>auto simp: effect_def same_def\<close>)
  qed (use range_peers_res [OF rt] in blast)+
qed (use run in \<open>auto simp: NotifyTxs_def ret_def\<close>)

lemma SyncTxs_keeps:
  assumes db: "Db (Env senv) = drv" and chain: "chain_ok senv S" and rt: "runtime_ok docs uniq (Runtime senv)"
    and miner: "miner_ok docs uniq (Client senv)" and src: "source_ok docs uniq txSource"
    and peers: "notify_ok docs uniq (Peers s)" and inv: "store_inv (Env senv) S docs uniq (World s)"
    and run: "SyncTxs senv txids txSource s = (r, s')"
  shows "sync_inv senv S (dom (txstate_of (docs (World s))))
      {x \<in> hex_encode ` set txids. acknowledged (Client senv) x} (World s') \<and> Peers s' = Peers s"
    (is "sync_inv senv S ?K ?A _ \<and> _")
proof -
  have start: "sync_inv senv S ?K ?A (World s)" using inv by (simp add: sync_inv_def)
  let ?v0 = "\<lparr>lackTxids = [], txStatesCache = Map.empty, needProcessTx = [], alreadyClosedTxs = [], errTxs = []\<rparr>"
  note search = SyncTxs_search_res [OF db miner chain _ inv, of txids ?v0]
  from run [unfolded SyncTxs_def] show ?thesis
  proof (cases rule: andThen_eqE)
    case (Ok v s1)
    note v = search [OF Ok(1)]
    then have s1: "sync_inv senv S ?K ?A (World s1)" "Peers s1 = Peers s" and need: "set (needProcessTx v) \<subseteq> S"
      and cache: "\<forall>x \<in> dom (txStatesCache v). acknowledged (Client senv) x \<and> x \<in> ?A"
      using sync_inv_same [OF start] by auto
    from Ok(2) show ?thesis
    proof (cases rule: andThen_eqE)
      case (Ok txs s2)
      then have s2: "sync_inv senv S ?K ?A (World s2)" "Peers s2 = Peers s1"
        using sync_inv_same [OF s1(1)] src by (auto simp: world_eq source_ok_def same_def)
      note rec = SyncTxs_record_res [OF db chain rt cache _ s2(1)]
      from Ok(2) show ?thesis
      proof (cases rule: andThen_eqE)
        case (Ok x s3)
        obtain g nd n where x: "x = (g, nd, n)" by (metis prod.exhaust)
        have s3: "sync_inv senv S ?K ?A (World s3)" "Peers s3 = Peers s2" "set nd \<subseteq> S"
          using rec [OF Ok(1)] need unfolding x by auto
        from Ok(2) [unfolded x prod.case] show ?thesis
        proof (cases rule: andThen_eqE)
          case (Ok now s4)
          then have s4: "sync_inv senv S ?K ?A (World s4)" "Peers s4 = Peers s3"
            using sync_inv_same [OF s3(1)] rt unfolding runtime_ok_def same_def by (auto simp: effect_eq)
          have sorted: "set (SortMsgTx (TxHash (TxL (Env senv))) nd) \<subseteq> S" using s3(3) by (simp add: SortMsgTx.sorter_set)
          note proc = sync_inv_process_all [OF db chain _ s4(1) sorted]
          from Ok(2) show ?thesis
          proof (cases rule: andThen_eqE)
            case (Ok res s5)
            then have s5: "sync_inv senv S ?K ?A (World s5)" "Peers s5 = Peers s4"
              using proc by (auto simp: world_eq ProcessMsgTxs_def)
            have p5: "notify_ok docs uniq (Peers s5)" using peers s1 s2 s3 s4 s5 by simp
            from Ok(2) have "same (World s5) (World s') \<and> Peers s' = Peers s5"
              by (cases rule: andThen_eqE) (auto simp: ret_def dest: NotifyTxs_res [OF rt p5])
            then show ?thesis using sync_inv_same [OF s5(1)] s1(2) s2(2) s3(2) s4(2) s5(2) by simp
          qed (use proc s1(2) s2(2) s3(2) s4(2) in \<open>auto simp: world_eq ProcessMsgTxs_def\<close>)
        qed (auto simp: effect_eq)
      next
        case (Fail e)
        then show ?thesis using rec [OF Fail(1)] s1(2) s2(2) by simp
      next
        case (Stop x)
        then show ?thesis using rec [OF Stop(1)] s1(2) s2(2) by simp
      qed
    qed (use sync_inv_same [OF s1(1)] src s1(2) in \<open>auto simp: world_eq source_ok_def same_def\<close>)
  next
    case (Fail e)
    then show ?thesis using search [OF Fail(1)] sync_inv_same [OF start] by simp
  next
    case (Stop x)
    then show ?thesis using search [OF Stop(1)] sync_inv_same [OF start] by simp
  qed
qed

end


section \<open>Enough rounds\<close>

lemma sync_fuel_step:
  "offset \<le> stop \<Longrightarrow> sync_fuel offset stop = Suc (sync_fuel (offset + COMPARE_PARTITIONS_COUNT) stop)"
  by (simp add: sync_fuel_def COMPARE_PARTITIONS_COUNT_def)

lemma SyncPatitions_loop_fuel:
  assumes "is_int64 offset" "stop \<le> max_int64 - COMPARE_PARTITIONS_COUNT" "sync_fuel offset stop \<le> n"
    "sync_fuel offset stop \<le> m"
  shows "SyncPatitions_loop n senv offset stop s = SyncPatitions_loop m senv offset stop s"
  using assms
proof (induction n arbitrary: m offset s)
  case 0
  then show ?case by (simp add: sync_fuel_def)
next
  case (Suc n)
  obtain k where m: "m = Suc k" using Suc.prems(4) by (cases m) (simp_all add: sync_fuel_def)
  show ?case
  proof (cases "offset \<le> stop")
    case True
    have i: "is_int64 (offset + COMPARE_PARTITIONS_COUNT)"
      using True Suc.prems(1,2) by (simp add: is_int64_def COMPARE_PARTITIONS_COUNT_def)
    have next_off: "add64 offset COMPARE_PARTITIONS_COUNT = offset + COMPARE_PARTITIONS_COUNT"
      unfolding add64_def by (rule wrap64_id [OF i])
    have fuel: "sync_fuel (offset + COMPARE_PARTITIONS_COUNT) stop \<le> n" "sync_fuel (offset + COMPARE_PARTITIONS_COUNT) stop \<le> k"
      using Suc.prems(3,4) sync_fuel_step [OF True] m by simp_all
    have "SyncPatitions_loop n senv (offset + COMPARE_PARTITIONS_COUNT) stop =
        SyncPatitions_loop k senv (offset + COMPARE_PARTITIONS_COUNT) stop"
      by (rule ext, rule Suc.IH [OF i Suc.prems(2) fuel])
    then show ?thesis using True by (simp add: m next_off)
  qed (simp add: m)
qed


lemma expected_count_bound:
  "add64 (go_div (sub64 height start) PARTITION_BLOCK_COUNT) 1 \<le> max_int64 - COMPARE_PARTITIONS_COUNT"
proof -
  let ?d = "sub64 height start"
  have d: "\<bar>?d\<bar> \<le> 2 ^ 63" using is_int64_wrap64 [of "height - start"] by (simp add: sub64_def is_int64_def abs_le_iff)
  have "\<bar>?d\<bar> div 10 \<le> 922337203685477580" using zdiv_mono1 [OF d, of 10] by simp
  moreover have "\<bar>go_div ?d 10\<bar> \<le> \<bar>?d\<bar> div 10" by (simp add: go_div_def abs_mult pos_imp_zdiv_nonneg_iff)
  ultimately have "\<bar>go_div ?d 10 + 1\<bar> \<le> 922337203685477581" by linarith
  then show ?thesis
    by (simp add: PARTITION_BLOCK_COUNT_def COMPARE_PARTITIONS_COUNT_def add64_def wrap64_id is_int64_def abs_le_iff)
qed


section \<open>Properties\<close>

text \<open>
  C8: peers cannot forge. Whatever bytes a source of transactions sends and whatever calls
  fail, \<open>SyncTxs\<close> leaves the ledger well-formed (recorded transactions complete, points
  backed by transactions of the chain, marks consistent), forgets no transaction, and
  every transaction it newly records was asked for and is acknowledged by the miner.
\<close>

theorem SyncTxs_safe:
  assumes "mongo (Db (Env senv)) docs uniq" and "chain_ok senv S" and "runtime_ok docs uniq (Runtime senv)"
    and "miner_ok docs uniq (Client senv)" and "source_ok docs uniq txSource" and "notify_ok docs uniq (Peers s)"
    and "store_inv (Env senv) S docs uniq (World s)" and "SyncTxs senv txids txSource s = (r, s')"
  shows "store_inv (Env senv) S docs uniq (World s') \<and>
    dom (txstate_of (docs (World s))) \<subseteq> dom (txstate_of (docs (World s'))) \<and>
    dom (txstate_of (docs (World s'))) - dom (txstate_of (docs (World s))) \<subseteq>
      {x \<in> hex_encode ` set txids. acknowledged (Client senv) x}"
  using mongo.SyncTxs_keeps [OF assms(1) refl assms(2-8)] unfolding mongo.sync_inv_def [OF assms(1)] by blast

definition ack_client :: "mem MapiClient" where
  "ack_client = demo_client
     \<lparr>Adaptor := (Adaptor demo_client)\<lparr>AdGetTxState := (\<lambda>_. ret \<lparr>CertInfo = demo_cert, RawPayload = []\<rparr>)\<rparr>,
      Json := (Json demo_client)\<lparr>JsonTxState := (\<lambda>_. Ok \<lparr>Ts_ApiVersion = [], Ts_Timestamp = [],
        ReturnResult = RETURN_RESULT_SUCCESS, ResultDescription = [], BlockHash = ''b'', BlockHeight = 12, Ts_MinerId = [],
        Confirmations = 1, Ts_TxSecondMempoolExpiry = 0\<rparr>)\<rparr>\<rparr>"

definition sync_senv :: "(mem, byte list) senv" where
  "sync_senv = demo_senv\<lparr>Env := demo_env\<lparr>TxL := big_lib 3\<rparr>, Client := ack_client\<rparr>"

definition sync_server :: "mem server" where
  "sync_server = \<lparr>World = mem_parts [] [] [], Peers = [], NeedRecompute = []\<rparr>"

lemma sync_senv_ok:
  "mongo (Db (Env sync_senv)) mem_docs (\<lambda>w c. set (mem_uniq w c))"
  "chain_ok sync_senv {NewMsgTx 2}"
  "runtime_ok mem_docs (\<lambda>w c. set (mem_uniq w c)) (Runtime sync_senv)"
  "miner_ok mem_docs (\<lambda>w c. set (mem_uniq w c)) (Client sync_senv)"
  "store_inv (Env sync_senv) {NewMsgTx 2} mem_docs (\<lambda>w c. set (mem_uniq w c)) (World sync_server)"
proof -
  show "mongo (Db (Env sync_senv)) mem_docs (\<lambda>w c. set (mem_uniq w c))"
    by (simp add: sync_senv_def mem.mongo_axioms)
  have "badge_ins (NewMsgTx 2) = []" by (simp add: badge_ins_def NewMsgTx_def indexed_def)
  then show "chain_ok sync_senv {NewMsgTx 2}"
    using big_lib_ok [of 3] hash_addr_lib_ok
    by (auto simp: chain_ok_def sync_senv_def no_double_spend_def DeserializeTxBytes_def big_lib_def)
  show "runtime_ok mem_docs (\<lambda>w c. set (mem_uniq w c)) (Runtime sync_senv)"
    by (simp add: runtime_ok_def sync_senv_def)
  show "miner_ok mem_docs (\<lambda>w c. set (mem_uniq w c)) (Client sync_senv)"
    by (simp add: miner_ok_def sync_senv_def ack_client_def GetTxState_def go_simps attempt_def demo_client_def)
  show "store_inv (Env sync_senv) {NewMsgTx 2} mem_docs (\<lambda>w c. set (mem_uniq w c)) (World sync_server)"
    using mem_parts_wf(1) [of "[]" "[]" "[]"]
    by (simp add: store_inv_def ledger_inv_def wf_store_def raw_ok_def sync_server_def good_Nil marks_ok_def
        mem_parts_def mem_ledger_def points_of_def)
qed

theorem SyncTxs_safe_witness:
  "dom (txstate_of (mem_docs (World (snd (SyncTxs sync_senv [replicate 32 0] (\<lambda>_. ret [[1, 2], [3]]) sync_server)))))
     \<subseteq> {x \<in> hex_encode ` set [replicate 32 0]. acknowledged (Client sync_senv) x}"
proof -
  have src: "source_ok mem_docs (\<lambda>w c. set (mem_uniq w c)) (\<lambda>_. ret [[1, 2], [3]])" by (simp add: source_ok_def ret_def)
  have peers: "notify_ok mem_docs (\<lambda>w c. set (mem_uniq w c)) (Peers sync_server)" by (simp add: notify_ok_def sync_server_def)
  have "txstate_of (mem_docs (World sync_server)) = Map.empty"
    by (simp add: fun_eq_iff txstate_of_def info_docs_def sync_server_def mem_parts_def mem_ledger_def)
  then show ?thesis
    using SyncTxs_safe [OF sync_senv_ok(1-4) src peers sync_senv_ok(5) prod.collapse [symmetric], of "[replicate 32 0]"]
    by simp
qed

text \<open>
  C27: the comparison of partitions ends. The loop of \<open>SyncPatitions\<close> over the offsets never runs
  out of the rounds it is given here: more rounds change nothing, for every range whose
  end is not within one step of the largest 64-bit integer. The end that \<open>SyncState\<close> passes
  never is.
\<close>

theorem SyncPatitions_terminates:
  assumes "is_int64 start" and "stop \<le> max_int64 - COMPARE_PARTITIONS_COUNT" and "sync_fuel start stop \<le> n"
  shows "SyncPatitions_loop n senv start stop s = SyncPatitions senv start stop s \<and>
    add64 (go_div (sub64 height startHeight) PARTITION_BLOCK_COUNT) 1 \<le> max_int64 - COMPARE_PARTITIONS_COUNT"
proof
  show "SyncPatitions_loop n senv start stop s = SyncPatitions senv start stop s"
    using assms unfolding SyncPatitions_def by (rule SyncPatitions_loop_fuel) simp
qed (rule expected_count_bound)

theorem SyncPatitions_terminates_witness:
  "SyncPatitions_loop 9 demo_senv 0 25 sync_server = SyncPatitions demo_senv 0 25 sync_server"
  using SyncPatitions_terminates [of 0 25 9 demo_senv sync_server] by (simp add: is_int64_def sync_fuel_def COMPARE_PARTITIONS_COUNT_def)

end
