(* ===== verification/Frames.thy ===== *)
theory Frames
  imports Sync
begin

text \<open>
  What the operations leave alone. \<open>keeps I m\<close> says that \<open>m\<close> keeps the invariant \<open>I\<close>, however
  it ends; it composes along the structure of the code. With it, every operation of the
  service is shown to write only the collections it is meant to write.
\<close>

section \<open>Keeping an invariant\<close>

definition keeps :: "('s \<Rightarrow> bool) \<Rightarrow> ('s, 'a) io \<Rightarrow> bool" where
  "keeps I m \<longleftrightarrow> (\<forall>s r s'. I s \<longrightarrow> m s = (r, s') \<longrightarrow> I s')"

lemma keepsI: "(\<And>s r s'. I s \<Longrightarrow> m s = (r, s') \<Longrightarrow> I s') \<Longrightarrow> keeps I m"
  by (auto simp: keeps_def)

lemma keepsD: "keeps I m \<Longrightarrow> m s = (r, s') \<Longrightarrow> I s \<Longrightarrow> I s'"
  by (auto simp: keeps_def)

named_theorems keeps_intros

lemma keeps_ret [keeps_intros]: "keeps I (ret x)"
  and keeps_fail [keeps_intros]: "keeps I (fail e)"
  and keeps_of_res [keeps_intros]: "keeps I (of_res r)"
  and keeps_gets [keeps_intros]: "keeps I (gets f)"
  by (auto simp: keeps_def go_simps gets_def)

lemma keeps_attempt [keeps_intros]:
  "keeps I m \<Longrightarrow> (\<And>e. keeps I (h e)) \<Longrightarrow> (\<And>x. keeps I (f x)) \<Longrightarrow> keeps I (attempt m h f)"
  by (rule keepsI, erule attempt_eqE) (blast dest: keepsD)+

lemma keeps_andThen [keeps_intros]:
  "keeps I m \<Longrightarrow> (\<And>x. keeps I (f x)) \<Longrightarrow> keeps I (andThen m f)"
  unfolding andThen_def by (intro keeps_attempt keeps_fail)

lemma keeps_for_each [keeps_intros]:
  "(\<And>x. x \<in> set xs \<Longrightarrow> keeps I (m x)) \<Longrightarrow> keeps I (for_each m xs)"
  by (induction xs) (auto intro!: keeps_intros)

lemma keeps_if [keeps_intros]:
  "(b \<Longrightarrow> keeps I m) \<Longrightarrow> (\<not> b \<Longrightarrow> keeps I n) \<Longrightarrow> keeps I (if b then m else n)"
  by simp

lemma keeps_Let [keeps_intros]: "keeps I (f x) \<Longrightarrow> keeps I (Let x f)"
  by simp

lemma keeps_case [keeps_intros]:
  "(\<And>a b. p = (a, b) \<Longrightarrow> keeps I (fp a b)) \<Longrightarrow> keeps I (case p of (a, b) \<Rightarrow> fp a b)"
  "keeps I n \<Longrightarrow> (\<And>x. o' = Some x \<Longrightarrow> keeps I (fo x)) \<Longrightarrow> keeps I (case o' of None \<Rightarrow> n | Some x \<Rightarrow> fo x)"
  "keeps I n \<Longrightarrow> (\<And>x xs. l = x # xs \<Longrightarrow> keeps I (fl x xs)) \<Longrightarrow> keeps I (case l of [] \<Rightarrow> n | x # xs \<Rightarrow> fl x xs)"
  "(\<And>s. keeps I (fe s)) \<Longrightarrow> (\<And>c s. keeps I (fc c s)) \<Longrightarrow> keeps I (case e of Error s \<Rightarrow> fe s | CodeError c s \<Rightarrow> fc c s)"
  by (cases p, simp) (simp_all split: option.split list.split goerr.split)

text \<open>Invariants of the world and of the server.\<close>

lemma keeps_world [keeps_intros]: "keeps I m \<Longrightarrow> keeps (\<lambda>s. I (World s)) (world m)"
  by (rule keepsI) (auto simp: world_eq dest: keepsD)

lemma keeps_effect:
  "(\<And>w x w'. I w \<Longrightarrow> f w = (x, w') \<Longrightarrow> I w') \<Longrightarrow> keeps (\<lambda>s. I (World s)) (effect f)"
  by (rule keepsI) (auto simp: effect_eq)

lemma keeps_conj: "keeps I m \<Longrightarrow> keeps J m \<Longrightarrow> keeps (\<lambda>s. I s \<and> J s) m"
  by (auto simp: keeps_def)


section \<open>Collections that are not written\<close>

text \<open>Collection \<open>c\<close> holds \<open>ds\<close> under the unique indexes \<open>us\<close>.\<close>

definition holds :: "('w \<Rightarrow> string \<Rightarrow> doc list) \<Rightarrow> ('w \<Rightarrow> string \<Rightarrow> string list set) \<Rightarrow> string \<Rightarrow> doc list
    \<Rightarrow> string list set \<Rightarrow> 'w \<Rightarrow> bool" where
  "holds docs uniq c ds us w \<longleftrightarrow> docs w c = ds \<and> uniq w c = us"

lemma holds_same: "docs w' = docs w \<Longrightarrow> uniq w' = uniq w \<Longrightarrow> holds docs uniq c ds us w \<Longrightarrow> holds docs uniq c ds us w'"
  by (simp add: holds_def)

lemma keeps_holds:
  assumes "\<And>w r w'. m w = (r, w') \<Longrightarrow> docs w' c = docs w c \<and> uniq w' c = uniq w c"
  shows "keeps (holds docs uniq c ds us) m"
  by (rule keepsI) (use assms in \<open>auto simp: holds_def\<close>)

text \<open>An invariant that only depends on the database.\<close>

definition of_db :: "('w \<Rightarrow> string \<Rightarrow> doc list) \<Rightarrow> ('w \<Rightarrow> string \<Rightarrow> string list set) \<Rightarrow> ('w \<Rightarrow> bool) \<Rightarrow> bool" where
  "of_db docs uniq I \<longleftrightarrow> (\<forall>w w'. docs w' = docs w \<longrightarrow> uniq w' = uniq w \<longrightarrow> I w \<longrightarrow> I w')"

lemma of_dbD: "of_db docs uniq I \<Longrightarrow> docs w' = docs w \<Longrightarrow> uniq w' = uniq w \<Longrightarrow> I w \<Longrightarrow> I w'"
  by (simp add: of_db_def)

lemma of_db_holds [keeps_intros]: "of_db docs uniq (holds docs uniq c ds us)"
  by (simp add: of_db_def holds_def)

lemma keeps_of_db:
  assumes "of_db docs uniq I" "\<And>w r w'. m w = (r, w') \<Longrightarrow> docs w' = docs w \<and> uniq w' = uniq w"
  shows "keeps I m"
  by (rule keepsI) (metis assms of_dbD)

lemma keeps_read_only:
  assumes "of_db docs uniq I" "\<And>c ds us. keeps (holds docs uniq c ds us) m"
  shows "keeps I m"
proof (rule keeps_of_db [OF assms(1)])
  fix w r w'
  assume run: "m w = (r, w')"
  have "docs w' c = docs w c \<and> uniq w' c = uniq w c" for c
    using keepsD [OF assms(2) run, of c "docs w c" "uniq w c"] by (simp add: holds_def)
  then show "docs w' = docs w \<and> uniq w' = uniq w" by auto
qed

context mongo
begin

lemma keeps_reads [keeps_intros]:
  "keeps (holds docs uniq c ds us) (GetOne drv c' q)"
  "keeps (holds docs uniq c ds us) (GetMany drv c' q s skip lim)"
  "keeps (holds docs uniq c ds us) (GetAll drv c' q sel s)"
  "keeps (holds docs uniq c ds us) (Count drv c' q)"
  "keeps (holds docs uniq c ds us) (AggregateAll drv c' st)"
  by (rule keeps_holds; auto simp: same_def dest: GetOne_res GetMany_res GetAll_res Count_res AggregateAll_res)+

lemma keeps_writes [keeps_intros]:
  "c' \<noteq> c \<Longrightarrow> keeps (holds docs uniq c ds us) (Insert drv c' d)"
  "c' \<noteq> c \<Longrightarrow> keeps (holds docs uniq c ds us) (UpdateAll drv c' q u)"
  "c' \<noteq> c \<Longrightarrow> keeps (holds docs uniq c ds us) (UpdateOne drv c' q u)"
  "c' \<noteq> c \<Longrightarrow> keeps (holds docs uniq c ds us) (DeleteAll drv c' q)"
  by (rule keeps_holds; auto dest!: Insert_res UpdateAll_res UpdateOne_res DeleteAll_res split: res.splits)+

lemma keeps_Foreach [keeps_intros]:
  assumes "of_db docs uniq I" "\<And>d. keeps I (handle d)"
  shows "keeps I (Foreach drv c q handle)"
proof (rule keepsI)
  fix w r w'
  assume h: "I w" and run: "Foreach drv c q handle w = (r, w')"
  show "I w'"
    using run unfolding Foreach_def
  proof (cases rule: Exec_res)
    case (session w1)
    obtain l eo w2 where it: "mgo_iter drv c q w1 = ((l, eo), w2)" by (metis prod.exhaust)
    have h2: "I w2" using of_dbD [OF assms(1) _ _ h] session(1) iter [OF it] by (simp add: same_def)
    have "keeps I (andThen (for_each handle l) (\<lambda>_. case eo of None \<Rightarrow> ret () | Some e \<Rightarrow> fail e))"
      by (intro keeps_intros assms(2))
    from keepsD [OF this _ h2] show ?thesis using session(2) it by simp
  next
    case no_session
    then show ?thesis using of_dbD [OF assms(1) _ _ h] by (simp add: same_def)
  qed
qed

lemma keeps_GetMsgTxInfo_loop [keeps_intros]:
  "keeps (holds docs uniq c ds us)
     (\<lambda>w. case GetMsgTxInfo_loop drv txid st w of None \<Rightarrow> (Diverge, w) | Some x \<Rightarrow> x)"
  by (rule keepsI) (auto simp: holds_def same_def dest!: GetMsgTxInfo_loop_res split: option.splits)

text \<open>The repositories.\<close>

lemma keeps_repo_reads [keeps_intros]:
  "keeps (holds docs uniq c ds us) (IsMsgTxClosed drv txid)"
  "keeps (holds docs uniq c ds us) (GetMsgTxBriefInfo drv txid)"
  "keeps (holds docs uniq c ds us) (GetMsgTxBriefInfoByHeightRange drv lo hi un)"
  "keeps (holds docs uniq c ds us) (GetMsgTxInfo drv lib txid)"
  "keeps (holds docs uniq c ds us) (GetTxidsByHeightRangeOrderByTxid drv lo hi st un)"
  "keeps (holds docs uniq c ds us) (RepoGetTxPoint drv txid index ty)"
  "keeps (holds docs uniq c ds us) (GetTxPoints drv txid)"
  "keeps (holds docs uniq c ds us) (GetTxPointsByAddr drv addr code st)"
  "keeps (holds docs uniq c ds us) (GetAddrInfo drv addr)"
  "keeps (holds docs uniq c ds us) (GetUserTxPoints drv appid userid ui code st)"
  "keeps (holds docs uniq c ds us) (GetPartitionInfo drv pid)"
  "keeps (holds docs uniq c ds us) (GetPartitionInfos drv off lim)"
  "keeps (holds docs uniq c ds us) (GetPartitionsCount drv)"
  unfolding IsMsgTxClosed_def GetMsgTxBriefInfo_def GetMsgTxBriefInfoByHeightRange_def GetMsgTxInfo_def
    GetTxidsByHeightRangeOrderByTxid_def RepoGetTxPoint_def GetTxPoints_def GetTxPointsByAddr_def GetAddrInfo_def
    GetUserTxPoints_def GetPartitionInfo_def GetPartitionInfos_def GetPartitionsCount_def
  by (intro keeps_intros)+

lemma keeps_repo_writes [keeps_intros]:
  "TBL_RAW_TX_INFO \<noteq> c \<Longrightarrow> keeps (holds docs uniq c ds us) (SetMsgTxState drv txid st)"
  "TBL_RAW_TX_INFO \<noteq> c \<Longrightarrow> keeps (holds docs uniq c ds us) (SetMsgTxHeightHash drv txid h b)"
  "TBL_RAW_TX_INFO \<noteq> c \<Longrightarrow> keeps (holds docs uniq c ds us) (AddMsgTxInfo drv lib t h b ts)"
  "TBL_RAW_TX_INFO \<noteq> c \<Longrightarrow> keeps (holds docs uniq c ds us) (DeleteMsgTx drv txid)"
  "TBL_TX_POINT \<noteq> c \<Longrightarrow> keeps (holds docs uniq c ds us) (AddTxPoint drv p)"
  "TBL_TX_POINT \<noteq> c \<Longrightarrow> keeps (holds docs uniq c ds us) (DeleteTxPoints drv txid)"
  "TBL_TX_POINT \<noteq> c \<Longrightarrow> keeps (holds docs uniq c ds us) (SetTxPointState drv txid i ty st)"
  "TBL_ADDR_INFO \<noteq> c \<Longrightarrow> keeps (holds docs uniq c ds us) (AddOrUpdateAddrInfo drv a)"
  "TBL_PARTITION_INFO \<noteq> c \<Longrightarrow> keeps (holds docs uniq c ds us) (AddPartitionInfo drv pid hash)"
  "TBL_PARTITION_INFO \<noteq> c \<Longrightarrow> keeps (holds docs uniq c ds us) (UpdatePartitionInfo drv pid hash)"
  unfolding SetMsgTxState_def SetMsgTxHeightHash_def AddMsgTxInfo_def insert_ignore_dup_def DeleteMsgTx_def AddTxPoint_def
    DeleteTxPoints_def SetTxPointState_def AddOrUpdateAddrInfo_def AddPartitionInfo_def UpdatePartitionInfo_def
  by (intro keeps_intros; assumption)+

text \<open>The ledger.\<close>

lemma keeps_ParseMsgTx [keeps_intros]:
  assumes "Db env = drv"
  shows "keeps (holds docs uniq c ds us) (GetTxPoint env txid index)"
    and "keeps (holds docs uniq c ds us) (ParseMsgTx_vins env txid ts l vins bv ill)"
    and "keeps (holds docs uniq c ds us) (ParseMsgTx env t ts)"
proof -
  show point: "keeps (holds docs uniq c ds us) (GetTxPoint env txid index)" for txid index
    unfolding GetTxPoint_def assms by (intro keeps_intros)
  show vins: "keeps (holds docs uniq c ds us) (ParseMsgTx_vins env txid ts l vins bv ill)" for txid l vins bv ill
    by (induction l arbitrary: vins bv ill) (auto intro!: keeps_intros point)
  show "keeps (holds docs uniq c ds us) (ParseMsgTx env t ts)"
    unfolding ParseMsgTx_def by (intro keeps_intros vins)
qed

lemma keeps_ProcessMsgTx [keeps_intros]:
  assumes "Db env = drv" "TBL_TX_POINT \<noteq> c" "TBL_RAW_TX_INFO \<noteq> c"
  shows "keeps (holds docs uniq c ds us) (ProcessMsgTx env t ts)"
  unfolding ProcessMsgTx_def ParseAndAddTxPoints_def add_point_ignore_dup_def
  by (intro keeps_intros keeps_ParseMsgTx assms | (subst assms(1)))+

lemma keeps_ProcessMsgTxs [keeps_intros]:
  assumes "Db env = drv" "TBL_TX_POINT \<noteq> c" "TBL_RAW_TX_INFO \<noteq> c"
  shows "keeps (holds docs uniq c ds us) (ProcessMsgTxs env l ts)"
proof -
  have "keeps (holds docs uniq c ds us) (ProcessMsgTxs_loop env ts l acc)" for l acc
    by (induction l arbitrary: acc) (auto intro!: keeps_intros assms)
  then show ?thesis unfolding ProcessMsgTxs_def .
qed

lemma keeps_queries [keeps_intros]:
  assumes "Db env = drv"
  shows "keeps (holds docs uniq c ds us) (GetTransactionInventory env txid)" "keeps (holds docs uniq c ds us) (GetAllAddrUtxos env addr code)" "keeps (holds docs uniq c ds us) (GetAllUserUtxos env appid userid ui code)"
    "keeps (holds docs uniq c ds us) (GetAddrBalance env addr code)" "keeps (holds docs uniq c ds us) (GetUserBalance env appid userid ui code)"
    "keeps (holds docs uniq c ds us) (GetAddrUtxos env sortf addr code off lim)" "keeps (holds docs uniq c ds us) (GetUserUtxos env sortf appid userid ui code off lim)"
    "keeps (holds docs uniq c ds us) (GetAddrInventorys env sorti addr code off lim)" "keeps (holds docs uniq c ds us) (GetUserInventorys env sorti appid userid ui code off lim)"
    "keeps (holds docs uniq c ds us) (GetTxs env ids)" "keeps (holds docs uniq c ds us) (GetPartitionsHash env off lim)" "keeps (holds docs uniq c ds us) (GetUnconfirmTxids env)" "keeps (holds docs uniq c ds us) (GetPartitionsTxids env pids)"
proof -
  have "keeps (holds docs uniq c ds us) (GetTxs_loop env ids acc)" for ids acc
    by (induction ids arbitrary: acc) (auto simp: assms intro!: keeps_intros)
  then show "keeps (holds docs uniq c ds us) (GetTxs env ids)" unfolding GetTxs_def .
  have "keeps (holds docs uniq c ds us) (GetPartitionsTxids_loop env pids acc)" for pids acc
    by (induction pids arbitrary: acc) (auto simp: assms Let_def intro!: keeps_intros)
  then show "keeps (holds docs uniq c ds us) (GetPartitionsTxids env pids)" unfolding GetPartitionsTxids_def by (intro keeps_intros)
qed (simp_all add: assms GetTransactionInventory_def GetAllAddrUtxos_def GetAllUserUtxos_def GetAddrBalance_def GetUserBalance_def
    GetAddrUtxos_def GetUserUtxos_def GetAddrInventorys_def GetUserInventorys_def GetAllAddrInventorys_def
    GetUserAddrInventorys_def GetPartitionsHash_def GetUnconfirmTxids_def keeps_intros)

lemma keeps_SetAddrInfo [keeps_intros]:
  "Db env = drv \<Longrightarrow> TBL_ADDR_INFO \<noteq> c \<Longrightarrow> keeps (holds docs uniq c ds us) (SetAddrInfo env now appid userid ui addr)"
  by (simp add: SetAddrInfo_def keeps_intros)

lemma keeps_SetSpent [keeps_intros]:
  assumes "Db env = drv" "TBL_TX_POINT \<noteq> c" "mapi_ok docs uniq client"
  shows "keeps (holds docs uniq c ds us) (SetSpent env client now)"
proof -
  have "keeps (holds docs uniq c ds us) (GetFeeQuote client)"
    by (rule keeps_holds) (metis assms(3) mapi_ok_def)
  then show ?thesis
    unfolding SetSpent_def ForearchUnspentVinTxPoint_def set_spent_handle_def assms(1) by (intro keeps_intros assms(2))
qed

end

end
