(* ===== verification/Payments.thy ===== *)
theory Payments
  imports Frames
begin

text \<open>
  \<open>SendBadgeToAddress\<close> of \<open>src/services/touchstone_server.go\<close>: it assembles an unsigned
  transaction that pays badges of a user to addresses, burns some and returns the change.
\<close>

section \<open>The code\<close>

definition SERVICE_TX_VERSION :: int where "SERVICE_TX_VERSION = 2"
definition BADGE_DUST_LIMIT :: int where "BADGE_DUST_LIMIT = 888"

record AddrAmount =
  Pay_Addr :: string
  Pay_Amount :: int

record SendBadgeToAddressRsp =
  UnFinishedTx :: string
  Rsp_Vins :: "TxPoint list"

fun SendBadge_outs :: "('w, 'a) env \<Rightarrow> AddrAmount list \<Rightarrow> int \<Rightarrow> MsgTx \<Rightarrow> (int \<times> MsgTx) res" where
  "SendBadge_outs env [] voutValue msgTx = Ok (voutValue, msgTx)"
| "SendBadge_outs env (addrAmount # rest) voutValue msgTx =
     bind_res (DecodeAddress (AddrL env) (Pay_Addr addrAmount) (GNetParam (Conf env))) (\<lambda>addr.
     bind_res (CreateBadgeLockScript (AddrL env) addr (Pay_Amount addrAmount)) (\<lambda>script.
       SendBadge_outs env rest (add64 voutValue (Pay_Amount addrAmount))
         (AddTxOut \<lparr>OutValue = BADGE_DUST_LIMIT, PkScript = script\<rparr> msgTx)))"

fun SendBadge_ins ::
  "('w, 'a) env \<Rightarrow> int \<Rightarrow> TxPoint list \<Rightarrow> int \<Rightarrow> TxPoint list \<Rightarrow> MsgTx \<Rightarrow> (int \<times> TxPoint list \<times> MsgTx) res" where
  "SendBadge_ins env voutValue [] vinValue usedVins msgTx = Ok (vinValue, usedVins, msgTx)"
| "SendBadge_ins env voutValue (txPoint # rest) vinValue usedVins msgTx =
     (if vinValue \<ge> voutValue then Ok (vinValue, usedVins, msgTx)
      else bind_res (NewHashFromStr (TxL env) (Txid txPoint)) (\<lambda>hash.
        SendBadge_ins env voutValue rest (add64 vinValue (Value txPoint)) (usedVins @ [txPoint])
          (AddTxIn (NewTxIn \<lparr>Hash = hash, OutIndex = Index txPoint mod 2 ^ 32\<rparr> []) msgTx)))"

definition SendBadgeToAddress ::
  "('w, 'a) env \<Rightarrow> string \<Rightarrow> int \<Rightarrow> int \<Rightarrow> string \<Rightarrow> string \<Rightarrow> AddrAmount list \<Rightarrow> int
     \<Rightarrow> ('w, SendBadgeToAddressRsp) io" where
  "SendBadgeToAddress env appid userid userIndex badgeCode changeAddrStr addrAmounts amount2burn =
     andThen (of_res (DecodeAddress (AddrL env) changeAddrStr (GNetParam (Conf env)))) (\<lambda>changeAddr.
     andThen (of_res (SendBadge_outs env addrAmounts amount2burn (NewMsgTx SERVICE_TX_VERSION)))
       (\<lambda>(voutValue, msgTx).
     andThen (GetAllUserUtxos env appid userid userIndex badgeCode) (\<lambda>txPoints.
     andThen (of_res (SendBadge_ins env voutValue txPoints 0 [] msgTx)) (\<lambda>(vinValue, usedVins, msgTx').
       let change = sub64 vinValue voutValue
       in if change < 0 then fail (NewCodeError ERR_NOT_ENOUGH_BADGE_CODE ''not enough badge'')
          else if change = 0
          then ret \<lparr>UnFinishedTx = SeserializeMsgTxStr (TxL env) msgTx', Rsp_Vins = usedVins\<rparr>
          else andThen (of_res (CreateBadgeLockScript (AddrL env) changeAddr change)) (\<lambda>script.
            ret \<lparr>UnFinishedTx = SeserializeMsgTxStr (TxL env)
                  (AddTxOut \<lparr>OutValue = BADGE_DUST_LIMIT, PkScript = script\<rparr> msgTx'),
                 Rsp_Vins = usedVins\<rparr>)))))"


section \<open>What the outputs are worth\<close>

definition out_value :: "('w, 'a) env \<Rightarrow> TxOut \<Rightarrow> int" where
  "out_value env vout = (case ParseBadgeVoutScript (AddrL env) (PkScript vout) (GNetParam (Conf env)) of
     Ok bv \<Rightarrow> BadgeValue bv | _ \<Rightarrow> 0)"

lemma badge_total_out_value: "badge_total (badge_outs env l) = sum_list (map (out_value env \<circ> snd) l)"
proof (induction l)
  case (Cons a l)
  then show ?case by (cases a) (auto simp: out_value_def split: res.splits)
qed simp

lemma badge_total_indexed:
  "badge_total (badge_outs env (indexed outs)) = sum_list (map (out_value env) outs)"
  by (simp add: badge_total_out_value map_map [symmetric] del: map_map)

text \<open>Addresses whose script address is a 20-byte hash.\<close>

definition hash_address :: "('w, 'a) env \<Rightarrow> string \<Rightarrow> bool" where
  "hash_address env s \<longleftrightarrow> (\<forall>a. DecodeAddress (AddrL env) s (GNetParam (Conf env)) = Ok a \<longrightarrow>
     length (ScriptAddress (AddrL env) a) = 20)"

lemma created_value:
  assumes lib: "addr_lib_ok (AddrL env)" and a: "length (ScriptAddress (AddrL env) a) = 20"
    and v: "v \<le> max_int64" and s: "CreateBadgeLockScript (AddrL env) a v = Ok s"
  shows "out_value env \<lparr>OutValue = n, PkScript = s\<rparr> = v \<and> 0 \<le> v"
proof -
  have v0: "0 \<le> v" using s by (auto simp: CreateBadgeLockScript_def split: if_splits)
  obtain b where b: "NewAddressPubKeyHash (AddrL env) (ScriptAddress (AddrL env) a) (GNetParam (Conf env)) = Ok b"
    using lib a unfolding addr_lib_ok_def by blast
  then show ?thesis
    using ParseBadgeVoutScript_badge_script [OF a v0 v b] s v0 lib by (simp add: CreateBadgeLockScript_eq out_value_def)
qed

lemma SendBadge_outs_res:
  assumes lib: "addr_lib_ok (AddrL env)"
  shows "SendBadge_outs env ps v t = Ok (v', t') \<Longrightarrow> 0 \<le> v \<Longrightarrow>
    \<forall>p \<in> set ps. hash_address env (Pay_Addr p) \<and> 0 \<le> Pay_Amount p \<Longrightarrow>
    v + sum_list (map Pay_Amount ps) \<le> max_int64 \<Longrightarrow>
    v' = v + sum_list (map Pay_Amount ps) \<and> TxIns t' = TxIns t \<and> length (TxOuts t') = length (TxOuts t) + length ps \<and>
    sum_list (map (out_value env) (TxOuts t')) = sum_list (map (out_value env) (TxOuts t)) + sum_list (map Pay_Amount ps)"
proof (induction ps arbitrary: v t)
  case (Cons p ps)
  obtain a s where a: "DecodeAddress (AddrL env) (Pay_Addr p) (GNetParam (Conf env)) = Ok a"
    and s: "CreateBadgeLockScript (AddrL env) a (Pay_Amount p) = Ok s"
    and rest: "SendBadge_outs env ps (add64 v (Pay_Amount p)) (AddTxOut \<lparr>OutValue = BADGE_DUST_LIMIT, PkScript = s\<rparr> t) = Ok (v', t')"
    using Cons.prems(1) by auto
  have nonneg: "0 \<le> sum_list (map Pay_Amount ps)" by (rule sum_list_nonneg) (use Cons.prems(3) in auto)
  have p: "0 \<le> Pay_Amount p" "Pay_Amount p \<le> max_int64" "v + Pay_Amount p \<le> max_int64"
    using Cons.prems(2-4) nonneg by simp_all
  have add: "add64 v (Pay_Amount p) = v + Pay_Amount p"
    unfolding add64_def by (rule wrap64_id, rule is_int64_nonneg) (use p Cons.prems(2) in simp_all)
  have val: "out_value env \<lparr>OutValue = BADGE_DUST_LIMIT, PkScript = s\<rparr> = Pay_Amount p"
    using created_value [OF lib _ p(2) s] Cons.prems(3) a by (simp add: hash_address_def)
  show ?case
    using Cons.IH [OF rest] Cons.prems(2-4) p by (simp add: add AddTxOut_def val)
qed simp

text \<open>An input of a transaction that refers to the output a point describes.\<close>

definition spends :: "('w, 'a) env \<Rightarrow> TxIn \<Rightarrow> TxPoint \<Rightarrow> bool" where
  "spends env vin p \<longleftrightarrow> NewHashFromStr (TxL env) (Txid p) = Ok (Hash (PreviousOutPoint vin)) \<and>
     OutIndex (PreviousOutPoint vin) = Index p mod 2 ^ 32"

text \<open>The inputs taken are the shortest prefix that is worth enough, or all.\<close>

lemma SendBadge_ins_res:
  "SendBadge_ins env need us v used t = Ok (v', used', t') \<Longrightarrow>
    \<forall>p \<in> set us. 0 \<le> Value p \<Longrightarrow> 0 \<le> v \<Longrightarrow> v + sum_list (map Value us) \<le> max_int64 \<Longrightarrow>
    \<exists>k \<le> length us. used' = used @ take k us \<and> v' = v + sum_list (map Value (take k us)) \<and>
      TxOuts t' = TxOuts t \<and>
      list_all2 (spends env) (drop (length (TxIns t)) (TxIns t')) (take k us) \<and>
      take (length (TxIns t)) (TxIns t') = TxIns t \<and>
      (need \<le> v' \<or> k = length us) \<and> (\<forall>j < k. v + sum_list (map Value (take j us)) < need)"
proof (induction us arbitrary: v used t)
  case Nil
  then show ?case by auto
next
  case (Cons p us)
  show ?case
  proof (cases "v \<ge> need")
    case True
    then show ?thesis using Cons.prems(1) by (intro exI [of _ 0]) auto
  next
    case False
    let ?vin = "\<lambda>h. NewTxIn \<lparr>Hash = h, OutIndex = Index p mod 2 ^ 32\<rparr> []"
    obtain h where h: "NewHashFromStr (TxL env) (Txid p) = Ok h"
      and rest: "SendBadge_ins env need us (add64 v (Value p)) (used @ [p]) (AddTxIn (?vin h) t) = Ok (v', used', t')"
      using Cons.prems(1) False by auto
    have nonneg: "0 \<le> sum_list (map Value us)" by (rule sum_list_nonneg) (use Cons.prems(2) in auto)
    have p: "0 \<le> Value p" "v + Value p \<le> max_int64" using Cons.prems(2-4) nonneg by simp_all
    have add: "add64 v (Value p) = v + Value p"
      unfolding add64_def by (rule wrap64_id, rule is_int64_nonneg) (use p Cons.prems(3) in simp_all)
    have "\<forall>q \<in> set us. 0 \<le> Value q" "0 \<le> v + Value p" "v + Value p + sum_list (map Value us) \<le> max_int64"
      using Cons.prems(2-4) p by simp_all
    from Cons.IH [OF rest [unfolded add] this] obtain k where k: "k \<le> length us" "used' = (used @ [p]) @ take k us"
      "v' = v + Value p + sum_list (map Value (take k us))" "TxOuts t' = TxOuts t"
      and ins: "list_all2 (spends env) (drop (Suc (length (TxIns t))) (TxIns t')) (take k us)"
      "take (Suc (length (TxIns t))) (TxIns t') = TxIns t @ [?vin h]"
      and least: "need \<le> v' \<or> k = length us" "\<forall>j < k. v + Value p + sum_list (map Value (take j us)) < need"
      by (auto simp: AddTxIn_def)
    have len: "length (TxIns t) < length (TxIns t')" using arg_cong [OF ins(2), of length] by simp
    have nth: "TxIns t' ! length (TxIns t) = ?vin h"
      using ins(2) len by (metis lessI nth_append_length nth_take)
    have dr: "drop (length (TxIns t)) (TxIns t') = ?vin h # drop (Suc (length (TxIns t))) (TxIns t')"
      using len nth by (metis Cons_nth_drop_Suc)
    have tk: "take (length (TxIns t)) (TxIns t') = TxIns t"
      using ins(2) by (metis append_eq_conv_conj diff_Suc_1 length_append_singleton take_Suc_conv_app_nth butlast_snoc butlast_take len Suc_leI)
    have "v + sum_list (map Value (take j (p # us))) < need" if "j < Suc k" for j
      using that least(2) False by (cases j) (auto simp: add.assoc)
    moreover have "spends env (?vin h) p" using h by (simp add: spends_def NewTxIn_def)
    ultimately show ?thesis
      using k ins(1) least(1) tk by (intro exI [of _ "Suc k"]) (simp add: dr)
  qed
qed


lemma sum_list_prefix:
  fixes xs :: "int list"
  assumes "\<forall>x \<in> set xs. 0 \<le> x"
  shows "0 \<le> sum_list (take k xs) \<and> sum_list (take k xs) \<le> sum_list xs"
proof -
  have "sum_list xs = sum_list (take k xs) + sum_list (drop k xs)"
    by (metis append_take_drop_id sum_list_append)
  moreover have "0 \<le> sum_list (take k xs)" "0 \<le> sum_list (drop k xs)"
    using assms by (auto intro!: sum_list_nonneg dest: in_set_takeD in_set_dropD)
  ultimately show ?thesis by simp
qed


section \<open>Properties\<close>

text \<open>
  C12: payments are balanced. In every reachable state an assembled transaction spends
  unspent outputs of the user of the badge asked for, one input for each point
  returned, and what its badge outputs carry together with the amount to burn is exactly the
  value of these points. It is assembled only when the user's balance covers the payment.
  The addresses are hashes of 20 bytes and the amounts do not overflow.
\<close>

theorem SendBadgeToAddress_balanced:
  assumes "mongo (Db env) docs uniq" and "ledger_start env client S docs uniq w0"
    and "(ledger_step env client S)\<^sup>*\<^sup>* w0 w" and "wf_addrs (docs w) (uniq w)"
    and "hash_address env change"
    and pays: "\<forall>p \<in> set pays. hash_address env (Pay_Addr p) \<and> 0 \<le> Pay_Amount p"
    and burn: "0 \<le> burn" "burn + sum_list (map Pay_Amount pays) \<le> max_int64"
    and run: "SendBadgeToAddress env appid userid userIndex code change pays burn w = (Ok rsp, w')"
  shows "docs w' = docs w \<and>
    burn + sum_list (map Pay_Amount pays) \<le>
      (\<Sum>a \<in> Info_Addr ` set (filter (owns appid userid userIndex) (addrs_of (docs w))). balance (points_of (docs w)) a code) \<and>
    (\<exists>t. UnFinishedTx rsp = SeserializeMsgTxStr (TxL env) t \<and> list_all2 (spends env) (TxIns t) (Rsp_Vins rsp) \<and>
      badge_total (badge_outs env (indexed (TxOuts t))) + burn = sum_list (map Value (Rsp_Vins rsp)) \<and>
      (\<exists>us. prefix (Rsp_Vins rsp) us \<and> mset us = mset (filter (\<lambda>p. BadgeCode p = code \<and>
        Addr p \<in> Info_Addr ` set (filter (owns appid userid userIndex) (addrs_of (docs w)))) (CalculateUtxos (points_of (docs w))))))"
proof -
  let ?A = "Info_Addr ` set (filter (owns appid userid userIndex) (addrs_of (docs w)))"
  let ?need = "burn + sum_list (map Pay_Amount pays)"
  note i = reachable_inv [OF assms(1-3)]
  have lib: "addr_lib_ok (AddrL env)" using assms(2) by (simp add: ledger_start_def)
  have wf: "wf_db (docs w) (uniq w)" using i(1) by (simp add: ledger_inv_def)
  obtain ca need t1 us vin used t2 where
    ca: "DecodeAddress (AddrL env) change (GNetParam (Conf env)) = Ok ca"
    and outs: "SendBadge_outs env pays burn (NewMsgTx SERVICE_TX_VERSION) = Ok (need, t1)"
    and us: "GetAllUserUtxos env appid userid userIndex code w = (Ok us, w')"
    and ins: "SendBadge_ins env need us 0 [] t1 = Ok (vin, used, t2)"
    and enough: "0 \<le> sub64 vin need" "Rsp_Vins rsp = used"
    and tx: "sub64 vin need = 0 \<and> UnFinishedTx rsp = SeserializeMsgTxStr (TxL env) t2 \<or>
      0 < sub64 vin need \<and> (\<exists>s. CreateBadgeLockScript (AddrL env) ca (sub64 vin need) = Ok s \<and>
        UnFinishedTx rsp = SeserializeMsgTxStr (TxL env) (AddTxOut \<lparr>OutValue = BADGE_DUST_LIMIT, PkScript = s\<rparr> t2))"
    using run unfolding SendBadgeToAddress_def
    by (auto simp: andThen_eq_Ok of_res_def fail_def ret_def Let_def split: if_splits)
  have g: "good env S (points_of (docs w))" and m: "marks_ok (points_of (docs w))" using i(1) by (auto simp: ledger_inv_def)
  note res = mongo.GetAllUserUtxos_res [OF assms(1) wf assms(4) refl us, simplified]
  have tot: "sum_list (map Value us) = (\<Sum>a \<in> ?A. balance (points_of (docs w)) a code)"
    "sum_list (map Value us) \<le> MAX_CREATE_BADGE_VALUE" "\<forall>p \<in> set us. 0 \<le> Value p"
    using mongo.utxo_total [OF assms(1) i conjunct2 [OF res]] by (auto simp: list_all_iff)
  have pool: "mset us = mset (filter (\<lambda>p. BadgeCode p = code \<and> Addr p \<in> ?A) (CalculateUtxos (points_of (docs w))))"
    using res unmarked_utxos [OF g m, of "\<lambda>a. a \<in> ?A" code] by (simp add: conj_commute)
  have o: "need = ?need" "TxIns t1 = []" "sum_list (map (out_value env) (TxOuts t1)) = sum_list (map Pay_Amount pays)"
    using SendBadge_outs_res [OF lib outs burn(1) pays burn(2)] by (simp_all add: NewMsgTx_def)
  obtain k where k: "used = take k us" "vin = sum_list (map Value (take k us))" "TxOuts t2 = TxOuts t1"
    "list_all2 (spends env) (TxIns t2) used"
    using SendBadge_ins_res [OF ins tot(3)] tot(2) o(2) by (auto simp: MAX_CREATE_BADGE_VALUE_def)
  have vin: "0 \<le> vin" "vin \<le> sum_list (map Value us)"
    using sum_list_prefix [of "map Value us" k] tot(3) k(2) by (auto simp: take_map)
  have need: "0 \<le> need" using o(1) burn(1) pays by (auto intro!: add_nonneg_nonneg sum_list_nonneg)
  have sub: "sub64 vin need = vin - need"
    unfolding sub64_def by (rule wrap64_id) (use vin need tot(2) o(1) burn(2) in \<open>auto simp: is_int64_def MAX_CREATE_BADGE_VALUE_def\<close>)
  have "\<exists>t. UnFinishedTx rsp = SeserializeMsgTxStr (TxL env) t \<and> TxIns t = TxIns t2 \<and>
      sum_list (map (out_value env) (TxOuts t)) = vin - burn"
    using tx
  proof (elim disjE conjE exE)
    assume "sub64 vin need = 0" "UnFinishedTx rsp = SeserializeMsgTxStr (TxL env) t2"
    then show ?thesis using sub o k(3) by auto
  next
    fix s
    assume s: "CreateBadgeLockScript (AddrL env) ca (sub64 vin need) = Ok s"
      "UnFinishedTx rsp = SeserializeMsgTxStr (TxL env) (AddTxOut \<lparr>OutValue = BADGE_DUST_LIMIT, PkScript = s\<rparr> t2)"
    have "out_value env \<lparr>OutValue = BADGE_DUST_LIMIT, PkScript = s\<rparr> = vin - need"
      using created_value [OF lib _ _ s(1)] assms(5) ca sub vin need tot(2)
      by (simp add: hash_address_def MAX_CREATE_BADGE_VALUE_def)
    then show ?thesis using s(2) o k(3) by (auto simp: AddTxOut_def)
  qed
  moreover have "prefix used us" using k(1) by (simp add: take_is_prefix)
  ultimately show ?thesis
    using res pool enough sub k(2,4) o(1) vin(2) tot(1) burn
    by (auto simp: badge_total_indexed k(1) mongo.same_def [OF assms(1)])
qed


text \<open>The witness: a user who was issued 100 badges pays 60 and burns 10.\<close>

definition pay_addr :: string where "pay_addr = hex_encode (replicate 20 7)"

definition pay_start :: mem where
  "pay_start = demo_fresh
     \<lparr>mem_docs := (mem_docs demo_fresh)(TBL_ADDR_INFO := [doc_of_AddrInfo (demo_addr_info pay_addr 1)]),
      mem_uniq := (mem_uniq demo_fresh)(TBL_ADDR_INFO := [[ADDR]])\<rparr>"

definition pay_world :: mem where
  "pay_world = snd (ProcessMsgTx demo_env (demo_issue 1 100) 5 pay_start)"

lemma pay_ledger_start: "ledger_start demo_env demo_client {demo_issue 1 100} mem_docs (\<lambda>w c. set (mem_uniq w c)) pay_start"
  using demo_start
  by (simp add: ledger_start_def pay_start_def wf_db_def points_of_def no_double_spend_def)

lemma pay_world_reachable: "(ledger_step demo_env demo_client {demo_issue 1 100})\<^sup>*\<^sup>* pay_start pay_world"
  unfolding pay_world_def
  by (rule r_into_rtranclp, rule ledger_step.process [of "demo_issue 1 100", OF _ prod.collapse [symmetric]]) simp

lemma pay_world_users: "map Info_Addr (addrs_of (mem_docs pay_world)) = [pay_addr]"
  by code_simp

lemma pay_run: "succeeds (SendBadgeToAddress demo_env ''app'' 1 0 (demo_txid 1) pay_addr
    [\<lparr>Pay_Addr = pay_addr, Pay_Amount = 60\<rparr>] 10 pay_world)"
  by code_simp


lemma pay_world_wf: "wf_addrs (mem_docs pay_world) (\<lambda>c. set (mem_uniq pay_world c))"
proof -
  let ?u = "\<lambda>w c. set (mem_uniq w c)" and ?d = "[doc_of_AddrInfo (demo_addr_info pay_addr 1)]"
  have "keeps (holds mem_docs ?u TBL_ADDR_INFO ?d {[ADDR]}) (ProcessMsgTx demo_env (demo_issue 1 100) 5)"
    by (rule mem.keeps_ProcessMsgTx) simp_all
  then have "holds mem_docs ?u TBL_ADDR_INFO ?d {[ADDR]} pay_world"
    unfolding pay_world_def by (rule keepsD [OF _ prod.collapse [symmetric]]) (simp add: holds_def pay_start_def)
  then show ?thesis by (simp add: holds_def wf_addrs_def addrs_of_def)
qed

theorem SendBadgeToAddress_balanced_witness:
  "\<exists>rsp t. fst (SendBadgeToAddress demo_env ''app'' 1 0 (demo_txid 1) pay_addr
      [\<lparr>Pay_Addr = pay_addr, Pay_Amount = 60\<rparr>] 10 pay_world) = Ok rsp \<and>
    UnFinishedTx rsp = SeserializeMsgTxStr (TxL demo_env) t \<and> length (TxIns t) = length (Rsp_Vins rsp) \<and>
    badge_total (badge_outs demo_env (indexed (TxOuts t))) + 10 = sum_list (map Value (Rsp_Vins rsp))"
proof -
  obtain rsp where run: "SendBadgeToAddress demo_env ''app'' 1 0 (demo_txid 1) pay_addr
      [\<lparr>Pay_Addr = pay_addr, Pay_Amount = 60\<rparr>] 10 pay_world = (Ok rsp, snd (SendBadgeToAddress demo_env ''app'' 1 0 (demo_txid 1)
      pay_addr [\<lparr>Pay_Addr = pay_addr, Pay_Amount = 60\<rparr>] 10 pay_world))"
    using pay_run by (rule succeedsE)
  have addr: "hash_address demo_env pay_addr"
    by (auto simp: hash_address_def pay_addr_def hash_addr_lib_def)
  from SendBadgeToAddress_balanced [OF demo_mongo pay_ledger_start pay_world_reachable pay_world_wf addr _ _ _ run] addr
  obtain t where "UnFinishedTx rsp = SeserializeMsgTxStr (TxL demo_env) t" "list_all2 (spends demo_env) (TxIns t) (Rsp_Vins rsp)"
    "badge_total (badge_outs demo_env (indexed (TxOuts t))) + 10 = sum_list (map Value (Rsp_Vins rsp))" by auto
  then show ?thesis using run by (metis fst_conv list_all2_lengthD)
qed

end
