(* ===== verification/Server_History.thy ===== *)
theory Server_History
  imports Payments
begin

text \<open>
  A server in its environment: peers, the miner and the network cannot write to its database. An invariant that is
  kept by fetching transactions, setting hashes, marking points and registering addresses is kept by everything
  clients and peers can ask for, with any call failing. The invariant of the service is one: the ledger is
  consistent with the chain, and so are addresses and partitions.
\<close>

section \<open>The environment\<close>

text \<open>A peer cannot write to the database of this server.\<close>

definition peer_ok :: "('w \<Rightarrow> string \<Rightarrow> doc list) \<Rightarrow> ('w \<Rightarrow> string \<Rightarrow> string list set) \<Rightarrow> 'w Node \<Rightarrow> bool" where
  "peer_ok docs uniq peer \<longleftrightarrow>
     (\<forall>ids w. docs (PeerNotifyTxs peer ids w) = docs w \<and> uniq (PeerNotifyTxs peer ids w) = uniq w) \<and>
     (\<forall>ids w r w'. PeerGetTxs peer ids w = (r, w') \<longrightarrow> docs w' = docs w \<and> uniq w' = uniq w) \<and>
     (\<forall>a b w r w'. PeerGetPartitionsHash peer a b w = (r, w') \<longrightarrow> docs w' = docs w \<and> uniq w' = uniq w) \<and>
     (\<forall>w r w'. PeerGetUnconfirmTxids peer w = (r, w') \<longrightarrow> docs w' = docs w \<and> uniq w' = uniq w) \<and>
     (\<forall>ids w r w'. PeerGetTxidsByPartitions peer ids w = (r, w') \<longrightarrow> docs w' = docs w \<and> uniq w' = uniq w)"

definition peers_ok :: "('w \<Rightarrow> string \<Rightarrow> doc list) \<Rightarrow> ('w \<Rightarrow> string \<Rightarrow> string list set) \<Rightarrow> (string \<times> 'w Node) list \<Rightarrow> bool" where
  "peers_ok docs uniq peers \<longleftrightarrow> (\<forall>p \<in> set peers. peer_ok docs uniq (snd p))"

text \<open>Neither can the miner, the clock and the runtime, or the network on dialling.\<close>

definition net_ok :: "('w \<Rightarrow> string \<Rightarrow> doc list) \<Rightarrow> ('w \<Rightarrow> string \<Rightarrow> string list set) \<Rightarrow> ('w, 'a) senv \<Rightarrow> bool" where
  "net_ok docs uniq senv \<longleftrightarrow> mapi_ok docs uniq (Client senv) \<and> miner_ok docs uniq (Client senv) \<and>
     runtime_ok docs uniq (Runtime senv) \<and>
     (\<forall>host w r w'. GrpcDial senv host w = (r, w') \<longrightarrow> docs w' = docs w \<and> uniq w' = uniq w \<and>
        (case r of Ok peer \<Rightarrow> peer_ok docs uniq peer | _ \<Rightarrow> True))"

text \<open>An invariant of the world, together with the peers being what they should.\<close>

definition node_inv :: "('w \<Rightarrow> string \<Rightarrow> doc list) \<Rightarrow> ('w \<Rightarrow> string \<Rightarrow> string list set) \<Rightarrow> ('w \<Rightarrow> bool) \<Rightarrow> 'w server \<Rightarrow> bool" where
  "node_inv docs uniq I s \<longleftrightarrow> I (World s) \<and> peers_ok docs uniq (Peers s)"

lemma keeps_node_world [keeps_intros]: "keeps I m \<Longrightarrow> keeps (node_inv docs uniq I) (world m)"
  by (rule keepsI) (auto simp: world_eq node_inv_def dest: keepsD)

lemma keeps_node_effect:
  assumes "of_db docs uniq I" "\<And>w x w'. f w = (x, w') \<Longrightarrow> docs w' = docs w \<and> uniq w' = uniq w"
  shows "keeps (node_inv docs uniq I) (effect f)"
proof (rule keepsI)
  fix s r s'
  assume s: "node_inv docs uniq I s" and "effect f s = (r, s')"
  then obtain x w' where w': "f (World s) = (x, w')" "s' = s\<lparr>World := w'\<rparr>" by (auto simp: effect_eq)
  have "I w'" using of_dbD [OF assms(1)] assms(2) [OF w'(1)] s by (auto simp: node_inv_def)
  then show "node_inv docs uniq I s'" using s w'(2) by (simp add: node_inv_def)
qed

lemma keeps_modify: "(\<And>s. I s \<Longrightarrow> I (f s)) \<Longrightarrow> keeps I (modify f)"
  by (simp add: keeps_def modify_def)

lemma keeps_mark_partition [keeps_intros]:
  "keeps (node_inv docs uniq I) (AddNeedRecomputehashPartition pid)"
  "keeps (node_inv docs uniq I) (AddNeedRecomputehashPartitionByHeight senv h)"
  "keeps (node_inv docs uniq I) ClearPartitionsCache"
proof -
  show add: "keeps (node_inv docs uniq I) (AddNeedRecomputehashPartition pid)" for pid
    unfolding AddNeedRecomputehashPartition_def by (intro keeps_intros keeps_modify) (simp add: node_inv_def)
  then show "keeps (node_inv docs uniq I) (AddNeedRecomputehashPartitionByHeight senv h)"
    unfolding AddNeedRecomputehashPartitionByHeight_def by (intro keeps_intros add)
  show "keeps (node_inv docs uniq I) ClearPartitionsCache"
    unfolding ClearPartitionsCache_def by (intro keeps_intros keeps_modify) (simp add: node_inv_def)
qed

text \<open>Results that the rest of a computation depends on.\<close>

lemma keeps_andThen_res:
  assumes "keeps I m" "\<And>s x s'. I s \<Longrightarrow> m s = (Ok x, s') \<Longrightarrow> keeps I (f x)"
  shows "keeps I (andThen m f)"
proof (rule keepsI)
  fix s r s'
  assume s: "I s" and "andThen m f s = (r, s')"
  then show "I s'" using keepsD [OF assms(1) _ s] keepsD [OF assms(2) [OF s]] by (elim andThen_eqE) auto
qed

lemma keeps_collections:
  assumes "\<And>c ds us. c \<in> C \<Longrightarrow> keeps (node_inv docs uniq (holds docs uniq c ds us)) m"
    and "\<And>w w'. \<forall>c \<in> C. docs w' c = docs w c \<and> uniq w' c = uniq w c \<Longrightarrow> I w \<Longrightarrow> I w'" and "C \<noteq> {}"
  shows "keeps (node_inv docs uniq I) m"
proof (rule keepsI)
  fix s r s'
  assume s: "node_inv docs uniq I s" and run: "m s = (r, s')"
  have one: "docs (World s') c = docs (World s) c \<and> uniq (World s') c = uniq (World s) c \<and> peers_ok docs uniq (Peers s')"
    if "c \<in> C" for c
  proof -
    have "node_inv docs uniq (holds docs uniq c (docs (World s) c) (uniq (World s) c)) s"
      using s by (simp add: node_inv_def holds_def)
    from keepsD [OF assms(1) [OF that] run this] show ?thesis by (simp add: node_inv_def holds_def)
  qed
  then have "I (World s')" using assms(2) [of "World s'" "World s"] s by (simp add: node_inv_def)
  moreover have "peers_ok docs uniq (Peers s')" using one assms(3) by blast
  ultimately show "node_inv docs uniq I s'" by (simp add: node_inv_def)
qed

lemma keeps_world_collections:
  assumes "\<And>c ds us. c \<in> C \<Longrightarrow> keeps (holds docs uniq c ds us) m"
    and "\<And>w w'. \<forall>c \<in> C. docs w' c = docs w c \<and> uniq w' c = uniq w c \<Longrightarrow> I w \<Longrightarrow> I w'"
  shows "keeps I m"
proof (rule keepsI)
  fix w r w'
  assume "I w" and run: "m w = (r, w')"
  have "docs w' c = docs w c \<and> uniq w' c = uniq w c" if "c \<in> C" for c
    using keepsD [OF assms(1) [OF that] run, of "docs w c" "uniq w c"] by (simp add: holds_def)
  then show "I w'" using assms(2) [of w' w] \<open>I w\<close> by simp
qed

lemma node_inv_conj:
  "keeps (node_inv docs uniq I) m \<Longrightarrow> keeps (node_inv docs uniq J) m \<Longrightarrow> keeps (node_inv docs uniq (\<lambda>w. I w \<and> J w)) m"
  unfolding keeps_def node_inv_def by blast


lemma set_alist_update: "set (AList.update k v al) \<subseteq> insert (k, v) (set al)"
  by (induction al) auto


section \<open>A server in its environment\<close>

locale node = mongo "Db (Env senv)" docs uniq
  for senv :: "('w, 'a) senv" and docs :: "'w \<Rightarrow> string \<Rightarrow> doc list" and uniq :: "'w \<Rightarrow> string \<Rightarrow> string list set" +
  assumes net: "net_ok docs uniq senv"
begin


lemma keeps_net:
  assumes "of_db docs uniq I"
  shows "keeps I (GetFeeQuote (Client senv))" "keeps I (GetTxState (Client senv) txid)" "keeps I (GrpcDial senv host)"
    "keeps (node_inv docs uniq I) (effect (Now (Runtime senv)))"
    "keeps (node_inv docs uniq I) (effect (RangeInts (Runtime senv) ints))"
    "keeps (node_inv docs uniq I) (effect (RangeKeys (Runtime senv) keys))"
  using net unfolding net_ok_def mapi_ok_def miner_ok_def runtime_ok_def
  by (auto intro!: keeps_of_db [OF assms] keeps_node_effect [OF assms])

lemma keeps_peer:
  assumes "of_db docs uniq I" "peer_ok docs uniq peer"
  shows "keeps I (PeerGetTxs peer ids)" "keeps I (PeerGetPartitionsHash peer a b)" "keeps I (PeerGetUnconfirmTxids peer)"
    "keeps I (PeerGetTxidsByPartitions peer pids)" "keeps (node_inv docs uniq I) (effect (\<lambda>w. ((), PeerNotifyTxs peer ids w)))"
  using assms(2) unfolding peer_ok_def
  by (auto intro!: keeps_of_db [OF assms(1)] keeps_node_effect [OF assms(1)])

lemma peer_source:
  assumes "peer_ok docs uniq peer"
  shows "source_ok docs uniq (NodeGetTxBytes peer)"
  using assms by (auto simp: source_ok_def NodeGetTxBytes_def ret_def peer_ok_def split: if_splits)

lemma local_source: "source_ok docs uniq (LocalGetTxBytes l)"
  by (simp add: source_ok_def LocalGetTxBytes_def of_res_def)

lemma keeps_range_peers:
  assumes "of_db docs uniq I" "\<And>ps. peers_ok docs uniq ps \<Longrightarrow> keeps (node_inv docs uniq I) (f ps)"
  shows "keeps (node_inv docs uniq I) (andThen (range_peers senv) f)"
proof (rule keeps_andThen_res)
  have rt: "runtime_ok docs uniq (Runtime senv)" using net by (simp add: net_ok_def)
  show "keeps (node_inv docs uniq I) (range_peers senv)"
    unfolding range_peers_def by (intro keeps_intros keeps_net assms)
  fix s ps s'
  assume "node_inv docs uniq I s" "range_peers senv s = (Ok ps, s')"
  then have "peers_ok docs uniq ps" using range_peers_res [OF rt] by (fastforce simp: node_inv_def peers_ok_def)
  then show "keeps (node_inv docs uniq I) (f ps)" by (rule assms(2))
qed

lemma keeps_NotifyTxs:
  assumes "of_db docs uniq I"
  shows "keeps (node_inv docs uniq I) (NotifyTxs senv ids)"
  unfolding NotifyTxs_def
  by (intro keeps_intros keeps_range_peers assms) (auto simp: peers_ok_def split: prod.split intro!: keeps_peer assms)

text \<open>Collections that \<open>SyncTxs\<close> and the hashes do not write.\<close>

lemma keeps_SyncTxs_holds:
  assumes "TBL_TX_POINT \<noteq> c" "TBL_RAW_TX_INFO \<noteq> c" "source_ok docs uniq src"
  shows "keeps (node_inv docs uniq (holds docs uniq c ds us)) (SyncTxs senv ids src)"
proof -
  let ?I = "holds docs uniq c ds us"
  note db = of_db_holds [of docs uniq c ds us]
  have search: "keeps (node_inv docs uniq ?I) (SyncTxs_search senv ids v)" for v
    by (induction ids arbitrary: v) (auto simp: Let_def intro!: keeps_intros keeps_net db)
  have src: "keeps ?I (src l)" for l
    by (rule keeps_of_db [OF db]) (metis assms(3) source_ok_def)
  have rec: "keeps (node_inv docs uniq ?I) (SyncTxs_record senv cache txs g need n)" for cache txs g need n
    by (induction txs arbitrary: g need n) (auto simp: Let_def intro!: keeps_intros keeps_net db assms(1,2))
  show ?thesis
    unfolding SyncTxs_def by (intro keeps_intros keeps_net keeps_NotifyTxs db search src rec assms refl)
qed

lemma keeps_ClearCacheAndSetHash:
  assumes "of_db docs uniq I" "\<And>pid. keeps I (ComputeAndSetPartitionHash senv pid)"
  shows "keeps (node_inv docs uniq I) (ClearCacheAndSetHash senv)"
  unfolding ClearCacheAndSetHash_def set_hashes_def by (intro keeps_intros keeps_net assms)

lemma keeps_ClearCacheAndSetHash_holds:
  assumes "TBL_PARTITION_INFO \<noteq> c"
  shows "keeps (node_inv docs uniq (holds docs uniq c ds us)) (ClearCacheAndSetHash senv)"
  by (rule keeps_ClearCacheAndSetHash [OF of_db_holds], unfold ComputeAndSetPartitionHash_def ComputePartitionHash_def Let_def)
     (intro keeps_intros assms)

end


text \<open>
  An invariant that fetching transactions, setting hashes, marking points and registering addresses
  keep is kept by every handler and job that is built from them.
\<close>

locale node_invariant = node senv docs uniq
  for senv :: "('w, 'a) senv" and docs :: "'w \<Rightarrow> string \<Rightarrow> doc list" and uniq :: "'w \<Rightarrow> string \<Rightarrow> string list set" +
  fixes I :: "'w \<Rightarrow> bool"
  assumes I_db: "of_db docs uniq I"
    and I_sync: "source_ok docs uniq src \<Longrightarrow> keeps (node_inv docs uniq I) (SyncTxs senv ids src)"
    and I_hash: "keeps (node_inv docs uniq I) (ClearCacheAndSetHash senv)"
    and I_spent: "keeps (node_inv docs uniq I) (world (SetSpent (Env senv) (Client senv) now))"
    and I_register: "keeps (node_inv docs uniq I) (world (SetAddrInfo (Env senv) now appid userid ui addr))"
begin

lemmas read_only = keeps_read_only [OF I_db]

lemma keeps_NotifiedTxs: "keeps (node_inv docs uniq I) (NotifiedTxs senv ids key)"
  unfolding NotifiedTxs_def
proof (rule keeps_andThen_res)
  fix s peers s'
  assume "node_inv docs uniq I s" "gets Peers s = (Ok peers, s')"
  then have "peers_ok docs uniq peers" by (auto simp: gets_def node_inv_def)
  then show "keeps (node_inv docs uniq I) (case map_of peers key of None \<Rightarrow> ret ()
      | Some peer \<Rightarrow> attempt (SyncTxs senv ids (NodeGetTxBytes peer)) (\<lambda>_. ret ()) (\<lambda>_. ret ()))"
    by (intro keeps_intros I_sync peer_source) (force simp: peers_ok_def dest!: map_of_SomeD)
qed (rule keeps_intros)

lemma keeps_SendRawTransaction: "keeps (node_inv docs uniq I) (SendRawTransaction senv raw)"
  unfolding SendRawTransaction_def
  by (intro keeps_intros I_sync local_source read_only refl)

lemma keeps_SyncUnconfirmTx: "keeps (node_inv docs uniq I) (SyncUnconfirmTx senv)"
  unfolding SyncUnconfirmTx_def
  by (intro keeps_range_peers [OF I_db] keeps_intros I_sync)
     (auto simp: peers_ok_def intro!: keeps_peer I_db peer_source)

lemma keeps_SyncPatitions: "keeps (node_inv docs uniq I) (SyncPatitions senv start stop)"
proof -
  have peer: "keeps (node_inv docs uniq I) (SyncPatitions_peer senv off peer)" if "peer_ok docs uniq peer" for off peer
    unfolding SyncPatitions_peer_def
    by (intro keeps_intros I_sync I_hash keeps_peer I_db peer_source that read_only)
  have round: "keeps (node_inv docs uniq I) (SyncPatitions_round senv off)" for off
    unfolding SyncPatitions_round_def
    by (intro keeps_range_peers [OF I_db] keeps_andThen I_hash keeps_for_each)
       (auto simp: peers_ok_def intro!: peer)
  have "keeps (node_inv docs uniq I) (SyncPatitions_loop n senv off stop)" for n off
    by (induction n arbitrary: off) (auto intro!: keeps_intros round)
  then show ?thesis unfolding SyncPatitions_def .
qed

lemma keeps_SyncState: "keeps (node_inv docs uniq I) (SyncState senv syncAll)"
  unfolding SyncState_def
  by (intro keeps_intros keeps_net I_db keeps_SyncUnconfirmTx keeps_SyncPatitions read_only)

lemma ConnectPeer_loop_res:
  "ConnectPeer_loop senv old cfgs peers s = (r, s') \<Longrightarrow> peers_ok docs uniq old \<Longrightarrow> peers_ok docs uniq peers \<Longrightarrow>
    node_inv docs uniq I s \<Longrightarrow> node_inv docs uniq I s' \<and> (case r of Ok ps \<Rightarrow> peers_ok docs uniq ps | _ \<Rightarrow> True)"
proof (induction cfgs arbitrary: peers s)
  case (Cons cfg cfgs)
  have upd: "peers_ok docs uniq (AList.update k p peers)" if "peer_ok docs uniq p" for k p
    using Cons.prems(3) that set_alist_update [of k p peers] unfolding peers_ok_def by (auto dest!: subsetD)
  show ?case
  proof (cases "map_of old (Pubkey cfg)")
    case (Some p)
    then have "peer_ok docs uniq p" using Cons.prems(2) by (force simp: peers_ok_def dest!: map_of_SomeD)
    then show ?thesis using Cons.IH [OF _ Cons.prems(2) upd Cons.prems(4)] Cons.prems(1) Some by simp
  next
    case None
    have dial: "keeps (node_inv docs uniq I) (world (GrpcDial senv (Host cfg)))" by (intro keeps_intros keeps_net I_db)
    have "attempt (world (GrpcDial senv (Host cfg))) (\<lambda>_. ConnectPeer_loop senv old cfgs peers)
        (\<lambda>c. ConnectPeer_loop senv old cfgs (AList.update (Pubkey cfg) c peers)) s = (r, s')"
      using Cons.prems(1) None by simp
    then show ?thesis
    proof (cases rule: attempt_eqE)
      case (Ok c s1)
      then have "peer_ok docs uniq c" using net by (fastforce simp: world_eq net_ok_def)
      then show ?thesis using Cons.IH [OF Ok(2) Cons.prems(2) upd keepsD [OF dial Ok(1) Cons.prems(4)]] by simp
    next
      case (Fail e s1)
      then show ?thesis using Cons.IH [OF Fail(2) Cons.prems(2,3) keepsD [OF dial Fail(1) Cons.prems(4)]] by simp
    next
      case (Stop x)
      then show ?thesis using keepsD [OF dial Stop(1) Cons.prems(4)] by simp
    qed
  qed
qed (auto simp: ret_def)

lemma keeps_ConnectPeer: "keeps (node_inv docs uniq I) (ConnectPeer senv cfgs)"
proof (rule keepsI)
  fix s r s'
  assume s: "node_inv docs uniq I s" and "ConnectPeer senv cfgs s = (r, s')"
  then have run: "andThen (ConnectPeer_loop senv (Peers s) cfgs []) (\<lambda>peers.
      andThen (modify (\<lambda>s. s\<lparr>Peers := peers\<rparr>)) (\<lambda>_.
        if length peers = length cfgs then ret () else fail (Error ''still have connect failed''))) s = (r, s')"
    by (simp add: ConnectPeer_def andThen_def gets_def)
  have old: "peers_ok docs uniq (Peers s)" "peers_ok docs uniq []" using s by (simp_all add: node_inv_def peers_ok_def)
  from run show "node_inv docs uniq I s'"
  proof (cases rule: andThen_eqE)
    case (Ok ps s1)
    note res = ConnectPeer_loop_res [OF Ok(1) old s]
    have "s' = s1\<lparr>Peers := ps\<rparr>" using Ok(2) by (auto simp: andThen_def modify_def ret_def fail_def split: if_splits)
    then show ?thesis using res by (simp add: node_inv_def)
  qed (use ConnectPeer_loop_res [OF _ old s] in blast)+
qed

end


section \<open>The invariant of the service\<close>

definition service_inv ::
  "('w, 'a) env \<Rightarrow> MsgTx set \<Rightarrow> ('w \<Rightarrow> string \<Rightarrow> doc list) \<Rightarrow> ('w \<Rightarrow> string \<Rightarrow> string list set) \<Rightarrow> 'w \<Rightarrow> bool" where
  "service_inv env S docs uniq w \<longleftrightarrow>
     store_inv env S docs uniq w \<and> wf_addrs (docs w) (uniq w) \<and> wf_parts (docs w) (uniq w)"

lemma of_store:
  assumes "\<forall>c \<in> {TBL_TX_POINT, TBL_RAW_TX_INFO}. docs w' c = docs w c \<and> uniq w' c = uniq w c"
    and "store_inv env S docs uniq w"
  shows "store_inv env S docs uniq w'"
  using assms by (simp add: store_inv_def wf_store_def ledger_inv_def wf_db_def raw_ok_def points_of_def)

lemma of_raw:
  assumes "\<forall>c \<in> {TBL_RAW_TX_INFO}. docs w' c = docs w c \<and> uniq w' c = uniq w c" and "raw_ok lib S (docs w)"
  shows "raw_ok lib S (docs w')"
  using assms by (simp add: raw_ok_def)

lemma of_addrs:
  assumes "\<forall>c \<in> {TBL_ADDR_INFO}. docs w' c = docs w c \<and> uniq w' c = uniq w c" and "wf_addrs (docs w) (uniq w)"
  shows "wf_addrs (docs w') (uniq w')"
  using assms by (simp add: wf_addrs_def addrs_of_def)

lemma of_parts:
  assumes "\<forall>c \<in> {TBL_PARTITION_INFO}. docs w' c = docs w c \<and> uniq w' c = uniq w c" and "wf_parts (docs w) (uniq w)"
  shows "wf_parts (docs w') (uniq w')"
  using assms by (simp add: wf_parts_def parts_of_def)

context mongo
begin

text \<open>A partial update of encoded documents, whether it succeeds or not.\<close>

lemma UpdateAll_encoded:
  assumes run: "UpdateAll drv c q u w = (r, w')" and P: "\<forall>d \<in> set (docs w c). P d"
    and upd: "\<And>d. P d \<Longrightarrow> P (set_fields u d) \<and> f (set_fields u d) = f d"
  shows "(\<forall>d \<in> set (docs w' c). P d) \<and> map f (docs w' c) = map f (docs w c)"
proof -
  have "list_all2 (\<lambda>d d'. d' = d \<or> d' = set_fields u d) (docs w c) (docs w' c)"
    using UpdateAll_res [OF run]
    by (cases r) (auto simp: list_all2_conv_all_nth)
  then show ?thesis using P by (induction rule: list_all2_induct) (auto simp: upd)
qed

lemma keeps_wf_parts: "keeps (\<lambda>w. wf_parts (docs w) (uniq w)) (UpdatePartitionInfo drv pid hash)"
proof (rule keepsI)
  fix w r w'
  assume wf: "wf_parts (docs w) (uniq w)" and run: "UpdatePartitionInfo drv pid hash w = (r, w')"
  note run = run [unfolded UpdatePartitionInfo_def]
  have "(\<forall>d \<in> set (docs w' TBL_PARTITION_INFO). d = doc_of_PartitionInfo (PartitionInfo_of_doc d)) \<and>
      map (Part_Id \<circ> PartitionInfo_of_doc) (docs w' TBL_PARTITION_INFO) =
      map (Part_Id \<circ> PartitionInfo_of_doc) (docs w TBL_PARTITION_INFO)"
  proof (rule UpdateAll_encoded [OF run])
    fix d
    assume d: "d = doc_of_PartitionInfo (PartitionInfo_of_doc d)"
    have "set_fields [(HASH, BStr hash)] d = doc_of_PartitionInfo ((PartitionInfo_of_doc d)\<lparr>Part_Hash := hash\<rparr>)"
      by (subst d) (auto simp: doc_of_PartitionInfo_def set_fields_def fun_eq_iff)
    then show "set_fields [(HASH, BStr hash)] d = doc_of_PartitionInfo (PartitionInfo_of_doc (set_fields [(HASH, BStr hash)] d)) \<and>
        (Part_Id \<circ> PartitionInfo_of_doc) (set_fields [(HASH, BStr hash)] d) = (Part_Id \<circ> PartitionInfo_of_doc) d"
      by simp
  qed (use wf in \<open>simp add: wf_parts_def\<close>)
  then show "wf_parts (docs w') (uniq w')"
    using wf UpdateAll_res [OF run] by (simp add: wf_parts_def parts_of_def)
qed

lemma keeps_wf_addrs: "keeps (\<lambda>w. wf_addrs (docs w) (uniq w)) (AddOrUpdateAddrInfo drv a)"
proof (rule keepsI)
  fix w r w'
  let ?u = "[(APPID, BStr (Info_Appid a)), (USERID, BInt (Info_UserID a)), (USER_INDEX, BInt (Info_UserIndex a)),
    (TIMESTAMP, BInt (Info_AddrTimestamp a))]"
  assume wf: "wf_addrs (docs w) (uniq w)" and run: "AddOrUpdateAddrInfo drv a w = (r, w')"
  from run [unfolded AddOrUpdateAddrInfo_def] show "wf_addrs (docs w') (uniq w')"
  proof (cases rule: attempt_eqE)
    case (Ok x w1)
    then have "AddOrUpdateAddrInfo drv a w = (Ok (), w')" by (simp add: AddOrUpdateAddrInfo_def ret_def)
    then show ?thesis using AddOrUpdateAddrInfo_res [OF wf] by blast
  next
    case (Fail e w1)
    have w1: "wf_addrs (docs w1) (uniq w1)" using Insert_res [OF Fail(1)] wf by simp
    show ?thesis
    proof (cases "is_duplicate e")
      case True
      then have up: "UpdateAll drv TBL_ADDR_INFO [QEq ADDR (BStr (Info_Addr a))] ?u w1 = (r, w')" using Fail(2) by simp
      have "(\<forall>d \<in> set (docs w' TBL_ADDR_INFO). d = doc_of_AddrInfo (AddrInfo_of_doc d)) \<and>
          map (Info_Addr \<circ> AddrInfo_of_doc) (docs w' TBL_ADDR_INFO) = map (Info_Addr \<circ> AddrInfo_of_doc) (docs w1 TBL_ADDR_INFO)"
      proof (rule UpdateAll_encoded [OF up])
        fix d
        assume d: "d = doc_of_AddrInfo (AddrInfo_of_doc d)"
        have "set_fields ?u d = doc_of_AddrInfo (a\<lparr>Info_Addr := Info_Addr (AddrInfo_of_doc d)\<rparr>)"
          by (subst d) (auto simp: doc_of_AddrInfo_def set_fields_def fun_eq_iff)
        then show "set_fields ?u d = doc_of_AddrInfo (AddrInfo_of_doc (set_fields ?u d)) \<and>
            (Info_Addr \<circ> AddrInfo_of_doc) (set_fields ?u d) = (Info_Addr \<circ> AddrInfo_of_doc) d" by simp
      qed (use w1 in \<open>simp add: wf_addrs_def\<close>)
      then show ?thesis using w1 UpdateAll_res [OF up] by (simp add: wf_addrs_def addrs_of_def)
    qed (use Fail(2) w1 in \<open>simp add: fail_def\<close>)
  qed (use Insert_res in fastforce)
qed

end


context node
begin

abbreviation frames :: "string \<Rightarrow> ('w server, 'b) io \<Rightarrow> bool" where
  "frames c m \<equiv> (\<forall>ds us. keeps (node_inv docs uniq (holds docs uniq c ds us)) m)"

lemma kept_addrs: "frames TBL_ADDR_INFO m \<Longrightarrow> keeps (node_inv docs uniq (\<lambda>w. wf_addrs (docs w) (uniq w))) m"
  by (rule keeps_collections [where C = "{TBL_ADDR_INFO}"]; (erule (1) of_addrs | force))

lemma kept_parts: "frames TBL_PARTITION_INFO m \<Longrightarrow> keeps (node_inv docs uniq (\<lambda>w. wf_parts (docs w) (uniq w))) m"
  by (rule keeps_collections [where C = "{TBL_PARTITION_INFO}"]; (erule (1) of_parts | force))

lemma hash_parts: "keeps (node_inv docs uniq (\<lambda>w. wf_parts (docs w) (uniq w))) (ClearCacheAndSetHash senv)"
proof -
  have add: "keeps (\<lambda>w. wf_parts (docs w) (uniq w)) (AddPartitionInfo (Db (Env senv)) pid h)" for pid h
    by (rule keepsI) (use AddPartitionInfo_res in blast)
  have db: "of_db docs uniq (\<lambda>w. wf_parts (docs w) (uniq w))" by (simp add: of_db_def)
  have "keeps (\<lambda>w. wf_parts (docs w) (uniq w)) (ComputePartitionHash senv pid)" for pid
    by (rule keeps_world_collections [where C = "{TBL_PARTITION_INFO}" and docs = docs and uniq = uniq])
       (auto simp: ComputePartitionHash_def Let_def intro!: keeps_intros elim: of_parts [rotated])
  then show ?thesis
    by (intro keeps_ClearCacheAndSetHash [OF db], unfold ComputeAndSetPartitionHash_def)
       (intro keeps_intros add keeps_wf_parts)
qed

end


locale chain_node = node senv docs uniq
  for senv :: "('w, 'a) senv" and docs :: "'w \<Rightarrow> string \<Rightarrow> doc list" and uniq :: "'w \<Rightarrow> string \<Rightarrow> string list set" +
  fixes S :: "MsgTx set"
  assumes chain: "chain_ok senv S"
begin

lemma kept_store:
  "frames TBL_TX_POINT m \<Longrightarrow> frames TBL_RAW_TX_INFO m \<Longrightarrow> keeps (node_inv docs uniq (store_inv (Env senv) S docs uniq)) m"
  by (rule keeps_collections [where C = "{TBL_TX_POINT, TBL_RAW_TX_INFO}"]; (erule (1) of_store | force))

lemma kept_raw:
  "frames TBL_RAW_TX_INFO m \<Longrightarrow> keeps (node_inv docs uniq (\<lambda>w. raw_ok (TxL (Env senv)) S (docs w))) m"
  by (rule keeps_collections [where C = "{TBL_RAW_TX_INFO}"]; (erule (1) of_raw | force))

lemmas kept = kept_store kept_raw kept_addrs kept_parts

lemma sync_store:
  assumes "source_ok docs uniq src"
  shows "keeps (node_inv docs uniq (store_inv (Env senv) S docs uniq)) (SyncTxs senv ids src)"
proof (rule keepsI)
  fix s r s'
  assume s: "node_inv docs uniq (store_inv (Env senv) S docs uniq) s" and run: "SyncTxs senv ids src s = (r, s')"
  have "notify_ok docs uniq (Peers s)" using s by (force simp: node_inv_def peers_ok_def peer_ok_def notify_ok_def)
  moreover have "runtime_ok docs uniq (Runtime senv)" "miner_ok docs uniq (Client senv)"
    using net by (simp_all add: net_ok_def)
  ultimately show "node_inv docs uniq (store_inv (Env senv) S docs uniq) s'"
    using SyncTxs_keeps [OF refl chain _ _ assms _ _ run] s by (auto simp: node_inv_def sync_inv_def)
qed

lemma sync_service:
  assumes "source_ok docs uniq src"
  shows "keeps (node_inv docs uniq (service_inv (Env senv) S docs uniq)) (SyncTxs senv ids src)"
  unfolding service_inv_def
  by (intro node_inv_conj sync_store kept allI keeps_SyncTxs_holds assms) simp_all

lemma hash_service: "keeps (node_inv docs uniq (service_inv (Env senv) S docs uniq)) (ClearCacheAndSetHash senv)"
  unfolding service_inv_def
  by (intro node_inv_conj hash_parts; intro kept allI keeps_ClearCacheAndSetHash_holds; simp)

lemma spent_service:
  "keeps (node_inv docs uniq (service_inv (Env senv) S docs uniq)) (world (SetSpent (Env senv) (Client senv) now))"
proof -
  let ?m = "world (SetSpent (Env senv) (Client senv) now)"
  have api: "mapi_ok docs uniq (Client senv)" using net by (simp add: net_ok_def)
  have frame: "frames c ?m" if "TBL_TX_POINT \<noteq> c" for c
    by (intro allI keeps_intros that api refl)
  have "keeps (ledger_inv (Env senv) S docs uniq) (SetSpent (Env senv) (Client senv) now)"
    by (rule keepsI) (use SetSpent_keeps [OF _ refl api] in blast)
  then have "keeps (node_inv docs uniq (\<lambda>w. ledger_inv (Env senv) S docs uniq w \<and> raw_ok (TxL (Env senv)) S (docs w) \<and>
      wf_addrs (docs w) (uniq w) \<and> wf_parts (docs w) (uniq w))) ?m"
    by (intro node_inv_conj kept frame keeps_node_world) simp_all
  then show ?thesis
    unfolding service_inv_def store_inv_def wf_store_def ledger_inv_def by (simp add: conj_ac)
qed

lemma register_service:
  "keeps (node_inv docs uniq (service_inv (Env senv) S docs uniq)) (world (SetAddrInfo (Env senv) now appid userid ui addr))"
proof -
  let ?m = "world (SetAddrInfo (Env senv) now appid userid ui addr)"
  have frame: "frames c ?m" if "TBL_ADDR_INFO \<noteq> c" for c by (intro allI keeps_intros that refl)
  have "keeps (\<lambda>w. wf_addrs (docs w) (uniq w)) (SetAddrInfo (Env senv) now appid userid ui addr)"
    unfolding SetAddrInfo_def by (rule keeps_wf_addrs)
  then show ?thesis
    unfolding service_inv_def by (intro node_inv_conj kept(1,4) frame keeps_node_world) simp_all
qed

end

sublocale chain_node \<subseteq> service: node_invariant senv docs uniq "service_inv (Env senv) S docs uniq"
  by unfold_locales
     (simp add: of_db_def service_inv_def store_inv_def wf_store_def ledger_inv_def, rule sync_service, assumption,
      rule hash_service, rule spent_service, rule register_service)


section \<open>Startup\<close>

text \<open>The indexes \<open>main\<close> creates before it starts the server, in its order; an error ends the program.\<close>

definition CreateIndexes :: "'w mgo \<Rightarrow> ('w, unit) io" where
  "CreateIndexes drv =
     andThen (TxInfo_CreateIndex drv) (\<lambda>_.
     andThen (TxPoint_CreateIndex drv) (\<lambda>_.
     andThen (PartitionInfo_CreateIndex drv) (\<lambda>_.
       AddrInfo_CreateIndex drv)))"

text \<open>The unique ones among them.\<close>

definition indexes :: "string \<Rightarrow> string list set" where
  "indexes = (\<lambda>c. {})(TBL_RAW_TX_INFO := {[TXID, INDEX]}, TBL_TX_POINT := {[TXID, INDEX, TYPE_FIELD]},
     TBL_PARTITION_INFO := {[ID]}, TBL_ADDR_INFO := {[ADDR]})"

definition new_server :: "'w \<Rightarrow> 'w server" where
  "new_server w = \<lparr>World = w, Peers = [], NeedRecompute = []\<rparr>"

context mongo
begin

lemma ensure_indexes:
  "for_each (\<lambda>(keys, unique). mgo_ensure_index drv c keys unique) l w = (r, w') \<Longrightarrow>
    docs w' = docs w \<and> (\<forall>c'. uniq w c' \<subseteq> uniq w' c' \<and>
      uniq w' c' \<subseteq> uniq w c' \<union> (if c' = c then set (map fst (filter snd l)) else {})) \<and>
    (case r of Ok u \<Rightarrow> set (map fst (filter snd l)) \<subseteq> uniq w' c | _ \<Rightarrow> True)"
proof (induction l arbitrary: w)
  case (Cons i l)
  obtain ks un where i: "i = (ks, un)" by fastforce
  have "andThen (mgo_ensure_index drv c ks un) (\<lambda>_. for_each (\<lambda>(keys, unique). mgo_ensure_index drv c keys unique) l) w = (r, w')"
    using Cons.prems by (simp add: i)
  then show ?case
  proof (cases rule: andThen_eqE)
    case (Ok u w1)
    show ?thesis using Cons.IH [OF Ok(2)] ensure_index [OF Ok(1)] by (cases r) (auto simp: i split: if_splits)
  qed (use ensure_index in \<open>fastforce simp: i\<close>)+
qed (auto simp: ret_def)

lemmas index_defs =
  TxInfo_CreateIndex_def TxPoint_CreateIndex_def PartitionInfo_CreateIndex_def AddrInfo_CreateIndex_def

lemma CreateIndex_res:
  assumes "CreateIndex drv c l w = (r, w')" "set (map fst (filter snd l)) = indexes c"
  shows "docs w' = docs w \<and> (\<forall>c'. uniq w c' \<subseteq> uniq w' c' \<and> uniq w' c' \<subseteq> uniq w c' \<union> indexes c') \<and>
    (case r of Ok u \<Rightarrow> indexes c \<subseteq> uniq w' c | _ \<Rightarrow> True)"
  using assms(1) unfolding CreateIndex_def
proof (cases rule: Exec_res)
  case (session w1)
  from ensure_indexes [OF session(2)] session(1) show ?thesis
    unfolding assms(2) same_def by (auto split: if_splits)
qed (auto simp: same_def)

text \<open>Starting, successfully or not, only adds indexes, and a successful start has added all.\<close>

lemma CreateIndexes_res:
  assumes "CreateIndexes drv w = (r, w')"
  shows "docs w' = docs w \<and> (\<forall>c. uniq w c \<subseteq> uniq w' c \<and> uniq w' c \<subseteq> uniq w c \<union> indexes c) \<and>
    (case r of Ok u \<Rightarrow> (\<forall>c. indexes c \<subseteq> uniq w' c) | _ \<Rightarrow> True)"
proof -
  let ?G = "\<lambda>v. docs v = docs w \<and> (\<forall>c. uniq w c \<subseteq> uniq v c \<and> uniq v c \<subseteq> uniq w c \<union> indexes c)"
  have one: "keeps ?G (CreateIndex drv c l)" if "set (map fst (filter snd l)) = indexes c" for c l
  proof (rule keepsI)
    fix v r' v'
    assume v: "?G v" and "CreateIndex drv c l v = (r', v')"
    from CreateIndex_res [OF this(2) that] have "docs v' = docs v"
      "\<And>c'. uniq v c' \<subseteq> uniq v' c' \<and> uniq v' c' \<subseteq> uniq v c' \<union> indexes c'" by simp_all
    with v show "?G v'" by fastforce
  qed
  have "keeps ?G (CreateIndexes drv)"
    unfolding CreateIndexes_def index_defs by (intro keeps_intros one) (simp_all add: indexes_def)
  from keepsD [OF this assms] have "?G w'" by simp
  moreover have "\<forall>c. indexes c \<subseteq> uniq w' c" if ok: "r = Ok ()"
  proof -
    obtain w1 w2 w3 where w: "TxInfo_CreateIndex drv w = (Ok (), w1)" "TxPoint_CreateIndex drv w1 = (Ok (), w2)"
      "PartitionInfo_CreateIndex drv w2 = (Ok (), w3)" "AddrInfo_CreateIndex drv w3 = (Ok (), w')"
      using assms unfolding ok by (auto simp: CreateIndexes_def andThen_eq_Ok)
    note made = w [unfolded index_defs, THEN CreateIndex_res]
    have up: "uniq w1 c \<subseteq> uniq w2 c" "uniq w2 c \<subseteq> uniq w3 c" "uniq w3 c \<subseteq> uniq w' c" for c
      using made by (simp_all add: indexes_def)
    have "indexes TBL_RAW_TX_INFO \<subseteq> uniq w1 TBL_RAW_TX_INFO" "indexes TBL_TX_POINT \<subseteq> uniq w2 TBL_TX_POINT"
      "indexes TBL_PARTITION_INFO \<subseteq> uniq w3 TBL_PARTITION_INFO" "indexes TBL_ADDR_INFO \<subseteq> uniq w' TBL_ADDR_INFO"
      using made by (simp_all add: indexes_def)
    then have "indexes TBL_RAW_TX_INFO \<subseteq> uniq w' TBL_RAW_TX_INFO" "indexes TBL_TX_POINT \<subseteq> uniq w' TBL_TX_POINT"
      "indexes TBL_PARTITION_INFO \<subseteq> uniq w' TBL_PARTITION_INFO" "indexes TBL_ADDR_INFO \<subseteq> uniq w' TBL_ADDR_INFO"
      by (meson up order_trans)+
    then show ?thesis by (simp add: indexes_def)
  qed
  ultimately show ?thesis by (cases r) simp_all
qed

lemma fresh_service:
  assumes "docs w = (\<lambda>c. [])" "uniq w = indexes"
  shows "service_inv env S docs uniq w"
  using assms
  by (simp add: service_inv_def store_inv_def wf_store_def ledger_inv_def wf_db_def wf_addrs_def wf_parts_def raw_ok_def
      points_of_def addrs_of_def parts_of_def good_Nil marks_ok_def indexes_def)

end


text \<open>What clients and peers ask for keeps the invariant, too.\<close>

context node_invariant
begin

lemma keeps_pay:
  "keeps (node_inv docs uniq I) (world (SendBadgeToAddress (Env senv) appid userid ui code change pays burn))"
proof -
  have "keeps (holds docs uniq c ds us) (SendBadgeToAddress (Env senv) appid userid ui code change pays burn)" for c ds us
    unfolding SendBadgeToAddress_def Let_def by (intro keeps_intros refl)
  then show ?thesis by (intro keeps_node_world read_only)
qed

lemmas keeps_answers = keeps_queries [OF refl, THEN read_only, THEN keeps_node_world]

end


text \<open>What the invariant says of balances, supplies and records.\<close>

lemma service_inv_means:
  assumes "service_inv (Env senv) S docs uniq w" "chain_ok senv S"
  shows "0 \<le> balance (points_of (docs w)) a c \<and>
    balance (points_of (docs w)) a c \<le> total_supply (points_of (docs w)) c \<and>
    total_supply (points_of (docs w)) c \<le> MAX_CREATE_BADGE_VALUE \<and>
    marks_ok (points_of (docs w)) \<and> raw_ok (TxL (Env senv)) S (docs w) \<and>
    distinct (map Info_Addr (addrs_of (docs w))) \<and> distinct (map Part_Id (parts_of (docs w)))"
proof -
  have g: "good (Env senv) S (points_of (docs w))"
    using assms(1) by (simp add: service_inv_def store_inv_def ledger_inv_def)
  have nd: "no_double_spend S" using assms(2) by (simp add: chain_ok_def)
  have "0 \<le> balance (points_of (docs w)) a c \<and> balance (points_of (docs w)) a c \<le> total_supply (points_of (docs w)) c"
    using good_balance [OF g nd] by blast
  moreover have "total_supply (points_of (docs w)) c \<le> MAX_CREATE_BADGE_VALUE"
    using good_supply [OF g] unfolding MAX_CREATE_BADGE_VALUE_def by blast
  ultimately show ?thesis
    using assms(1) by (simp add: service_inv_def store_inv_def ledger_inv_def wf_store_def wf_addrs_def wf_parts_def)
qed


section \<open>A server in memory\<close>

definition mem_empty :: mem where
  "mem_empty = \<lparr>mem_docs = (\<lambda>c. []), mem_uniq = (\<lambda>c. [])\<rparr>"

definition mem_started :: mem where
  "mem_started = snd (CreateIndexes mem_mgo mem_empty)"

lemma mem_started: "CreateIndexes mem_mgo mem_empty = (Ok (), mem_started)"
proof -
  have "succeeds (CreateIndexes mem_mgo mem_empty)" by code_simp
  then show ?thesis unfolding mem_started_def by (rule succeedsE) simp
qed

lemma sync_senv_net: "net_ok mem_docs (\<lambda>w c. set (mem_uniq w c)) sync_senv"
proof -
  have "mapi_ok mem_docs (\<lambda>w c. set (mem_uniq w c)) (Client sync_senv)"
    by (simp add: mapi_ok_def sync_senv_def ack_client_def GetFeeQuote_def go_simps attempt_def demo_client_def)
  then show ?thesis
    using sync_senv_ok(3,4) by (simp add: net_ok_def sync_senv_def demo_senv_def fail_def)
qed

interpretation demo_node: chain_node sync_senv mem_docs "\<lambda>w c. set (mem_uniq w c)" "{NewMsgTx 2}"
  by (simp add: chain_node_def chain_node_axioms_def node_def node_axioms_def sync_senv_ok sync_senv_net)

end
