(* ===== verification/Http_Api.thy ===== *)
theory Http_Api
  imports Server_History
begin

text \<open>
  The HTTP interface: \<open>src/interceptor/http_interceptor.go\<close> (decoding and checking of requests,
  encoding of responses), \<open>src/controller/http_controller.go\<close> (requests and handlers) and the
  routes of \<open>src/main.go\<close>. Pointer fields of a request are required: they are options here, and
  dereferencing \<open>None\<close> panics. JSON (package \<open>json\<close>) is a parameter.
\<close>

section \<open>The interceptor\<close>

text \<open>What \<open>reflect\<close> shows of a value, as far as \<open>DoCheckNilRecursion\<close> looks at it.\<close>

datatype rvalue = RPtr "rvalue option" | RStruct "rvalue list" | RSlice "rvalue list" | RBasic

definition missing_fields :: goerr where
  "missing_fields = NewCodeError ERR_PARAMETERS_CODE ''required fields are missing''"

fun DoCheckNilRecursion :: "rvalue \<Rightarrow> unit res" and check_elements :: "rvalue list \<Rightarrow> unit res" where
  "DoCheckNilRecursion (RPtr None) = Fail missing_fields"
| "DoCheckNilRecursion (RPtr (Some v)) =
     (case DoCheckNilRecursion v of Fail e \<Rightarrow> Fail missing_fields | r \<Rightarrow> r)"
| "DoCheckNilRecursion (RStruct fs) = check_elements fs"
| "DoCheckNilRecursion (RSlice elements) = check_elements elements"
| "DoCheckNilRecursion RBasic = Ok ()"
| "check_elements [] = Ok ()"
| "check_elements (v # vs) =
     (case DoCheckNilRecursion v of
        Fail e \<Rightarrow> Fail missing_fields
      | Stop p \<Rightarrow> Stop p
      | Ok u \<Rightarrow> check_elements vs)"

definition CheckNil :: "rvalue \<Rightarrow> unit res" where
  "CheckNil v = DoCheckNilRecursion v"

datatype http_data =
    DataNil
  | DataInventory TxInventory
  | DataTxPoints "TxPoint list"
  | DataBalance int
  | DataInventorys "AddrInventory list"
  | DataPayment SendBadgeToAddressRsp

record HttpJsonResponse =
  Http_Code :: int
  Http_Msg :: string
  Http_Data :: http_data

type_synonym marshal = "HttpJsonResponse \<Rightarrow> string res"

definition NewHttpJsonResponse :: "marshal \<Rightarrow> int \<Rightarrow> string \<Rightarrow> http_data \<Rightarrow> ('s, string) io" where
  "NewHttpJsonResponse marshal code msg d =
     attempt (of_res (marshal \<lparr>Http_Code = code, Http_Msg = msg, Http_Data = d\<rparr>)) (\<lambda>err. ret (err_str err)) ret"

definition NewOkHttpJsonResponse :: "marshal \<Rightarrow> http_data \<Rightarrow> ('s, string) io" where
  "NewOkHttpJsonResponse marshal d = NewHttpJsonResponse marshal HTTP_OK_RESPONSE_CODE [] d"

definition NewErrHttpJsonResponse :: "marshal \<Rightarrow> int \<Rightarrow> string \<Rightarrow> ('s, string) io" where
  "NewErrHttpJsonResponse marshal code msg = NewHttpJsonResponse marshal code msg DataNil"

text \<open>
  \<open>Aspect\<close>: \<open>body\<close> is what reading the body gives, \<open>newBody\<close> the value of \<open>NewHttpReqBody\<close>, \<open>unmarshal\<close>
  the decoder that fills it in. The result is what is written to the client.
\<close>

definition Aspect ::
  "marshal \<Rightarrow> ('r \<Rightarrow> ('s, http_data) io) \<Rightarrow> 'r \<Rightarrow> ('r \<Rightarrow> rvalue) \<Rightarrow> (string \<Rightarrow> 'r \<Rightarrow> 'r res) \<Rightarrow> string res
     \<Rightarrow> ('s, string) io" where
  "Aspect marshal handleFunc newBody reflect unmarshal body =
     attempt (of_res body)
       (\<lambda>err. NewErrHttpJsonResponse marshal HTTP_READ_BODY_ERROR_CODE (err_str err)) (\<lambda>bodyBytes.
     attempt (of_res (unmarshal bodyBytes newBody))
       (\<lambda>err. NewErrHttpJsonResponse marshal HTTP_WRONG_FORMAT_ERROR_CODE (err_str err)) (\<lambda>reqBody.
     attempt (of_res (CheckNil (reflect reqBody)))
       (\<lambda>err. NewErrHttpJsonResponse marshal HTTP_WRONG_FORMAT_ERROR_CODE (err_str err)) (\<lambda>_.
     attempt (handleFunc reqBody)
       (\<lambda>err. case err of
          Error s \<Rightarrow> NewErrHttpJsonResponse marshal HTTP_SERVICE_ERROR_CODE s
        | CodeError code s \<Rightarrow> NewErrHttpJsonResponse marshal code s)
       (\<lambda>result. NewOkHttpJsonResponse marshal result))))"


section \<open>Requests\<close>

record SendRawTransactionReq =
  Srt_RawTx :: string

record GetTransactionInventoryReq =
  Gti_Txid :: string

record GetAddrUtxosReq =
  Gau_Addr :: "string option"
  Gau_BadgeCode :: "string option"
  Gau_Offset :: int
  Gau_Limit :: int

record GetAddrBalanceReq =
  Gab_Addr :: "string option"
  Gab_BadgeCode :: "string option"

record GetAddrInventorysReq =
  Gai_Addr :: "string option"
  Gai_BadgeCode :: "string option"
  Gai_Offset :: int
  Gai_Limit :: int

record SetAddrInfoReq =
  Sai_Appid :: "string option"
  Sai_UserID :: "int option"
  Sai_UserIndex :: "int option"
  Sai_Addr :: "string option"

record GetUserUtxosReq =
  Guu_Appid :: "string option"
  Guu_UserID :: "int option"
  Guu_UserIndex :: "int option"
  Guu_BadgeCode :: "string option"
  Guu_Offset :: int
  Guu_Limit :: int

record GetUserBalanceReq =
  Gub_Appid :: "string option"
  Gub_UserID :: "int option"
  Gub_UserIndex :: "int option"
  Gub_BadgeCode :: "string option"

record GetUserInventorysReq =
  Gui_Appid :: "string option"
  Gui_UserID :: "int option"
  Gui_UserIndex :: "int option"
  Gui_BadgeCode :: "string option"
  Gui_Offset :: int
  Gui_Limit :: int

record SendBadgeToAddressReq =
  Sba_Appid :: "string option"
  Sba_UserID :: "int option"
  Sba_UserIndex :: "int option"
  Sba_BadgeCode :: "string option"
  Sba_ChangeAddr :: "string option"
  Sba_AddrAmounts :: "AddrAmount option list"
  Sba_Amount2Burn :: int

text \<open>The values of \<open>NewHttpReqBody\<close>.\<close>

definition new_SendRawTransactionReq :: SendRawTransactionReq where
  "new_SendRawTransactionReq = \<lparr>Srt_RawTx = []\<rparr>"

definition new_GetTransactionInventoryReq :: GetTransactionInventoryReq where
  "new_GetTransactionInventoryReq = \<lparr>Gti_Txid = []\<rparr>"

definition new_GetAddrUtxosReq :: GetAddrUtxosReq where
  "new_GetAddrUtxosReq = \<lparr>Gau_Addr = None, Gau_BadgeCode = None, Gau_Offset = 0, Gau_Limit = 10\<rparr>"

definition new_GetAddrBalanceReq :: GetAddrBalanceReq where
  "new_GetAddrBalanceReq = \<lparr>Gab_Addr = None, Gab_BadgeCode = None\<rparr>"

definition new_GetAddrInventorysReq :: GetAddrInventorysReq where
  "new_GetAddrInventorysReq = \<lparr>Gai_Addr = None, Gai_BadgeCode = None, Gai_Offset = 0, Gai_Limit = 10\<rparr>"

definition new_SetAddrInfoReq :: SetAddrInfoReq where
  "new_SetAddrInfoReq = \<lparr>Sai_Appid = None, Sai_UserID = None, Sai_UserIndex = None, Sai_Addr = None\<rparr>"

definition new_GetUserUtxosReq :: GetUserUtxosReq where
  "new_GetUserUtxosReq = \<lparr>Guu_Appid = None, Guu_UserID = None, Guu_UserIndex = None, Guu_BadgeCode = None,
     Guu_Offset = 0, Guu_Limit = 10\<rparr>"

definition new_GetUserBalanceReq :: GetUserBalanceReq where
  "new_GetUserBalanceReq = \<lparr>Gub_Appid = None, Gub_UserID = None, Gub_UserIndex = None, Gub_BadgeCode = None\<rparr>"

definition new_GetUserInventorysReq :: GetUserInventorysReq where
  "new_GetUserInventorysReq = \<lparr>Gui_Appid = None, Gui_UserID = None, Gui_UserIndex = None, Gui_BadgeCode = None,
     Gui_Offset = 0, Gui_Limit = 10\<rparr>"

definition new_SendBadgeToAddressReq :: SendBadgeToAddressReq where
  "new_SendBadgeToAddressReq = \<lparr>Sba_Appid = None, Sba_UserID = None, Sba_UserIndex = None, Sba_BadgeCode = None,
     Sba_ChangeAddr = None, Sba_AddrAmounts = [], Sba_Amount2Burn = 0\<rparr>"

text \<open>What \<open>reflect\<close> shows of them: a pointer to a struct with its fields in order.\<close>

definition rptr :: "'b option \<Rightarrow> rvalue" where
  "rptr o' = RPtr (map_option (\<lambda>_. RBasic) o')"

definition rbody :: "rvalue list \<Rightarrow> rvalue" where
  "rbody fs = RPtr (Some (RStruct fs))"

definition reflect_SendRawTransactionReq :: "SendRawTransactionReq \<Rightarrow> rvalue" where
  "reflect_SendRawTransactionReq r = rbody [RBasic]"

definition reflect_GetTransactionInventoryReq :: "GetTransactionInventoryReq \<Rightarrow> rvalue" where
  "reflect_GetTransactionInventoryReq r = rbody [RBasic]"

definition reflect_GetAddrUtxosReq :: "GetAddrUtxosReq \<Rightarrow> rvalue" where
  "reflect_GetAddrUtxosReq r = rbody [rptr (Gau_Addr r), rptr (Gau_BadgeCode r), RBasic, RBasic]"

definition reflect_GetAddrBalanceReq :: "GetAddrBalanceReq \<Rightarrow> rvalue" where
  "reflect_GetAddrBalanceReq r = rbody [rptr (Gab_Addr r), rptr (Gab_BadgeCode r)]"

definition reflect_GetAddrInventorysReq :: "GetAddrInventorysReq \<Rightarrow> rvalue" where
  "reflect_GetAddrInventorysReq r = rbody [rptr (Gai_Addr r), rptr (Gai_BadgeCode r), RBasic, RBasic]"

definition reflect_SetAddrInfoReq :: "SetAddrInfoReq \<Rightarrow> rvalue" where
  "reflect_SetAddrInfoReq r = rbody [rptr (Sai_Appid r), rptr (Sai_UserID r), rptr (Sai_UserIndex r), rptr (Sai_Addr r)]"

definition reflect_GetUserUtxosReq :: "GetUserUtxosReq \<Rightarrow> rvalue" where
  "reflect_GetUserUtxosReq r = rbody [rptr (Guu_Appid r), rptr (Guu_UserID r), rptr (Guu_UserIndex r), rptr (Guu_BadgeCode r),
     RBasic, RBasic]"

definition reflect_GetUserBalanceReq :: "GetUserBalanceReq \<Rightarrow> rvalue" where
  "reflect_GetUserBalanceReq r = rbody [rptr (Gub_Appid r), rptr (Gub_UserID r), rptr (Gub_UserIndex r), rptr (Gub_BadgeCode r)]"

definition reflect_GetUserInventorysReq :: "GetUserInventorysReq \<Rightarrow> rvalue" where
  "reflect_GetUserInventorysReq r = rbody [rptr (Gui_Appid r), rptr (Gui_UserID r), rptr (Gui_UserIndex r), rptr (Gui_BadgeCode r),
     RBasic, RBasic]"

definition reflect_SendBadgeToAddressReq :: "SendBadgeToAddressReq \<Rightarrow> rvalue" where
  "reflect_SendBadgeToAddressReq r = rbody [rptr (Sba_Appid r), rptr (Sba_UserID r), rptr (Sba_UserIndex r), rptr (Sba_BadgeCode r),
     rptr (Sba_ChangeAddr r), RSlice (map (\<lambda>a. RPtr (map_option (\<lambda>_. RStruct [RBasic, RBasic]) a)) (Sba_AddrAmounts r)), RBasic]"



section \<open>The controller\<close>

text \<open>\<open>*p\<close>\<close>

definition deref :: "'b option \<Rightarrow> ('s, 'b) io" where
  "deref p = of_res (case p of None \<Rightarrow> Panic ''nil pointer dereference'' | Some x \<Rightarrow> Ok x)"

definition HttpSendRawTransaction :: "('w, 'a) senv \<Rightarrow> SendRawTransactionReq \<Rightarrow> ('w server, http_data) io" where
  "HttpSendRawTransaction senv request =
     andThen (SendRawTransaction senv (Srt_RawTx request)) (\<lambda>r. ret (DataInventory r))"

definition HttpGetTransactionInventory :: "('w, 'a) senv \<Rightarrow> GetTransactionInventoryReq \<Rightarrow> ('w server, http_data) io" where
  "HttpGetTransactionInventory senv request =
     andThen (world (GetTransactionInventory (Env senv) (Gti_Txid request))) (\<lambda>r. ret (DataInventory r))"

text \<open>\<open>sort.Sort\<close> for the two sorters is an argument, as in the service.\<close>

definition HttpGetAddrUtxos ::
  "('w, 'a) senv \<Rightarrow> (TxPoint list \<Rightarrow> TxPoint list) \<Rightarrow> GetAddrUtxosReq \<Rightarrow> ('w server, http_data) io" where
  "HttpGetAddrUtxos senv sortf request =
     andThen (deref (Gau_Addr request)) (\<lambda>addr. andThen (deref (Gau_BadgeCode request)) (\<lambda>badgeCode.
     andThen (world (GetAddrUtxos (Env senv) sortf addr badgeCode (Gau_Offset request) (Gau_Limit request)))
       (\<lambda>r. ret (DataTxPoints r))))"

definition HttpGetAddrBalance :: "('w, 'a) senv \<Rightarrow> GetAddrBalanceReq \<Rightarrow> ('w server, http_data) io" where
  "HttpGetAddrBalance senv request =
     andThen (deref (Gab_Addr request)) (\<lambda>addr. andThen (deref (Gab_BadgeCode request)) (\<lambda>badgeCode.
     andThen (world (GetAddrBalance (Env senv) addr badgeCode)) (\<lambda>r. ret (DataBalance r))))"

definition HttpGetAddrInventorys ::
  "('w, 'a) senv \<Rightarrow> (AddrInventory list \<Rightarrow> AddrInventory list) \<Rightarrow> GetAddrInventorysReq \<Rightarrow> ('w server, http_data) io" where
  "HttpGetAddrInventorys senv sorti request =
     andThen (deref (Gai_Addr request)) (\<lambda>addr. andThen (deref (Gai_BadgeCode request)) (\<lambda>badgeCode.
     andThen (world (GetAddrInventorys (Env senv) sorti addr badgeCode (Gai_Offset request) (Gai_Limit request)))
       (\<lambda>r. ret (DataInventorys r))))"

definition HttpSetAddrInfo :: "('w, 'a) senv \<Rightarrow> SetAddrInfoReq \<Rightarrow> ('w server, http_data) io" where
  "HttpSetAddrInfo senv request =
     andThen (deref (Sai_Appid request)) (\<lambda>appid. andThen (deref (Sai_UserID request)) (\<lambda>userid.
     andThen (deref (Sai_UserIndex request)) (\<lambda>userIndex. andThen (deref (Sai_Addr request)) (\<lambda>addr.
     andThen (effect (Now (Runtime senv))) (\<lambda>now.
     andThen (world (SetAddrInfo (Env senv) now appid userid userIndex addr)) (\<lambda>_. ret DataNil))))))"

definition HttpGetUserUtxos ::
  "('w, 'a) senv \<Rightarrow> (TxPoint list \<Rightarrow> TxPoint list) \<Rightarrow> GetUserUtxosReq \<Rightarrow> ('w server, http_data) io" where
  "HttpGetUserUtxos senv sortf request =
     andThen (deref (Guu_Appid request)) (\<lambda>appid. andThen (deref (Guu_UserID request)) (\<lambda>userid.
     andThen (deref (Guu_UserIndex request)) (\<lambda>userIndex. andThen (deref (Guu_BadgeCode request)) (\<lambda>badgeCode.
     andThen (world (GetUserUtxos (Env senv) sortf appid userid userIndex badgeCode (Guu_Offset request) (Guu_Limit request)))
       (\<lambda>r. ret (DataTxPoints r))))))"

definition HttpGetUserBalance :: "('w, 'a) senv \<Rightarrow> GetUserBalanceReq \<Rightarrow> ('w server, http_data) io" where
  "HttpGetUserBalance senv request =
     andThen (deref (Gub_Appid request)) (\<lambda>appid. andThen (deref (Gub_UserID request)) (\<lambda>userid.
     andThen (deref (Gub_UserIndex request)) (\<lambda>userIndex. andThen (deref (Gub_BadgeCode request)) (\<lambda>badgeCode.
     andThen (world (GetUserBalance (Env senv) appid userid userIndex badgeCode)) (\<lambda>r. ret (DataBalance r))))))"

definition HttpGetUserInventorys ::
  "('w, 'a) senv \<Rightarrow> (AddrInventory list \<Rightarrow> AddrInventory list) \<Rightarrow> GetUserInventorysReq \<Rightarrow> ('w server, http_data) io" where
  "HttpGetUserInventorys senv sorti request =
     andThen (deref (Gui_Appid request)) (\<lambda>appid. andThen (deref (Gui_UserID request)) (\<lambda>userid.
     andThen (deref (Gui_UserIndex request)) (\<lambda>userIndex. andThen (deref (Gui_BadgeCode request)) (\<lambda>badgeCode.
     andThen (world (GetUserInventorys (Env senv) sorti appid userid userIndex badgeCode (Gui_Offset request) (Gui_Limit request)))
       (\<lambda>r. ret (DataInventorys r))))))"

text \<open>
  The pointers in \<open>AddrAmounts\<close> are dereferenced in the loop of the service; here they are
  before the call. \<open>CheckNil\<close> has excluded \<open>nil\<close> by then.
\<close>

fun deref_all :: "'b option list \<Rightarrow> ('s, 'b list) io" where
  "deref_all [] = ret []"
| "deref_all (p # ps) = andThen (deref p) (\<lambda>x. andThen (deref_all ps) (\<lambda>xs. ret (x # xs)))"

definition HttpSendBadgeToAddress :: "('w, 'a) senv \<Rightarrow> SendBadgeToAddressReq \<Rightarrow> ('w server, http_data) io" where
  "HttpSendBadgeToAddress senv request =
     (if Sba_Amount2Burn request < 0 then fail (NewCodeError ERR_PARAMETERS_CODE ''Amount2Burn < 0'')
      else andThen (deref (Sba_Appid request)) (\<lambda>appid. andThen (deref (Sba_UserID request)) (\<lambda>userid.
        andThen (deref (Sba_UserIndex request)) (\<lambda>userIndex. andThen (deref (Sba_BadgeCode request)) (\<lambda>badgeCode.
        andThen (deref (Sba_ChangeAddr request)) (\<lambda>changeAddr. andThen (deref_all (Sba_AddrAmounts request)) (\<lambda>addrAmounts.
        andThen (world (SendBadgeToAddress (Env senv) appid userid userIndex badgeCode changeAddr addrAmounts
            (Sba_Amount2Burn request))) (\<lambda>r. ret (DataPayment r)))))))))"


section \<open>Routes\<close>

text \<open>The decoders of the request types, the encoder of responses and the two sorts.\<close>

record http_json =
  JsonResponse :: marshal
  JsonSendRawTransaction :: "string \<Rightarrow> SendRawTransactionReq \<Rightarrow> SendRawTransactionReq res"
  JsonGetTransactionInventory :: "string \<Rightarrow> GetTransactionInventoryReq \<Rightarrow> GetTransactionInventoryReq res"
  JsonGetAddrUtxos :: "string \<Rightarrow> GetAddrUtxosReq \<Rightarrow> GetAddrUtxosReq res"
  JsonGetAddrBalance :: "string \<Rightarrow> GetAddrBalanceReq \<Rightarrow> GetAddrBalanceReq res"
  JsonGetAddrInventorys :: "string \<Rightarrow> GetAddrInventorysReq \<Rightarrow> GetAddrInventorysReq res"
  JsonSetAddrInfo :: "string \<Rightarrow> SetAddrInfoReq \<Rightarrow> SetAddrInfoReq res"
  JsonGetUserUtxos :: "string \<Rightarrow> GetUserUtxosReq \<Rightarrow> GetUserUtxosReq res"
  JsonGetUserBalance :: "string \<Rightarrow> GetUserBalanceReq \<Rightarrow> GetUserBalanceReq res"
  JsonGetUserInventorys :: "string \<Rightarrow> GetUserInventorysReq \<Rightarrow> GetUserInventorysReq res"
  JsonSendBadgeToAddress :: "string \<Rightarrow> SendBadgeToAddressReq \<Rightarrow> SendBadgeToAddressReq res"
  SortPoints :: "TxPoint list \<Rightarrow> TxPoint list"
  SortInventorys :: "AddrInventory list \<Rightarrow> AddrInventory list"

text \<open>The router of \<open>StartHttpServer\<close>: the handler of a path, if there is one.\<close>

definition routes :: "('w, 'a) senv \<Rightarrow> http_json \<Rightarrow> string res \<Rightarrow> (string \<times> ('w server, string) io) list" where
  "routes senv js body =
     [(''/v1/touchstone/sendrawtransaction'', Aspect (JsonResponse js) (HttpSendRawTransaction senv)
         new_SendRawTransactionReq reflect_SendRawTransactionReq (JsonSendRawTransaction js) body),
      (''/v1/touchstone/gettxinventory'', Aspect (JsonResponse js) (HttpGetTransactionInventory senv)
         new_GetTransactionInventoryReq reflect_GetTransactionInventoryReq (JsonGetTransactionInventory js) body),
      (''/v1/touchstone/getaddrutxos'', Aspect (JsonResponse js) (HttpGetAddrUtxos senv (SortPoints js))
         new_GetAddrUtxosReq reflect_GetAddrUtxosReq (JsonGetAddrUtxos js) body),
      (''/v1/touchstone/getaddrbalance'', Aspect (JsonResponse js) (HttpGetAddrBalance senv)
         new_GetAddrBalanceReq reflect_GetAddrBalanceReq (JsonGetAddrBalance js) body),
      (''/v1/touchstone/getaddrinventorys'', Aspect (JsonResponse js) (HttpGetAddrInventorys senv (SortInventorys js))
         new_GetAddrInventorysReq reflect_GetAddrInventorysReq (JsonGetAddrInventorys js) body),
      (''/v1/touchstone/setaddrinfo'', Aspect (JsonResponse js) (HttpSetAddrInfo senv)
         new_SetAddrInfoReq reflect_SetAddrInfoReq (JsonSetAddrInfo js) body),
      (''/v1/touchstone/getuserutxos'', Aspect (JsonResponse js) (HttpGetUserUtxos senv (SortPoints js))
         new_GetUserUtxosReq reflect_GetUserUtxosReq (JsonGetUserUtxos js) body),
      (''/v1/touchstone/getuserbalance'', Aspect (JsonResponse js) (HttpGetUserBalance senv)
         new_GetUserBalanceReq reflect_GetUserBalanceReq (JsonGetUserBalance js) body),
      (''/v1/touchstone/getuserinventorys'', Aspect (JsonResponse js) (HttpGetUserInventorys senv (SortInventorys js))
         new_GetUserInventorysReq reflect_GetUserInventorysReq (JsonGetUserInventorys js) body),
      (''/v1/touchstone/sendbadgetoaddress'', Aspect (JsonResponse js) (HttpSendBadgeToAddress senv)
         new_SendBadgeToAddressReq reflect_SendBadgeToAddressReq (JsonSendBadgeToAddress js) body)]"



section \<open>Checking requests\<close>

text \<open>The parts of a value that pointers, fields and elements lead to.\<close>

inductive part_of :: "rvalue \<Rightarrow> rvalue \<Rightarrow> bool" where
  self: "part_of v v"
| pointer: "part_of x v \<Longrightarrow> part_of x (RPtr (Some v))"
| field: "part_of x v \<Longrightarrow> v \<in> set vs \<Longrightarrow> part_of x (RStruct vs)"
| element: "part_of x v \<Longrightarrow> v \<in> set vs \<Longrightarrow> part_of x (RSlice vs)"

inductive_simps part_of_simps: "part_of x (RPtr p)" "part_of x (RStruct vs)" "part_of x (RSlice vs)" "part_of x RBasic"

lemma check_nil:
  "DoCheckNilRecursion v = (if part_of (RPtr None) v then Fail missing_fields else Ok ())"
  "check_elements vs = (if \<exists>v \<in> set vs. part_of (RPtr None) v then Fail missing_fields else Ok ())"
  by (induction v and vs rule: DoCheckNilRecursion_check_elements.induct) (auto simp: part_of_simps)

lemma check_nil_body [simp]:
  "CheckNil (rbody vs) = Ok () \<longleftrightarrow> (\<forall>v \<in> set vs. \<not> part_of (RPtr None) v)"
  "part_of (RPtr None) (rptr p) \<longleftrightarrow> p = None"
  "\<not> part_of (RPtr None) RBasic"
  "part_of (RPtr None) (rbody vs) \<longleftrightarrow> (\<exists>v \<in> set vs. part_of (RPtr None) v)"
  by (auto simp: CheckNil_def check_nil rbody_def rptr_def part_of_simps)


section \<open>Handlers keep what the services keep\<close>

lemma keeps_deref [keeps_intros]: "keeps I (deref p)"
  unfolding deref_def by (rule keeps_of_res)

lemma keeps_deref_all [keeps_intros]: "keeps I (deref_all ps)"
  by (induction ps) (auto intro!: keeps_intros)

lemma keeps_responses [keeps_intros]:
  "keeps I (NewOkHttpJsonResponse marshal d)" "keeps I (NewErrHttpJsonResponse marshal code msg)"
  unfolding NewOkHttpJsonResponse_def NewErrHttpJsonResponse_def NewHttpJsonResponse_def by (intro keeps_intros)+

lemma keeps_Aspect [keeps_intros]:
  "(\<And>r. keeps I (handler r)) \<Longrightarrow> keeps I (Aspect marshal handler newBody reflect unmarshal body)"
  unfolding Aspect_def by (intro keeps_intros)

lemmas handler_defs =
  HttpSendRawTransaction_def HttpGetTransactionInventory_def HttpGetAddrUtxos_def HttpGetAddrBalance_def
  HttpGetAddrInventorys_def HttpSetAddrInfo_def HttpGetUserUtxos_def HttpGetUserBalance_def HttpGetUserInventorys_def
  HttpSendBadgeToAddress_def

context node_invariant
begin

lemma routes_keep:
  assumes "(path, m) \<in> set (routes senv js body)"
  shows "keeps (node_inv docs uniq I) m"
proof -
  have "list_all (\<lambda>(path, m). keeps (node_inv docs uniq I) m) (routes senv js body)"
    unfolding routes_def list.pred_inject prod.case handler_defs
    by (intro conjI list.pred_inject(1); intro keeps_intros keeps_SendRawTransaction keeps_answers keeps_pay keeps_net I_db I_register)
  then show ?thesis using assms by (auto simp: list_all_iff)
qed

end


section \<open>No nil dereference\<close>

abbreviation nil_panic :: "'b res" where "nil_panic \<equiv> Panic ''nil pointer dereference''"

definition calm :: "('s, 'b) io \<Rightarrow> bool" where
  "calm m \<longleftrightarrow> (\<forall>s. fst (m s) \<noteq> nil_panic)"

lemma calmI: "(\<And>s s'. m s \<noteq> (nil_panic, s')) \<Longrightarrow> calm m"
  unfolding calm_def by (metis prod.collapse)

named_theorems calm_intros

lemma calm_basic [calm_intros]: "calm (ret x)" "calm (fail e)" "calm (effect f)" "calm (gets g)"
  by (auto simp: calm_def ret_def fail_def effect_def gets_def split: prod.split)

lemma calm_of_res: "r \<noteq> nil_panic \<Longrightarrow> calm (of_res r)"
  by (simp add: calm_def of_res_def)

lemma calm_attempt [calm_intros]:
  "calm m \<Longrightarrow> (\<And>e. calm (h e)) \<Longrightarrow> (\<And>x. calm (f x)) \<Longrightarrow> calm (attempt m h f)"
  by (auto simp: calm_def attempt_def split: prod.split res.split) (metis fst_conv)

lemma calm_andThen [calm_intros]: "calm m \<Longrightarrow> (\<And>x. calm (f x)) \<Longrightarrow> calm (andThen m f)"
  unfolding andThen_def by (intro calm_intros)

lemma calm_attempt_res:
  "r \<noteq> nil_panic \<Longrightarrow> (\<And>e. calm (h e)) \<Longrightarrow> (\<And>x. r = Ok x \<Longrightarrow> calm (f x)) \<Longrightarrow> calm (attempt (of_res r) h f)"
  by (cases r) (auto simp: calm_def attempt_def of_res_def)

lemma calm_if [calm_intros]: "(b \<Longrightarrow> calm m) \<Longrightarrow> (\<not> b \<Longrightarrow> calm n) \<Longrightarrow> calm (if b then m else n)"
  by simp

lemma calm_Let [calm_intros]: "calm (f x) \<Longrightarrow> calm (Let x f)"
  by simp

lemma calm_case [calm_intros]:
  "(\<And>a b. calm (fp a b)) \<Longrightarrow> calm (case p of (a, b) \<Rightarrow> fp a b)"
  "(\<And>s. calm (fe s)) \<Longrightarrow> (\<And>c s. calm (fc c s)) \<Longrightarrow> calm (case e of Error s \<Rightarrow> fe s | CodeError c s \<Rightarrow> fc c s)"
  by (cases p, simp) (simp split: goerr.split)

lemma calm_world [calm_intros]: "calm m \<Longrightarrow> calm (world m)"
  by (auto simp: calm_def world_def split: prod.split) (metis fst_conv)

lemma calm_page [calm_intros]:
  "calm (of_res (PageTxPoints sortf us off lim))" "calm (of_res (PageAddrInventorys sorti as off lim))"
  by (auto simp: PageTxPoints_def PageAddrInventorys_def page_def go_slice_def calm_of_res Let_def)

context mongo
begin

lemma calm_db [calm_intros]:
  "calm (GetOne drv c q)" "calm (GetAll drv c q sel so)" "calm (AggregateAll drv c st)" "calm (Insert drv c d)" "calm (UpdateAll drv c q u)"
  by (rule calmI; auto dest: GetOne_res GetAll_res AggregateAll_res Insert_res UpdateAll_res)+

lemma calm_repos [calm_intros]:
  "calm (GetTxPoints drv txid)" "calm (GetTxPointsByAddr drv addr code state)" "calm (GetMsgTxBriefInfo drv txid)"
  "calm (GetUserTxPoints drv appid userid ui code state)" "calm (AddOrUpdateAddrInfo drv a)"
  unfolding GetTxPoints_def GetTxPointsByAddr_def GetMsgTxBriefInfo_def GetUserTxPoints_def AddOrUpdateAddrInfo_def
  by (intro calm_intros)+

end

lemma calm_services:
  assumes "mongo (Db env) docs uniq"
  shows "calm (GetTransactionInventory env txid)" "calm (GetAddrUtxos env sortf addr code off lim)"
    "calm (GetUserUtxos env sortf appid userid ui code off lim)" "calm (GetAddrBalance env addr code)"
    "calm (GetUserBalance env appid userid ui code)" "calm (GetAddrInventorys env sorti addr code off lim)"
    "calm (GetUserInventorys env sorti appid userid ui code off lim)" "calm (SetAddrInfo env now appid userid ui addr)"
  unfolding GetTransactionInventory_def GetAddrUtxos_def GetUserUtxos_def GetAddrBalance_def GetUserBalance_def
    GetAddrInventorys_def GetUserInventorys_def SetAddrInfo_def GetAllAddrUtxos_def GetAllUserUtxos_def
    GetAllAddrInventorys_def GetUserAddrInventorys_def
  by (intro calm_intros mongo.calm_repos [OF assms])+

text \<open>The libraries return errors and do not panic.\<close>

definition quiet_libs :: "('w, 'a) env \<Rightarrow> bool" where
  "quiet_libs env \<longleftrightarrow> (\<forall>s net p. DecodeAddress (AddrL env) s net \<noteq> Stop p) \<and> addr_lib_ok (AddrL env) \<and>
     (\<forall>h p. NewHashFromStr (TxL env) h \<noteq> Stop p)"

definition quiet_json :: "http_json \<Rightarrow> bool" where
  "quiet_json js \<longleftrightarrow> (\<forall>r p. JsonResponse js r \<noteq> Stop p) \<and>
     (\<forall>b r p. JsonSendRawTransaction js b r \<noteq> Stop p) \<and> (\<forall>b r p. JsonGetTransactionInventory js b r \<noteq> Stop p) \<and>
     (\<forall>b r p. JsonGetAddrUtxos js b r \<noteq> Stop p) \<and> (\<forall>b r p. JsonGetAddrBalance js b r \<noteq> Stop p) \<and>
     (\<forall>b r p. JsonGetAddrInventorys js b r \<noteq> Stop p) \<and> (\<forall>b r p. JsonSetAddrInfo js b r \<noteq> Stop p) \<and>
     (\<forall>b r p. JsonGetUserUtxos js b r \<noteq> Stop p) \<and> (\<forall>b r p. JsonGetUserBalance js b r \<noteq> Stop p) \<and>
     (\<forall>b r p. JsonGetUserInventorys js b r \<noteq> Stop p) \<and> (\<forall>b r p. JsonSendBadgeToAddress js b r \<noteq> Stop p)"

lemma CreateBadgeLockScript_calm:
  "quiet_libs env \<Longrightarrow> CreateBadgeLockScript (AddrL env) a v \<noteq> nil_panic"
  by (simp add: CreateBadgeLockScript_eq quiet_libs_def)

lemma SendBadge_loops_calm:
  assumes "quiet_libs env"
  shows "SendBadge_outs env ps v t \<noteq> nil_panic" "SendBadge_ins env need us v' used t' \<noteq> nil_panic"
proof -
  show "SendBadge_outs env ps v t \<noteq> nil_panic"
    using assms CreateBadgeLockScript_calm [OF assms]
    by (induction ps arbitrary: v t) (auto simp: bind_res_eq_Stop quiet_libs_def)
  show "SendBadge_ins env need us v' used t' \<noteq> nil_panic"
    using assms by (induction us arbitrary: v' used t') (auto simp: bind_res_eq_Stop quiet_libs_def)
qed

lemma calm_pay:
  assumes "mongo (Db env) docs uniq" "quiet_libs env"
  shows "calm (SendBadgeToAddress env appid userid ui code change pays burn)"
proof -
  have "DecodeAddress (AddrL env) s net \<noteq> nil_panic" for s net using assms(2) by (simp add: quiet_libs_def)
  then show ?thesis
    unfolding SendBadgeToAddress_def GetAllUserUtxos_def
    by (intro calm_intros calm_of_res SendBadge_loops_calm CreateBadgeLockScript_calm assms(2) mongo.calm_repos [OF assms(1)])
qed

lemma calm_deref: "p \<noteq> None \<Longrightarrow> calm (deref p)"
  by (auto simp: deref_def calm_of_res)

lemma calm_deref_all: "None \<notin> set ps \<Longrightarrow> calm (deref_all ps)"
proof (induction ps)
  case (Cons p ps)
  have "p \<noteq> None" and rest: "None \<notin> set ps" using Cons.prems by (metis list.set_intros)+
  with Cons.IH [OF rest] show ?case unfolding deref_all.simps by (intro calm_intros calm_deref)
qed (simp add: calm_intros)

lemma calm_response:
  "(\<And>r p. marshal r \<noteq> Stop p) \<Longrightarrow> calm (NewHttpJsonResponse marshal code msg d)"
  unfolding NewHttpJsonResponse_def by (intro calm_intros calm_of_res)

lemma calm_Aspect:
  assumes "\<And>r p. marshal r \<noteq> Stop p" "\<And>b r p. unmarshal b r \<noteq> Stop p" "\<And>p. body \<noteq> Stop p"
    and "\<And>r. CheckNil (reflect r) = Ok () \<Longrightarrow> calm (handler r)"
  shows "calm (Aspect marshal handler newBody reflect unmarshal body)"
proof -
  have "CheckNil v \<noteq> nil_panic" for v by (simp add: CheckNil_def check_nil)
  then show ?thesis
    unfolding Aspect_def NewErrHttpJsonResponse_def NewOkHttpJsonResponse_def
    by (intro calm_attempt_res calm_intros calm_response assms) (simp_all add: unit_eq)
qed

lemmas reflect_defs =
  reflect_GetTransactionInventoryReq_def reflect_GetAddrUtxosReq_def reflect_GetAddrBalanceReq_def
  reflect_GetAddrInventorysReq_def reflect_SetAddrInfoReq_def reflect_GetUserUtxosReq_def reflect_GetUserBalanceReq_def
  reflect_GetUserInventorysReq_def reflect_SendBadgeToAddressReq_def

lemma no_nil_slice:
  "\<not> part_of (RPtr None) (RSlice (map (\<lambda>a. RPtr (map_option (\<lambda>_. RStruct [RBasic, RBasic]) a)) as)) \<Longrightarrow> None \<notin> set as"
proof
  let ?f = "\<lambda>a. RPtr (map_option (\<lambda>_. RStruct [RBasic, RBasic]) a)"
  assume no: "\<not> part_of (RPtr None) (RSlice (map ?f as))" and "None \<in> set as"
  from this(2) have "?f None \<in> set (map ?f as)" by (simp only: set_map) (rule image_eqI [of _ _ None], simp)
  then have "part_of (RPtr None) (RSlice (map ?f as))" using part_of.element [OF part_of.self] by simp
  with no show False ..
qed

lemma handlers_calm:
  assumes "mongo (Db (Env senv)) docs uniq" "quiet_libs (Env senv)"
  shows
    "CheckNil (reflect_GetTransactionInventoryReq q0) = Ok () \<Longrightarrow> calm (HttpGetTransactionInventory senv q0)"
    "CheckNil (reflect_GetAddrUtxosReq q1) = Ok () \<Longrightarrow> calm (HttpGetAddrUtxos senv sortf q1)"
    "CheckNil (reflect_GetAddrBalanceReq q2) = Ok () \<Longrightarrow> calm (HttpGetAddrBalance senv q2)"
    "CheckNil (reflect_GetAddrInventorysReq q3) = Ok () \<Longrightarrow> calm (HttpGetAddrInventorys senv sorti q3)"
    "CheckNil (reflect_SetAddrInfoReq q4) = Ok () \<Longrightarrow> calm (HttpSetAddrInfo senv q4)"
    "CheckNil (reflect_GetUserUtxosReq q5) = Ok () \<Longrightarrow> calm (HttpGetUserUtxos senv sortf q5)"
    "CheckNil (reflect_GetUserBalanceReq q6) = Ok () \<Longrightarrow> calm (HttpGetUserBalance senv q6)"
    "CheckNil (reflect_GetUserInventorysReq q7) = Ok () \<Longrightarrow> calm (HttpGetUserInventorys senv sorti q7)"
    "CheckNil (reflect_SendBadgeToAddressReq q8) = Ok () \<Longrightarrow> calm (HttpSendBadgeToAddress senv q8)"
  unfolding reflect_defs handler_defs
  by (intro calm_intros calm_deref calm_deref_all no_nil_slice calm_services [OF assms(1)] calm_pay [OF assms];
      simp del: not_None_eq)+


section \<open>Requests for balances\<close>

text \<open>The text of a response, and what should be answered to a request for a balance when the collections are \<open>db\<close>.\<close>

definition answer :: "http_json \<Rightarrow> int \<Rightarrow> string \<Rightarrow> http_data \<Rightarrow> string" where
  "answer js code msg d =
     (case JsonResponse js \<lparr>Http_Code = code, Http_Msg = msg, Http_Data = d\<rparr> of Ok text \<Rightarrow> text | Fail err \<Rightarrow> err_str err | Stop p \<Rightarrow> [])"

definition addr_balance_answer :: "http_json \<Rightarrow> (string \<Rightarrow> doc list) \<Rightarrow> string \<Rightarrow> string" where
  "addr_balance_answer js db body =
     (case JsonGetAddrBalance js body \<lparr>Gab_Addr = None, Gab_BadgeCode = None\<rparr> of
        Ok request \<Rightarrow> (case (Gab_Addr request, Gab_BadgeCode request) of
          (Some addr, Some code) \<Rightarrow> answer js 0 [] (DataBalance (balance (points_of db) addr code))
        | _ \<Rightarrow> answer js (-2) ''required fields are missing'' DataNil)
      | Fail err \<Rightarrow> answer js (-2) (err_str err) DataNil
      | Stop p \<Rightarrow> [])"

definition user_balance_answer :: "http_json \<Rightarrow> (string \<Rightarrow> doc list) \<Rightarrow> string \<Rightarrow> string" where
  "user_balance_answer js db body =
     (case JsonGetUserBalance js body \<lparr>Gub_Appid = None, Gub_UserID = None, Gub_UserIndex = None, Gub_BadgeCode = None\<rparr> of
        Ok request \<Rightarrow> (case (Gub_Appid request, Gub_UserID request, Gub_UserIndex request, Gub_BadgeCode request) of
          (Some appid, Some userid, Some userIndex, Some code) \<Rightarrow>
            answer js 0 [] (DataBalance (\<Sum>a \<in> Info_Addr ` set (filter (owns appid userid userIndex) (addrs_of db)).
              balance (points_of db) a code))
        | _ \<Rightarrow> answer js (-2) ''required fields are missing'' DataNil)
      | Fail err \<Rightarrow> answer js (-2) (err_str err) DataNil
      | Stop p \<Rightarrow> [])"

lemma respond: "(\<And>r p. JsonResponse js r \<noteq> Stop p) \<Longrightarrow> NewHttpJsonResponse (JsonResponse js) code msg d s = (Ok (answer js code msg d), s)"
  by (auto simp: NewHttpJsonResponse_def answer_def attempt_def of_res_def ret_def split: res.split)

text \<open>What the interceptor does with a request.\<close>

lemma Aspect_cases:
  assumes js: "quiet_json js" and no: "\<And>p. unmarshal body newBody \<noteq> Stop p"
    and run: "Aspect (JsonResponse js) handler newBody reflect unmarshal (Ok body) s = (r, s')"
  obtains (undecodable) err where "unmarshal body newBody = Fail err" "s' = s" "r = Ok (answer js (-2) (err_str err) DataNil)"
  | (missing) request where "unmarshal body newBody = Ok request" "part_of (RPtr None) (reflect request)" "s' = s"
      "r = Ok (answer js (-2) ''required fields are missing'' DataNil)"
  | (handled) request rd where "unmarshal body newBody = Ok request" "\<not> part_of (RPtr None) (reflect request)"
      "handler request s = (rd, s')" "\<And>d. rd = Ok d \<Longrightarrow> r = Ok (answer js 0 [] d)"
proof -
  have quiet: "JsonResponse js r \<noteq> Stop p" for r p using js by (simp add: quiet_json_def)
  note codes = HTTP_WRONG_FORMAT_ERROR_CODE_def HTTP_OK_RESPONSE_CODE_def NewErrHttpJsonResponse_def NewOkHttpJsonResponse_def
  show thesis
  proof (cases "unmarshal body newBody")
    case (Fail err)
    then show thesis using run undecodable by (simp add: Aspect_def attempt_def of_res_def codes respond [OF quiet])
  next
    case (Ok request)
    show thesis
    proof (cases "part_of (RPtr None) (reflect request)")
      case True
      then show thesis
        using run missing Ok
        by (simp add: Aspect_def attempt_def of_res_def codes respond [OF quiet] CheckNil_def check_nil missing_fields_def NewCodeError_def)
    next
      case False
      obtain rd s1 where h: "handler request s = (rd, s1)" by fastforce
      have "s1 = s'" and "\<And>d. rd = Ok d \<Longrightarrow> r = Ok (answer js 0 [] d)"
        using run False Ok h
        by (auto simp: Aspect_def attempt_def of_res_def codes respond [OF quiet] CheckNil_def check_nil split: res.splits goerr.splits)
      then show thesis using handled [OF Ok False] h by blast
    qed
  qed (use no in simp)
qed

lemma addr_balance_route:
  assumes "mongo_up (Db (Env senv)) docs uniq" and inv: "service_inv (Env senv) S docs uniq (World s)" "no_double_spend S"
    and js: "quiet_json js"
    and run: "Aspect (JsonResponse js) (HttpGetAddrBalance senv) new_GetAddrBalanceReq reflect_GetAddrBalanceReq (JsonGetAddrBalance js)
      (Ok body) s = (r, s')"
  shows "docs (World s') = docs (World s) \<and> r = Ok (addr_balance_answer js (docs (World s)) body)"
proof -
  have m: "mongo (Db (Env senv)) docs uniq" by (rule mongo_up.axioms(1) [OF assms(1)])
  have i: "ledger_inv (Env senv) S docs uniq (World s)" using inv(1) by (simp add: service_inv_def store_inv_def)
  have "JsonGetAddrBalance js body new_GetAddrBalanceReq \<noteq> Stop p" for p using js by (simp add: quiet_json_def)
  from js this run show ?thesis
  proof (cases rule: Aspect_cases)
    case (undecodable err)
    then show ?thesis by (simp add: addr_balance_answer_def new_GetAddrBalanceReq_def)
  next
    case (missing request)
    then show ?thesis
      by (auto simp: addr_balance_answer_def new_GetAddrBalanceReq_def reflect_GetAddrBalanceReq_def split: option.split)
  next
    case (handled request rd)
    then obtain addr code where req: "Gab_Addr request = Some addr" "Gab_BadgeCode request = Some code"
      by (auto simp: reflect_GetAddrBalanceReq_def)
    obtain rb w' where bal: "GetAddrBalance (Env senv) addr code (World s) = (rb, w')" by fastforce
    have "docs w' = docs (World s)" "rb = Ok (balance (points_of (docs (World s))) addr code)"
      using mongo.addr_balance [OF m refl i inv(2) bal] assms(1) by auto
    then show ?thesis
      using handled bal
      by (auto simp: HttpGetAddrBalance_def req deref_def go_simps attempt_def world_def addr_balance_answer_def new_GetAddrBalanceReq_def)
  qed
qed

lemma user_balance_route:
  assumes "mongo_up (Db (Env senv)) docs uniq" and inv: "service_inv (Env senv) S docs uniq (World s)" "no_double_spend S"
    and js: "quiet_json js"
    and run: "Aspect (JsonResponse js) (HttpGetUserBalance senv) new_GetUserBalanceReq reflect_GetUserBalanceReq (JsonGetUserBalance js)
      (Ok body) s = (r, s')"
  shows "docs (World s') = docs (World s) \<and> r = Ok (user_balance_answer js (docs (World s)) body)"
proof -
  have m: "mongo (Db (Env senv)) docs uniq" by (rule mongo_up.axioms(1) [OF assms(1)])
  have i: "ledger_inv (Env senv) S docs uniq (World s)" using inv(1) by (simp add: service_inv_def store_inv_def)
  have addrs: "wf_addrs (docs (World s)) (uniq (World s))" using inv(1) by (simp add: service_inv_def)
  have "JsonGetUserBalance js body new_GetUserBalanceReq \<noteq> Stop p" for p using js by (simp add: quiet_json_def)
  from js this run show ?thesis
  proof (cases rule: Aspect_cases)
    case (undecodable err)
    then show ?thesis by (simp add: user_balance_answer_def new_GetUserBalanceReq_def)
  next
    case (missing request)
    then show ?thesis
      by (auto simp: user_balance_answer_def new_GetUserBalanceReq_def reflect_GetUserBalanceReq_def split: option.split)
  next
    case (handled request rd)
    then obtain appid userid userIndex code where req: "Gub_Appid request = Some appid" "Gub_UserID request = Some userid"
      "Gub_UserIndex request = Some userIndex" "Gub_BadgeCode request = Some code"
      by (auto simp: reflect_GetUserBalanceReq_def)
    obtain rb w' where bal: "GetUserBalance (Env senv) appid userid userIndex code (World s) = (rb, w')" by fastforce
    have "docs w' = docs (World s)" "rb = Ok (\<Sum>a \<in> Info_Addr ` set (filter (owns appid userid userIndex) (addrs_of (docs (World s)))).
        balance (points_of (docs (World s))) a code)"
      using mongo.user_balance [OF m refl i inv(2) addrs bal] assms(1) by auto
    then show ?thesis
      using handled bal
      by (auto simp: HttpGetUserBalance_def req deref_def go_simps attempt_def world_def user_balance_answer_def new_GetUserBalanceReq_def)
  qed
qed


section \<open>Properties\<close>

text \<open>
  C22: the check of required fields. \<open>CheckNil\<close> accepts a request exactly when no \<open>nil\<close> pointer can be
  reached in it through pointers, fields and elements, and otherwise reports missing fields.
\<close>

theorem CheckNil_exact:
  "CheckNil v = (if part_of (RPtr None) v then Fail (CodeError ERR_PARAMETERS_CODE ''required fields are missing'') else Ok ())"
  by (simp add: CheckNil_def check_nil missing_fields_def NewCodeError_def)

text \<open>An encoding for the witnesses: bodies have no fields, responses are their messages.\<close>

definition demo_json :: http_json where
  "demo_json =
     \<lparr>JsonResponse = (\<lambda>r. Ok (Http_Msg r)), JsonSendRawTransaction = (\<lambda>b. Ok), JsonGetTransactionInventory = (\<lambda>b. Ok),
      JsonGetAddrUtxos = (\<lambda>b. Ok), JsonGetAddrBalance = (\<lambda>b. Ok), JsonGetAddrInventorys = (\<lambda>b. Ok), JsonSetAddrInfo = (\<lambda>b. Ok),
      JsonGetUserUtxos = (\<lambda>b. Ok), JsonGetUserBalance = (\<lambda>b. Ok), JsonGetUserInventorys = (\<lambda>b. Ok),
      JsonSendBadgeToAddress = (\<lambda>b. Ok), SortPoints = (\<lambda>l. l), SortInventorys = (\<lambda>l. l)\<rparr>"

text \<open>
  C21: requests cannot make a handler dereference \<open>nil\<close>. On every route but the one that submits
  transactions no request panics that way: the interceptor has rejected what lacks a
  field that the handler dereferences.
\<close>

theorem http_no_nil_panic:
  assumes "mongo (Db (Env senv)) docs uniq" and "quiet_libs (Env senv)" and "quiet_json js" and "\<forall>p. body \<noteq> Stop p"
    and "(path, m) \<in> set (routes senv js body)" and "path \<noteq> ''/v1/touchstone/sendrawtransaction''"
  shows "fst (m s) \<noteq> Panic ''nil pointer dereference''"
proof -
  note handlers = handlers_calm [OF assms(1,2)]
  have "list_all (\<lambda>(path, m). path \<noteq> ''/v1/touchstone/sendrawtransaction'' \<longrightarrow> calm m) (routes senv js body)"
    unfolding routes_def list.pred_inject prod.case
    by (intro conjI list.pred_inject(1); (simp; fail | intro impI calm_Aspect handlers);
        use assms(3,4) in \<open>simp add: quiet_json_def\<close>)
  then show ?thesis using assms(5,6) by (auto simp: list_all_iff calm_def)
qed

lemma sync_senv_quiet: "quiet_libs (Env sync_senv)"
proof -
  have "hex_decode h \<noteq> Stop p" for h p
    by (induction h rule: hex_decode.induct) (auto simp: bind_res_eq_Stop split: option.split)
  then have "DecodeAddress hash_addr_lib h net \<noteq> Stop p" for h net p
    by (simp add: hash_addr_lib_def bind_res_eq_Stop)
  then show ?thesis using hash_addr_lib_ok by (simp add: quiet_libs_def sync_senv_def big_lib_def)
qed

lemma demo_json_quiet: "quiet_json demo_json"
  by (simp add: quiet_json_def demo_json_def)

theorem http_no_nil_panic_witness:
  "fst (snd (routes sync_senv demo_json (Ok ''{}'') ! 3) (new_server mem_started)) \<noteq> Panic ''nil pointer dereference''"
  by (rule http_no_nil_panic [OF sync_senv_ok(1) sync_senv_quiet demo_json_quiet,
        of "Ok ''{}''" "fst (routes sync_senv demo_json (Ok ''{}'') ! 3)"])
     (simp_all add: routes_def)

end
