(* ===== verification/Chain_Watch.thy ===== *)
theory Chain_Watch
  imports Sync
begin

text \<open>
  \<open>CheckTxState\<close> of \<open>src/services/touchstone_server.go\<close>: the job that follows recent and
  unconfirmed transactions on the chain, updates their height and removes those the
  miner no longer knows.
\<close>

section \<open>The code\<close>

definition ClearMsgTx :: "('w, 'a) env \<Rightarrow> string \<Rightarrow> ('w, unit) io" where
  "ClearMsgTx env txid = andThen (DeleteTxPoints (Db env) txid) (\<lambda>_. DeleteMsgTx (Db env) txid)"

fun CheckTxState_loop :: "('w, 'a) senv \<Rightarrow> MsgTxBriefInfo list \<Rightarrow> ('w server, unit) io" where
  "CheckTxState_loop senv [] = ret ()"
| "CheckTxState_loop senv (msgTxBriefInfo # rest) =
     andThen (world (GetTxState (Client senv) (Brief_Txid msgTxBriefInfo))) (\<lambda>txState.
       if contains (ResultDescription (Ts_Payload txState)) ''No such mempool or blockchain transaction''
       then andThen (world (ClearMsgTx (Env senv) (Brief_Txid msgTxBriefInfo))) (\<lambda>_. CheckTxState_loop senv rest)
       else
         let currentheight = (if BlockHeight (Ts_Payload txState) = 0 then UNCONFIRM_TX_HEIGHT
               else BlockHeight (Ts_Payload txState))
         in if Brief_BlockHash msgTxBriefInfo \<noteq> BlockHash (Ts_Payload txState) \<or>
               Brief_Height msgTxBriefInfo \<noteq> currentheight
            then andThen (world (SetMsgTxHeightHash (Db (Env senv)) (Brief_Txid msgTxBriefInfo)
                   (BlockHeight (Ts_Payload txState)) (BlockHash (Ts_Payload txState)))) (\<lambda>_.
                 andThen (AddNeedRecomputehashPartitionByHeight senv (Brief_Height msgTxBriefInfo)) (\<lambda>_.
                   CheckTxState_loop senv rest))
            else CheckTxState_loop senv rest)"

definition CheckTxState :: "('w, 'a) senv \<Rightarrow> ('w server, unit) io" where
  "CheckTxState senv =
     andThen (world (GetFeeQuote (Client senv))) (\<lambda>feeQuote.
       let highest = CurrentHighestBlockHeight (Fq_Payload feeQuote)
       in andThen (world (GetMsgTxBriefInfoByHeightRange (Db (Env senv)) (sub64 highest 8) (add64 highest 1) True))
            (\<lambda>msgTxBriefInfos. CheckTxState_loop senv msgTxBriefInfos))"


section \<open>What is watched\<close>

text \<open>The transactions \<open>CheckTxState\<close> asks the miner about when the chain has height \<open>highest\<close>.\<close>

abbreviation watch_query :: "int \<Rightarrow> qual list" where
  "watch_query highest \<equiv> [QOr [QRange HEIGHT (sub64 highest 8) (add64 highest 1), QEq HEIGHT (BInt UNCONFIRM_TX_HEIGHT)],
     QEq INDEX (BInt TX_INFO_INDEX)]"

definition watched :: "(string \<Rightarrow> doc list) \<Rightarrow> int \<Rightarrow> string set" where
  "watched db highest = (\<lambda>d. get_str d TXID) ` set (filter (matches (watch_query highest)) (db TBL_RAW_TX_INFO))"

lemma watch_query_key:
  assumes "matches (watch_query highest) d" "get_str d TXID = txid" "txid \<noteq> []"
  shows "matches (info_key txid) d"
proof -
  have "d TXID = Some (BStr txid)" using assms(2,3) by (auto simp: get_str_def split: option.splits bval.splits)
  then show ?thesis using assms(1) by (simp add: matches_def info_key_def)
qed

context mongo
begin

lemma infos_res:
  assumes "GetMsgTxBriefInfoByHeightRange drv (sub64 highest 8) (add64 highest 1) True w = (Ok infos, w')"
  shows "set infos = MsgTxBriefInfo_of_doc ` set (filter (matches (watch_query highest)) (docs w TBL_RAW_TX_INFO))" "same w w'"
proof -
  obtain ds where ds: "GetAll drv TBL_RAW_TX_INFO (watch_query highest) None MONGO_ID w = (Ok ds, w')" "infos = map MsgTxBriefInfo_of_doc ds"
    using assms by (auto simp: GetMsgTxBriefInfoByHeightRange_def andThen_eq_Ok ret_def)
  have "select None = (\<lambda>d. d)" by (simp add: select_def fun_eq_iff)
  then have "mset ds = mset (filter (matches (watch_query highest)) (docs w TBL_RAW_TX_INFO))" "same w w'"
    using GetAll_res [OF ds(1)] by simp_all
  moreover from this(1) have "set ds = set (filter (matches (watch_query highest)) (docs w TBL_RAW_TX_INFO))" by (metis set_mset_mset)
  ultimately show "set infos = MsgTxBriefInfo_of_doc ` set (filter (matches (watch_query highest)) (docs w TBL_RAW_TX_INFO))" "same w w'"
    by (simp_all add: ds(2))
qed

lemma infos_watched:
  assumes "GetMsgTxBriefInfoByHeightRange drv (sub64 highest 8) (add64 highest 1) True w = (Ok infos, w')"
  shows "Brief_Txid ` set infos = watched (docs w) highest" "same w w'"
  using infos_res [OF assms] by (simp_all add: watched_def image_image MsgTxBriefInfo_of_doc_def)

end


section \<open>Removing a transaction\<close>

context mongo
begin

lemma ClearMsgTx_res:
  assumes wf: "wf_db (docs w) (uniq w)" and db: "Db env = drv" and run: "ClearMsgTx env txid w = (Ok u, w')"
  shows "wf_db (docs w') (uniq w') \<and>
    points_of (docs w') = filter (\<lambda>p. Txid p \<noteq> txid) (points_of (docs w)) \<and>
    docs w' TBL_RAW_TX_INFO = filter (\<lambda>d. d TXID \<noteq> Some (BStr txid)) (docs w TBL_RAW_TX_INFO)"
proof -
  obtain w1 where w1: "DeleteTxPoints drv txid w = (Ok (), w1)" and w2: "DeleteMsgTx drv txid w1 = (Ok u, w')"
    using run by (auto simp: ClearMsgTx_def db andThen_eq_Ok)
  have m: "(\<lambda>d. \<not> matches [QEq TXID (BStr txid)] d) = (\<lambda>d. d TXID \<noteq> Some (BStr txid))"
    by (simp add: matches_def fun_eq_iff)
  have d1: "uniq w1 = uniq w" "docs w1 TBL_RAW_TX_INFO = docs w TBL_RAW_TX_INFO"
    "docs w1 TBL_TX_POINT = filter (\<lambda>d. d TXID \<noteq> Some (BStr txid)) (docs w TBL_TX_POINT)"
    using DeleteAll_res [OF w1 [unfolded DeleteTxPoints_def]] by (simp_all add: m)
  have d2: "uniq w' = uniq w1" "docs w' TBL_TX_POINT = docs w1 TBL_TX_POINT"
    "docs w' TBL_RAW_TX_INFO = filter (\<lambda>d. d TXID \<noteq> Some (BStr txid)) (docs w1 TBL_RAW_TX_INFO)"
    using DeleteAll_res [OF w2 [unfolded DeleteMsgTx_def]] by (simp_all add: m)
  have enc: "docs w TBL_TX_POINT = map doc_of_TxPoint (points_of (docs w))"
    unfolding points_of_def by (rule map_roundtrip) (use wf in \<open>simp add: wf_db_def\<close>)
  have "doc_of_TxPoint p TXID \<noteq> Some (BStr txid) \<longleftrightarrow> Txid p \<noteq> txid" for p by (simp add: doc_of_TxPoint_def)
  then have t: "docs w' TBL_TX_POINT = map doc_of_TxPoint (filter (\<lambda>p. Txid p \<noteq> txid) (points_of (docs w)))"
    by (simp only: d2 d1 enc filter_map comp_def)
  then have p: "points_of (docs w') = filter (\<lambda>p. Txid p \<noteq> txid) (points_of (docs w))"
    unfolding points_of_def [of "docs w'"] t by (simp add: comp_def)
  have "wf_db (docs w') (uniq w')"
    unfolding wf_db_def p using wf by (auto simp: t d2 d1 wf_db_def distinct_map_filter)
  then show ?thesis using p d1 d2 by simp
qed


section \<open>Updating the height\<close>

lemma SetMsgTxHeightHash_res:
  assumes wf: "wf_db (docs w) (uniq w)" and run: "SetMsgTxHeightHash drv txid height hash w = (Ok u, w')"
  obtains d where "d \<in> set (docs w TBL_RAW_TX_INFO)" "matches (info_key txid) d"
    "\<And>d'. d' \<in> set (docs w' TBL_RAW_TX_INFO) \<Longrightarrow> matches (info_key txid) d' \<Longrightarrow>
       d' = set_fields [(HASH, BStr hash), (HEIGHT, BInt height)] d"
    "\<And>d'. d' \<in> set (docs w TBL_RAW_TX_INFO) \<Longrightarrow> matches (info_key txid) d' \<Longrightarrow> d' = d"
proof -
  let ?R = "docs w TBL_RAW_TX_INFO" and ?f = "set_fields [(HASH, BStr hash), (HEIGHT, BInt height)]"
  obtain i where i: "i < length ?R" "matches (info_key txid) (?R ! i)" and d: "docs w' TBL_RAW_TX_INFO = ?R[i := ?f (?R ! i)]"
    using UpdateOne_res [OF run [unfolded SetMsgTxHeightHash_def]] by auto
  have inj: "inj_on raw_id (set ?R)" and dist: "distinct ?R" using wf by (simp_all add: wf_db_def distinct_map)
  have one: "d' = ?R ! i" if "d' \<in> set ?R" "matches (info_key txid) d'" for d'
    using inj i that unfolding matches_info_key by (metis inj_onD nth_mem)
  have "d' = ?f (?R ! i)" if d': "d' \<in> set (docs w' TBL_RAW_TX_INFO)" "matches (info_key txid) d'" for d'
  proof -
    obtain j where j: "j < length ?R" "d' = (if j = i then ?f (?R ! i) else ?R ! j)"
      using d'(1) unfolding d by (auto simp: in_set_conv_nth nth_list_update)
    have "?R ! j = ?R ! i" if "j \<noteq> i" using one [of "?R ! j"] j d'(2) that by simp
    then show ?thesis using j i(1) dist by (metis nth_eq_iff_index_eq)
  qed
  then show ?thesis using that [of "?R ! i"] i one by auto
qed

text \<open>The height of a transaction is not touched by work on another one.\<close>

lemma SetMsgTxHeightHash_other:
  assumes "SetMsgTxHeightHash drv x height hash w = (Ok u, w')" "x \<noteq> txid"
    and "d \<in> set (docs w' TBL_RAW_TX_INFO)" "matches (info_key txid) d"
  shows "d \<in> set (docs w TBL_RAW_TX_INFO)"
proof -
  let ?R = "docs w TBL_RAW_TX_INFO" and ?f = "set_fields [(HASH, BStr hash), (HEIGHT, BInt height)]"
  obtain i where i: "i < length ?R" "matches (info_key x) (?R ! i)" and d: "docs w' TBL_RAW_TX_INFO = ?R[i := ?f (?R ! i)]"
    using UpdateOne_res [OF assms(1) [unfolded SetMsgTxHeightHash_def]] by auto
  have "d \<noteq> ?f (?R ! i)" using i(2) assms(2,4) by (auto simp: matches_def info_key_def set_fields_def)
  then show ?thesis using assms(3) set_update_subset_insert [of ?R i "?f (?R ! i)"] unfolding d by blast
qed

end


section \<open>A transaction that returns to the mempool\<close>

definition stored_height :: "(string \<Rightarrow> doc list) \<Rightarrow> string \<Rightarrow> int \<Rightarrow> bool" where
  "stored_height db txid h \<longleftrightarrow> (\<forall>d \<in> set (db TBL_RAW_TX_INFO). matches (info_key txid) d \<longrightarrow> d HEIGHT = Some (BInt h))"

text \<open>The miner has the transaction, but in no block.\<close>

definition in_mempool :: "'w MapiClient \<Rightarrow> string \<Rightarrow> bool" where
  "in_mempool client txid \<longleftrightarrow> (\<forall>w txState w'. GetTxState client txid w = (Ok txState, w') \<longrightarrow> BlockHeight (Ts_Payload txState) = 0 \<and>
     \<not> contains (ResultDescription (Ts_Payload txState)) ''No such mempool or blockchain transaction'')"

context mongo
begin

lemma check_parks:
  assumes db: "Db (Env senv) = drv" and miner: "miner_ok docs uniq (Client senv)" and pool: "in_mempool (Client senv) txid"
  shows "CheckTxState_loop senv infos s = (Ok u, s') \<Longrightarrow> wf_db (docs (World s)) (uniq (World s)) \<Longrightarrow>
    \<forall>info \<in> set infos. Brief_Txid info = txid \<longrightarrow> Brief_Height info \<noteq> UNCONFIRM_TX_HEIGHT \<Longrightarrow>
    stored_height (docs (World s)) txid 0 \<or> txid \<in> Brief_Txid ` set infos \<Longrightarrow> stored_height (docs (World s')) txid 0"
proof (induction infos arbitrary: s)
  case Nil
  then show ?case by (simp add: ret_def)
next
  case (Cons info infos)
  let ?x = "Brief_Txid info"
  obtain txState w1 where w1: "GetTxState (Client senv) ?x (World s) = (Ok txState, w1)"
    using Cons.prems(1) by (auto simp: andThen_eq_Ok world_eq)
  let ?p = "Ts_Payload txState"
  have same1: "docs w1 = docs (World s)" "uniq w1 = uniq (World s)" using miner w1 unfolding miner_ok_def by blast+
  then have wf1: "wf_db (docs w1) (uniq w1)" using Cons.prems(2) by simp
  have mine: "BlockHeight ?p = 0" "\<not> contains (ResultDescription ?p) ''No such mempool or blockchain transaction''" if "?x = txid"
    using pool w1 that unfolding in_mempool_def by blast+
  obtain s2 where s2: "CheckTxState_loop senv infos s2 = (Ok u, s')" and wf2: "wf_db (docs (World s2)) (uniq (World s2))"
    and at: "?x = txid \<Longrightarrow> stored_height (docs (World s2)) txid 0"
    and other: "?x \<noteq> txid \<Longrightarrow> stored_height (docs (World s)) txid 0 \<Longrightarrow> stored_height (docs (World s2)) txid 0"
  proof (cases "contains (ResultDescription ?p) ''No such mempool or blockchain transaction''")
    case True
    obtain v w2 where w2: "ClearMsgTx (Env senv) ?x w1 = (Ok v, w2)"
      and rest: "CheckTxState_loop senv infos (s\<lparr>World := w2\<rparr>) = (Ok u, s')"
      using Cons.prems(1) w1 True by (auto simp: andThen_eq_Ok world_eq)
    note res = ClearMsgTx_res [OF wf1 db w2]
    have kept: "stored_height (docs w2) txid 0" if "stored_height (docs (World s)) txid 0"
      using that res same1(1) unfolding stored_height_def by simp
    have "?x \<noteq> txid" using mine(2) True by blast
    then show ?thesis using that [OF rest] res kept by simp
  next
    case False
    let ?height = "if BlockHeight ?p = 0 then UNCONFIRM_TX_HEIGHT else BlockHeight ?p"
    show ?thesis
    proof (cases "Brief_BlockHash info \<noteq> BlockHash ?p \<or> Brief_Height info \<noteq> ?height")
      case True
      obtain v w2 s2 where w2: "SetMsgTxHeightHash drv ?x (BlockHeight ?p) (BlockHash ?p) w1 = (Ok v, w2)"
        and s2: "AddNeedRecomputehashPartitionByHeight senv (Brief_Height info) (s\<lparr>World := w2\<rparr>) = (Ok (), s2)"
        and rest: "CheckTxState_loop senv infos s2 = (Ok u, s')"
        using Cons.prems(1) w1 False True by (auto simp: andThen_eq_Ok world_eq db)
      have w: "World s2 = w2" using mark_partition [OF s2] by simp
      show ?thesis
      proof (rule that [OF rest])
        show "wf_db (docs (World s2)) (uniq (World s2))" using SetMsgTxHeightHash_keeps [OF wf1 w2] w by simp
        show "stored_height (docs (World s2)) txid 0" if x: "?x = txid"
        proof -
          obtain d where d: "\<And>d'. d' \<in> set (docs w2 TBL_RAW_TX_INFO) \<Longrightarrow> matches (info_key txid) d' \<Longrightarrow>
              d' = set_fields [(HASH, BStr (BlockHash ?p)), (HEIGHT, BInt 0)] d"
            by (rule SetMsgTxHeightHash_res [OF wf1 w2 [unfolded x mine(1) [OF x]]]) blast
          have "d' HEIGHT = Some (BInt 0)" if "d' \<in> set (docs w2 TBL_RAW_TX_INFO)" "matches (info_key txid) d'" for d'
            by (subst d [OF that]) (simp add: set_fields_def)
          then show ?thesis unfolding stored_height_def w by blast
        qed
        show "stored_height (docs (World s2)) txid 0" if "?x \<noteq> txid" "stored_height (docs (World s)) txid 0"
          using SetMsgTxHeightHash_other [OF w2] that same1 w by (auto simp: stored_height_def)
      qed
    next
      case same: False
      then have "CheckTxState_loop senv infos (s\<lparr>World := w1\<rparr>) = (Ok u, s')"
        using Cons.prems(1) w1 False by (auto simp: andThen_eq_Ok world_eq)
      then show ?thesis
        by (rule that) (use wf1 same1 same mine Cons.prems(3) in \<open>auto simp: stored_height_def\<close>)
    qed
  qed
  show ?case by (rule Cons.IH [OF s2 wf2]) (use Cons.prems(3,4) at other in auto)
qed

text \<open>A transaction stored with height 0 is not watched, once the chain has nine blocks.\<close>

lemma parked_not_watched:
  assumes "stored_height db txid 0" "txid \<noteq> []" "8 < highest" "highest < max_int64"
  shows "txid \<notin> watched db highest"
proof
  assume "txid \<in> watched db highest"
  then obtain d where d: "d \<in> set (db TBL_RAW_TX_INFO)" "get_str d TXID = txid" "matches (watch_query highest) d"
    unfolding watched_def by auto
  have "matches (info_key txid) d" by (rule watch_query_key [OF d(3,2) assms(2)])
  then have "d HEIGHT = Some (BInt 0)" using assms(1) d(1) by (simp add: stored_height_def)
  moreover have "sub64 highest 8 = highest - 8" using assms(3,4) by (simp add: sub64_def wrap64_id is_int64_def)
  ultimately show False using d(3) assms(3) by (simp add: matches_def UNCONFIRM_TX_HEIGHT_def)
qed

end


section \<open>Properties\<close>

text \<open>
  Removing a transaction. A successful \<open>ClearMsgTx\<close> removes exactly the points of the
  transaction and all its recorded parts, and keeps everything else.
\<close>

theorem ClearMsgTx_removes:
  assumes "mongo (Db env) docs uniq" and "wf_db (docs w) (uniq w)" and "ClearMsgTx env txid w = (Ok u, w')"
  shows "wf_db (docs w') (uniq w') \<and>
    points_of (docs w') = filter (\<lambda>p. Txid p \<noteq> txid) (points_of (docs w)) \<and>
    txstate_of (docs w') = (txstate_of (docs w))(txid := None)"
proof -
  note r = mongo.ClearMsgTx_res [OF assms(1,2) refl assms(3)]
  have "info_docs (docs w') x = (if x = txid then [] else info_docs (docs w) x)" for x
    using r by (auto simp: info_docs_def filter_empty_conv matches_info_key raw_id_def intro!: filter_cong)
  then have "txstate_of (docs w') = (txstate_of (docs w))(txid := None)" by (auto simp: txstate_of_def fun_eq_iff)
  then show ?thesis using r by simp
qed

theorem ClearMsgTx_removes_witness:
  "points_of (mem_docs (snd (ClearMsgTx demo_env (demo_txid 1) demo_world))) = [] \<and>
   txstate_of (mem_docs (snd (ClearMsgTx demo_env (demo_txid 1) demo_world))) (demo_txid 1) = None"
proof -
  have "succeeds (ClearMsgTx demo_env (demo_txid 1) demo_world)" by code_simp
  then obtain u where run: "ClearMsgTx demo_env (demo_txid 1) demo_world =
      (Ok u, snd (ClearMsgTx demo_env (demo_txid 1) demo_world))" by (rule succeedsE)
  from ClearMsgTx_removes [OF demo_mongo demo_world_wf run] show ?thesis by (simp add: demo_point_def)
qed

text \<open>
  C38: the block hash is written to the wrong field. After a successful \<open>SetMsgTxHeightHash\<close> the
  height read back is the new one, but the block hash is still the old one:
  \<open>SetMsgTxHeightHash\<close> writes the field \<open>hash\<close> while the stored field is \<open>blockhash\<close>.
\<close>

theorem SetMsgTxHeightHash_keeps_old_hash:
  assumes "mongo drv docs uniq" and "wf_db (docs w) (uniq w)"
    and "GetMsgTxBriefInfo drv txid w = (Ok b, v)"
    and "SetMsgTxHeightHash drv txid height hash w = (Ok u, w')"
    and "GetMsgTxBriefInfo drv txid w' = (Ok b', v')"
  shows "Brief_Height b' = height \<and> Brief_BlockHash b' = Brief_BlockHash b"
proof -
  obtain d where d: "\<And>d'. d' \<in> set (docs w' TBL_RAW_TX_INFO) \<Longrightarrow> matches (info_key txid) d' \<Longrightarrow>
      d' = set_fields [(HASH, BStr hash), (HEIGHT, BInt height)] d"
    "\<And>d'. d' \<in> set (docs w TBL_RAW_TX_INFO) \<Longrightarrow> matches (info_key txid) d' \<Longrightarrow> d' = d"
    by (rule mongo.SetMsgTxHeightHash_res [OF assms(1,2,4)]) blast
  have read: "\<exists>d \<in> set (docs x TBL_RAW_TX_INFO). matches (info_key txid) d \<and> c = MsgTxBriefInfo_of_doc d"
    if "GetMsgTxBriefInfo drv txid x = (Ok c, y)" for x c y
    using that unfolding GetMsgTxBriefInfo_def andThen_eq_Ok
    by (auto simp: ret_def dest!: mongo.GetOne_res [OF assms(1)])
  obtain e e' where e: "e \<in> set (docs w TBL_RAW_TX_INFO)" "matches (info_key txid) e" "b = MsgTxBriefInfo_of_doc e"
    "e' \<in> set (docs w' TBL_RAW_TX_INFO)" "matches (info_key txid) e'" "b' = MsgTxBriefInfo_of_doc e'"
    using read [OF assms(3)] read [OF assms(5)] by blast
  have "e = d" by (rule d(2) [OF e(1,2)])
  moreover have "e' = set_fields [(HASH, BStr hash), (HEIGHT, BInt height)] d" by (rule d(1) [OF e(4,5)])
  ultimately show ?thesis
    by (simp add: e(3,6) MsgTxBriefInfo_of_doc_def set_fields_def get_int_def get_str_def)
qed

definition demo_moved :: mem where
  "demo_moved = snd (SetMsgTxHeightHash mem_mgo (demo_txid 1) 0 ''new'' demo_world)"

lemma demo_moved: "\<exists>u. SetMsgTxHeightHash mem_mgo (demo_txid 1) 0 ''new'' demo_world = (Ok u, demo_moved)"
proof -
  have "succeeds (SetMsgTxHeightHash mem_mgo (demo_txid 1) 0 ''new'' demo_world)" by code_simp
  then show ?thesis unfolding demo_moved_def by (rule succeedsE) blast
qed

theorem SetMsgTxHeightHash_keeps_old_hash_witness:
  "\<exists>b v. GetMsgTxBriefInfo mem_mgo (demo_txid 1) demo_moved = (Ok b, v) \<and> Brief_Height b = 0 \<and> Brief_BlockHash b = ''b''"
proof -
  have "succeeds (GetMsgTxBriefInfo mem_mgo (demo_txid 1) demo_world)"
    "succeeds (GetMsgTxBriefInfo mem_mgo (demo_txid 1) demo_moved)" by code_simp+
  then obtain b v b' v' where r: "GetMsgTxBriefInfo mem_mgo (demo_txid 1) demo_world = (Ok b, v)"
    "GetMsgTxBriefInfo mem_mgo (demo_txid 1) demo_moved = (Ok b', v')" by (metis succeedsE)
  have "Brief_BlockHash (case fst (GetMsgTxBriefInfo mem_mgo (demo_txid 1) demo_world) of Ok b \<Rightarrow> b) = ''b''" by code_simp
  then have "Brief_BlockHash b = ''b''" using r(1) by simp
  moreover obtain u where "SetMsgTxHeightHash mem_mgo (demo_txid 1) 0 ''new'' demo_world = (Ok u, demo_moved)"
    using demo_moved by blast
  ultimately show ?thesis
    using SetMsgTxHeightHash_keeps_old_hash [OF mem.mongo_axioms demo_world_wf r(1) _ r(2)] r(2) by auto
qed


text \<open>A miner with the same answer to every question about a transaction.\<close>

definition answering :: "string \<Rightarrow> string \<Rightarrow> int \<Rightarrow> mem MapiClient" where
  "answering result desc height = ack_client\<lparr>Json := (Json ack_client)\<lparr>JsonTxState := (\<lambda>_. Ok \<lparr>Ts_ApiVersion = [], Ts_Timestamp = [],
     ReturnResult = result, ResultDescription = desc, BlockHash = ''b'', BlockHeight = height, Ts_MinerId = [],
     Confirmations = 5, Ts_TxSecondMempoolExpiry = 0\<rparr>)\<rparr>\<rparr>"

lemma answering_GetTxState [simp]:
  "GetTxState (answering result desc height) txid w = (Ok txState, w') \<longleftrightarrow> w' = w \<and> txState = \<lparr>Ts_Payload = \<lparr>Ts_ApiVersion = [], Ts_Timestamp = [],
     ReturnResult = result, ResultDescription = desc, BlockHash = ''b'', BlockHeight = height, Ts_MinerId = [],
     Confirmations = 5, Ts_TxSecondMempoolExpiry = 0\<rparr>, Ts_CertInfo = demo_cert\<rparr>"
  by (auto simp: answering_def ack_client_def GetTxState_def go_simps attempt_def demo_client_def)

lemma answering_GetFeeQuote [simp]:
  "GetFeeQuote (answering result desc height) w = (Ok \<lparr>Fq_Payload = demo_quote, Fq_CertInfo = demo_cert\<rparr>, w)"
  by (simp add: answering_def ack_client_def GetFeeQuote_def go_simps attempt_def demo_client_def)

lemma answering_ok:
  "mapi_ok mem_docs (\<lambda>w c. set (mem_uniq w c)) (answering result desc height)"
  "miner_ok mem_docs (\<lambda>w c. set (mem_uniq w c)) (answering result desc height)"
  by (simp_all add: mapi_ok_def miner_ok_def answering_def ack_client_def demo_client_def GetFeeQuote_def GetTxState_def go_simps
      attempt_def)

text \<open>A transaction of block 895, and a miner at height 900 that has it in the mempool.\<close>

definition mempool_senv :: "(mem, byte list) senv" where
  "mempool_senv = demo_senv\<lparr>Client := answering RETURN_RESULT_SUCCESS [] 0\<rparr>"

definition mempool_server :: "mem server" where
  "mempool_server = \<lparr>World = mem_ledger [] [(demo_info 1 TX_STATE_CLOSED)\<lparr>Raw_Height := 895\<rparr>], Peers = [], NeedRecompute = []\<rparr>"


end
