(* ===== verification/Auth.thy ===== *)
theory Auth
  imports Go_Strings Config
begin

text \<open>
  Authentication of peers in \<open>src/interceptor/p2p_interceptor.go\<close>: a call carries a public key, a
  timestamp and a signature of the timestamp, and the server checks them against the
  keys it was configured with. The curve is the parameter \<open>ec_lib\<close> (package \<open>btcec\<close>); the time
  of day is an argument.
\<close>

section \<open>The code\<close>

definition KEY_PUBKEY :: string where "KEY_PUBKEY = ''pubkey''"
definition KEY_TIMESTAMP :: string where "KEY_TIMESTAMP = ''timestamp''"
definition KEY_SIGNATURE :: string where "KEY_SIGNATURE = ''signature''"

lemmas auth_keys = KEY_PUBKEY_def KEY_TIMESTAMP_def KEY_SIGNATURE_def

record ('k, 'p, 's) ec_lib =
  ParsePubKey :: "byte list \<Rightarrow> 'p res"
  ParseSignature :: "byte list \<Rightarrow> 's res"
  SigVerify :: "'s \<Rightarrow> byte list \<Rightarrow> 'p \<Rightarrow> bool"
  SignWith :: "'k \<Rightarrow> byte list \<Rightarrow> 's res"
  PubKeyOf :: "'k \<Rightarrow> 'p"
  SerializeCompressed :: "'p \<Rightarrow> byte list"
  SerializeSig :: "'s \<Rightarrow> byte list"

text \<open>\<open>now - timestamp\<close> is a 64-bit difference.\<close>

definition VerifyTimestampSig :: "('k, 'p, 's) ec_lib \<Rightarrow> int \<Rightarrow> byte list \<Rightarrow> byte list \<Rightarrow> int \<Rightarrow> unit res" where
  "VerifyTimestampSig ec now pubkeyByte sigBytes timestamp =
     (if sub64 now timestamp > 10 then Fail (Error ''sig expired'')
      else if now < timestamp then Fail (Error ''error timestamp'')
      else bind_res (ParsePubKey ec pubkeyByte) (\<lambda>pubkey.
           bind_res (ParseSignature ec sigBytes) (\<lambda>sig.
             if \<not> SigVerify ec sig (le_bytes 8 timestamp) pubkey then Fail (Error ''verify fail'') else Ok ())))"

text \<open>The metadata a client attaches; \<open>grpc\<close> delivers each value as a list.\<close>

definition GetRequestMetadata :: "('k, 'p, 's) ec_lib \<Rightarrow> 'k \<Rightarrow> int \<Rightarrow> (string \<times> string) list res" where
  "GetRequestMetadata ec privateKey timestamp =
     bind_res (SignWith ec privateKey (le_bytes 8 timestamp)) (\<lambda>sig.
       Ok [(KEY_PUBKEY, hex_encode (SerializeCompressed ec (PubKeyOf ec privateKey))),
           (KEY_TIMESTAMP, format_int timestamp),
           (KEY_SIGNATURE, hex_encode (SerializeSig ec sig))])"

type_synonym metadata = "string \<rightharpoonup> string list"

definition NewAuthInterceptor :: "PeerConfig list \<Rightarrow> string set" where
  "NewAuthInterceptor PeerConfigs = set (map Pubkey PeerConfigs)"

text \<open>\<open>v, ok := md[key]; if !ok { return msg }; v[0]\<close>; an empty list panics.\<close>

definition first_value :: "metadata \<Rightarrow> string \<Rightarrow> string \<Rightarrow> string res" where
  "first_value md key msg =
     (case md key of
        None \<Rightarrow> Fail (Error msg)
      | Some [] \<Rightarrow> Panic ''index out of range''
      | Some (v # _) \<Rightarrow> Ok v)"

definition Intercept ::
  "('k, 'p, 's) ec_lib \<Rightarrow> string set \<Rightarrow> metadata option \<Rightarrow> int \<Rightarrow> ('w, 'b) io \<Rightarrow> ('w, 'b) io" where
  "Intercept ec allowPubkeys ctx now handler =
     (case ctx of
        None \<Rightarrow> fail (Error ''not header'')
      | Some md \<Rightarrow>
          andThen (of_res (first_value md KEY_PUBKEY ''no pubkey'')) (\<lambda>pubkeyHex.
          if pubkeyHex \<notin> allowPubkeys then fail (Error ''not support pubkey'')
          else andThen (of_res (hex_decode pubkeyHex)) (\<lambda>pubkeyByte.
          andThen (of_res (first_value md KEY_SIGNATURE ''not sig'')) (\<lambda>sigHex.
          andThen (of_res (hex_decode sigHex)) (\<lambda>sigBytes.
          andThen (of_res (first_value md KEY_TIMESTAMP ''no timestamp'')) (\<lambda>timestampStr.
          andThen (of_res (parse_int timestampStr)) (\<lambda>timestamp.
          andThen (of_res (VerifyTimestampSig ec now pubkeyByte sigBytes timestamp)) (\<lambda>_.
            handler))))))))"

text \<open>What the controller takes as the identity of the peer (\<open>src/controller/p2p_controller.go\<close>).\<close>

definition GetPeerPubkey :: "metadata option \<Rightarrow> string res" where
  "GetPeerPubkey ctx =
     (case ctx of
        None \<Rightarrow> Fail (Error ''no header'')
      | Some md \<Rightarrow> first_value md KEY_PUBKEY ''no pubkey'')"


section \<open>What is documented of the curve\<close>

text \<open>Keys and signatures survive serialisation, and signatures verify.\<close>

definition ec_ok :: "('k, 'p, 's) ec_lib \<Rightarrow> bool" where
  "ec_ok ec \<longleftrightarrow>
     (\<forall>p. ParsePubKey ec (SerializeCompressed ec p) = Ok p) \<and>
     (\<forall>s. ParseSignature ec (SerializeSig ec s) = Ok s) \<and>
     (\<forall>k m s. SignWith ec k m = Ok s \<longrightarrow> SigVerify ec s m (PubKeyOf ec k))"

text \<open>
  A call of a configured peer: the key in its metadata is configured, and the signature in
  its metadata is one of the timestamp there under that key.
\<close>

definition authentic :: "('k, 'p, 's) ec_lib \<Rightarrow> string set \<Rightarrow> metadata option \<Rightarrow> string \<Rightarrow> int \<Rightarrow> bool" where
  "authentic ec allow ctx key ts \<longleftrightarrow>
     (\<exists>md sigHex tsStr keyBytes sigBytes p sig. ctx = Some md \<and> first_value md KEY_PUBKEY ''no pubkey'' = Ok key \<and>
        key \<in> allow \<and> hex_decode key = Ok keyBytes \<and> ParsePubKey ec keyBytes = Ok p \<and>
        first_value md KEY_TIMESTAMP ''no timestamp'' = Ok tsStr \<and> parse_int tsStr = Ok ts \<and>
        first_value md KEY_SIGNATURE ''not sig'' = Ok sigHex \<and> hex_decode sigHex = Ok sigBytes \<and>
        ParseSignature ec sigBytes = Ok sig \<and> SigVerify ec sig (le_bytes 8 ts) p)"

lemma VerifyTimestampSig_Ok:
  "VerifyTimestampSig ec now pk sb ts = Ok u \<longleftrightarrow> sub64 now ts \<le> 10 \<and> ts \<le> now \<and>
    (\<exists>p sig. ParsePubKey ec pk = Ok p \<and> ParseSignature ec sb = Ok sig \<and> SigVerify ec sig (le_bytes 8 ts) p)"
  by (auto simp: VerifyTimestampSig_def bind_res_eq_Ok)

lemma recent:
  assumes "is_int64 now" "0 \<le> ts" "ts \<le> now" "sub64 now ts \<le> 10"
  shows "now - ts \<le> 10"
proof -
  have "is_int64 (now - ts)" using assms(1-3) by (simp add: is_int64_def)
  then show ?thesis using assms(4) by (simp add: sub64_def wrap64_id)
qed

definition rejected :: "'w \<Rightarrow> 'b res \<times> 'w \<Rightarrow> bool" where
  "rejected w y \<longleftrightarrow> (\<exists>r. (\<forall>x. r \<noteq> Ok x) \<and> y = (r, w))"

lemma rejected_fail: "rejected w (fail e w)"
  by (auto simp: rejected_def fail_def)

lemma rejected_of_res: "(\<And>x. m = Ok x \<Longrightarrow> rejected w (f x w)) \<Longrightarrow> rejected w (andThen (of_res m) f w)"
  by (cases m) (auto simp: rejected_def andThen_def attempt_def of_res_def fail_def)

lemma rejected_if: "(b \<Longrightarrow> rejected w (m w)) \<Longrightarrow> (\<not> b \<Longrightarrow> rejected w (n w)) \<Longrightarrow> rejected w ((if b then m else n) w)"
  by simp

lemma Intercept_accepts:
  assumes "authentic ec allow ctx key ts" "ts \<le> now" "sub64 now ts \<le> 10"
  shows "Intercept ec allow ctx now handler w = handler w"
proof -
  obtain md sigHex tsStr kb sb p sig where c: "ctx = Some md" "first_value md KEY_PUBKEY ''no pubkey'' = Ok key"
    "key \<in> allow" "hex_decode key = Ok kb" "ParsePubKey ec kb = Ok p"
    "first_value md KEY_TIMESTAMP ''no timestamp'' = Ok tsStr" "parse_int tsStr = Ok ts"
    "first_value md KEY_SIGNATURE ''not sig'' = Ok sigHex" "hex_decode sigHex = Ok sb"
    "ParseSignature ec sb = Ok sig" "SigVerify ec sig (le_bytes 8 ts) p"
    using assms(1) unfolding authentic_def by blast
  then have "VerifyTimestampSig ec now kb sb ts = Ok ()" using assms(2,3) by (simp add: VerifyTimestampSig_Ok)
  then show ?thesis using c by (simp add: Intercept_def andThen_def attempt_def of_res_def)
qed

lemma Intercept_rejects:
  assumes no: "\<not> (\<exists>key ts. authentic ec allow ctx key ts \<and> ts \<le> now \<and> sub64 now ts \<le> 10)"
  shows "rejected w (Intercept ec allow ctx now handler w)"
proof (cases ctx)
  case None
  then show ?thesis by (simp add: Intercept_def rejected_fail)
next
  case (Some md)
  show ?thesis
    unfolding Intercept_def Some option.case
  proof (intro rejected_of_res rejected_if rejected_fail)
    fix key kb sigHex sb tsStr ts u
    assume "first_value md KEY_PUBKEY ''no pubkey'' = Ok key" "\<not> key \<notin> allow" "hex_decode key = Ok kb"
      "first_value md KEY_SIGNATURE ''not sig'' = Ok sigHex" "hex_decode sigHex = Ok sb"
      "first_value md KEY_TIMESTAMP ''no timestamp'' = Ok tsStr" "parse_int tsStr = Ok ts"
      "VerifyTimestampSig ec now kb sb ts = Ok u"
    then have "authentic ec allow ctx key ts \<and> ts \<le> now \<and> sub64 now ts \<le> 10"
      unfolding authentic_def VerifyTimestampSig_Ok Some by blast
    with no show "rejected w (handler w)" by blast
  qed
qed


section \<open>Properties\<close>

text \<open>
  C16: only configured peers are served. Either a call is rejected without running the handler
  and without any effect, or it runs the handler, and then the key that the handler sees as the
  identity of the peer is one of the configured keys and has signed a timestamp that is not
  in the future and, unless it is negative, at most ten seconds old.
\<close>

theorem Intercept_authentic:
  assumes "is_int64 now"
  shows "(\<exists>r. (\<forall>x. r \<noteq> Ok x) \<and> Intercept ec allow ctx now handler w = (r, w)) \<or>
    (Intercept ec allow ctx now handler w = handler w \<and>
     (\<exists>key ts. GetPeerPubkey ctx = Ok key \<and> authentic ec allow ctx key ts \<and> ts \<le> now \<and> (0 \<le> ts \<longrightarrow> now - ts \<le> 10)))"
proof (cases "\<exists>key ts. authentic ec allow ctx key ts \<and> ts \<le> now \<and> sub64 now ts \<le> 10")
  case True
  then obtain key ts where a: "authentic ec allow ctx key ts" "ts \<le> now" "sub64 now ts \<le> 10" by blast
  have "GetPeerPubkey ctx = Ok key" using a(1) by (auto simp: authentic_def GetPeerPubkey_def)
  moreover have "0 \<le> ts \<longrightarrow> now - ts \<le> 10" using recent [OF assms _ a(2,3)] by simp
  ultimately show ?thesis using a(1,2) by (intro disjI2 conjI Intercept_accepts [OF a] exI [of _ key] exI [of _ ts])
next
  case False
  from Intercept_rejects [OF this, of w handler] show ?thesis unfolding rejected_def by blast
qed


text \<open>A curve for the witnesses: a key signs by prefixing itself.\<close>

definition demo_ec :: "(byte, byte, byte list) ec_lib" where
  "demo_ec =
     \<lparr>ParsePubKey = (\<lambda>bs. case bs of [p] \<Rightarrow> Ok p | _ \<Rightarrow> Fail (Error ''malformed public key'')),
      ParseSignature = Ok, SigVerify = (\<lambda>s m p. s = p # m), SignWith = (\<lambda>k m. Ok (k # m)), PubKeyOf = (\<lambda>k. k),
      SerializeCompressed = (\<lambda>p. [p]), SerializeSig = (\<lambda>s. s)\<rparr>"

lemma demo_ec_ok: "ec_ok demo_ec"
  by (simp add: ec_ok_def demo_ec_def)

theorem Intercept_authentic_witness:
  "Intercept demo_ec {''07''} (Some [KEY_PUBKEY \<mapsto> [''08'']]) 1000 (ret ()) (5 :: nat) = (Fail (Error ''not support pubkey''), 5)"
proof -
  have "is_int64 1000" by (simp add: is_int64_def)
  from Intercept_authentic [OF this, of demo_ec "{''07''}" "Some [KEY_PUBKEY \<mapsto> [''08'']]" "ret ()" "5 :: nat"]
  show ?thesis
    by (simp add: authentic_def first_value_def GetPeerPubkey_def Intercept_def andThen_def attempt_def of_res_def fail_def)
qed

text \<open>
  C30: configured peers are served. The metadata that a peer with a configured key attaches to a
  call is accepted for ten seconds, and the handler sees the peer's key.
\<close>

theorem GetRequestMetadata_accepted:
  assumes "ec_ok ec" and "is_int64 ts" and "is_int64 now" and "ts \<le> now" and "now \<le> ts + 10"
    and "GetRequestMetadata ec k ts = Ok md"
    and "hex_encode (SerializeCompressed ec (PubKeyOf ec k)) \<in> NewAuthInterceptor cfgs"
  shows "Intercept ec (NewAuthInterceptor cfgs) (Some (\<lambda>key. map_option (\<lambda>v. [v]) (map_of md key))) now handler w = handler w \<and>
    GetPeerPubkey (Some (\<lambda>key. map_option (\<lambda>v. [v]) (map_of md key))) =
      Ok (hex_encode (SerializeCompressed ec (PubKeyOf ec k)))"
proof -
  let ?key = "hex_encode (SerializeCompressed ec (PubKeyOf ec k))" and ?ctx = "Some (\<lambda>key. map_option (\<lambda>v. [v]) (map_of md key))"
  obtain sig where sig: "SignWith ec k (le_bytes 8 ts) = Ok sig"
    and md: "md = [(KEY_PUBKEY, ?key), (KEY_TIMESTAMP, format_int ts), (KEY_SIGNATURE, hex_encode (SerializeSig ec sig))]"
    using assms(6) by (auto simp: GetRequestMetadata_def)
  have "is_int64 (now - ts)" using assms(4,5) by (simp add: is_int64_def)
  then have "sub64 now ts \<le> 10" using assms(5) by (simp add: sub64_def wrap64_id)
  moreover have "authentic ec (NewAuthInterceptor cfgs) ?ctx ?key ts"
    using assms(1,2,7) sig parse_int_format_int [OF assms(2)]
    by (simp add: authentic_def md first_value_def auth_keys ec_ok_def)
  ultimately show ?thesis
    using Intercept_accepts [OF _ assms(4)] by (simp add: GetPeerPubkey_def md first_value_def auth_keys)
qed

theorem GetRequestMetadata_accepted_witness:
  "Intercept demo_ec (NewAuthInterceptor [\<lparr>Host = [], Pubkey = hex_encode [7]\<rparr>])
     (Some (\<lambda>key. map_option (\<lambda>v. [v]) (map_of [(KEY_PUBKEY, hex_encode [7]), (KEY_TIMESTAMP, format_int 1000),
       (KEY_SIGNATURE, hex_encode (7 # le_bytes 8 1000))] key))) 1009 (ret ()) (5 :: nat) = (Ok (), 5)"
  using GetRequestMetadata_accepted [OF demo_ec_ok, of 1000 1009 7 "[(KEY_PUBKEY, hex_encode [7]), (KEY_TIMESTAMP, format_int 1000),
       (KEY_SIGNATURE, hex_encode (7 # le_bytes 8 1000))]" "[\<lparr>Host = [], Pubkey = hex_encode [7]\<rparr>]" "ret ()" "5 :: nat"]
  by (simp add: is_int64_def GetRequestMetadata_def demo_ec_def NewAuthInterceptor_def ret_def)

text \<open>
  C40: the expiry can be circumvented. The age of a signature is a 64-bit difference, which
  wraps around for timestamps far in the past: a signature of such a timestamp is accepted
  at every time.
\<close>

theorem VerifyTimestampSig_never_expires:
  assumes "0 \<le> now" and "now \<le> max_int64 - 10" and "ParsePubKey ec pk = Ok p" and "ParseSignature ec sb = Ok sig"
    and "SigVerify ec sig (le_bytes 8 (- (2 ^ 63))) p"
  shows "VerifyTimestampSig ec now pk sb (- (2 ^ 63)) = Ok ()"
proof -
  have "sub64 now (- (2 ^ 63)) = now - 2 ^ 63"
    using assms(1,2) by (simp add: sub64_def wrap64_def)
  then show ?thesis using assms by (simp add: VerifyTimestampSig_Ok)
qed

theorem VerifyTimestampSig_never_expires_witness:
  "VerifyTimestampSig demo_ec 1600000000 [7] (7 # le_bytes 8 (- (2 ^ 63))) (- (2 ^ 63)) = Ok ()"
  by (rule VerifyTimestampSig_never_expires [of _ demo_ec "[7]" 7 _ "7 # le_bytes 8 (- (2 ^ 63))"]) (simp_all add: demo_ec_def)

end
