(* ===== verification/Process.thy ===== *)
theory Process
  imports Http_Api Chain_Watch Auth
begin

text \<open>
  The running program: \<open>main\<close> of \<open>src/main.go\<close>, \<open>Init\<close> and the loops of
  \<open>src/services/touchstone_server.go\<close>, and the calls of peers in
  \<open>src/controller/p2p_controller.go\<close>. A process has the state of the server and the goroutines that
  have been started; HTTP requests, calls of peers and iterations of the loops
  interleave, one operation at a time. A panic ends the process, unless \<open>net/http\<close>
  recovers it, and the program may be started again on the same database.
\<close>

section \<open>Processes\<close>

datatype goroutine =
    GoMain
  | GoNotifiedTxs "byte list list" string
  | GoConnectPeerLoop "PeerConfig list"
  | GoSyncStateLoop
  | GoCheckTxStateLoop
  | GoSetSpentLoop

record ('w, 'k) process =
  TouchstoneServer :: "'w server"
  privateKey :: "'k option"
  Goroutines :: "goroutine list"
  Running :: bool

text \<open>The environment: what the program runs on, and its configuration.\<close>

record ('w, 'a, 'k, 'p, 's) penv =
  Senv :: "('w, 'a) senv"
  Ec :: "('k, 'p, 's) ec_lib"
  PrivKeyFromBytes :: "byte list \<Rightarrow> 'k"
  HttpJson :: http_json
  PeersConfigs :: "PeerConfig list"
  ServerPrivatekey :: string

text \<open>An operation of the server, as one of the process, and the statement \<open>go\<close>.\<close>

definition on_server :: "('w server, 'b) io \<Rightarrow> (('w, 'k) process, 'b) io" where
  "on_server m = (\<lambda>p. case m (TouchstoneServer p) of (r, s') \<Rightarrow> (r, p\<lparr>TouchstoneServer := s'\<rparr>))"

definition go :: "goroutine \<Rightarrow> (('w, 'k) process, unit) io" where
  "go g = modify (\<lambda>p. p\<lparr>Goroutines := Goroutines p @ [g]\<rparr>)"


section \<open>Calls of peers\<close>

datatype p2p_request =
    NotifyTxsRequest "byte list list"
  | GetTxsRequest "byte list list"
  | GetPartitionsHashRequest int int
  | GetUnconfirmTxidsRequest
  | GetTxidsByPartitionsRequest "int list"

datatype p2p_response = EmptyDataResponse | BytesResponse "byte list list"

definition P2pNotifyTxs :: "metadata option \<Rightarrow> byte list list \<Rightarrow> (('w, 'k) process, p2p_response) io" where
  "P2pNotifyTxs content Txids =
     andThen (of_res (GetPeerPubkey content)) (\<lambda>pubkey.
     andThen (go (GoNotifiedTxs Txids pubkey)) (\<lambda>_. ret EmptyDataResponse))"

definition P2pGetTxs :: "('w, 'a) senv \<Rightarrow> byte list list \<Rightarrow> (('w, 'k) process, p2p_response) io" where
  "P2pGetTxs senv Txids = andThen (on_server (world (GetTxs (Env senv) Txids))) (\<lambda>r. ret (BytesResponse r))"

definition P2pGetPartitionsHash :: "('w, 'a) senv \<Rightarrow> int \<Rightarrow> int \<Rightarrow> (('w, 'k) process, p2p_response) io" where
  "P2pGetPartitionsHash senv Offset Limit =
     andThen (on_server (world (GetPartitionsHash (Env senv) Offset Limit))) (\<lambda>r. ret (BytesResponse r))"

definition P2pGetUnconfirmTxids :: "('w, 'a) senv \<Rightarrow> (('w, 'k) process, p2p_response) io" where
  "P2pGetUnconfirmTxids senv = andThen (on_server (world (GetUnconfirmTxids (Env senv)))) (\<lambda>r. ret (BytesResponse r))"

definition P2pGetTxidsByPartitions :: "('w, 'a) senv \<Rightarrow> int list \<Rightarrow> (('w, 'k) process, p2p_response) io" where
  "P2pGetTxidsByPartitions senv PartitionIds =
     andThen (on_server (world (GetPartitionsTxids (Env senv) PartitionIds))) (\<lambda>r. ret (BytesResponse r))"

fun P2pHandler :: "('w, 'a) senv \<Rightarrow> metadata option \<Rightarrow> p2p_request \<Rightarrow> (('w, 'k) process, p2p_response) io" where
  "P2pHandler senv content (NotifyTxsRequest Txids) = P2pNotifyTxs content Txids"
| "P2pHandler senv content (GetTxsRequest Txids) = P2pGetTxs senv Txids"
| "P2pHandler senv content (GetPartitionsHashRequest Offset Limit) = P2pGetPartitionsHash senv Offset Limit"
| "P2pHandler senv content GetUnconfirmTxidsRequest = P2pGetUnconfirmTxids senv"
| "P2pHandler senv content (GetTxidsByPartitionsRequest PartitionIds) = P2pGetTxidsByPartitions senv PartitionIds"

text \<open>The server of \<open>StartP2pServer\<close>: \<open>Intercept\<close> is called at time \<open>now\<close> around the handler.\<close>

definition P2pServe ::
  "('w, 'a, 'k, 'p, 's) penv \<Rightarrow> metadata option \<Rightarrow> int \<Rightarrow> p2p_request \<Rightarrow> (('w, 'k) process, p2p_response) io" where
  "P2pServe penv content now request =
     Intercept (Ec penv) (NewAuthInterceptor (PeersConfigs penv)) content now (P2pHandler (Senv penv) content request)"


section \<open>Start and loops\<close>

definition SetPrivateKey :: "('w, 'a, 'k, 'p, 's) penv \<Rightarrow> (('w, 'k) process, unit) io" where
  "SetPrivateKey penv =
     andThen (of_res (hex_decode (ServerPrivatekey penv))) (\<lambda>keyByte.
       modify (\<lambda>p. p\<lparr>privateKey := Some (PrivKeyFromBytes penv keyByte)\<rparr>))"

definition Init :: "('w, 'a, 'k, 'p, 's) penv \<Rightarrow> (('w, 'k) process, unit) io" where
  "Init penv =
     andThen (SetPrivateKey penv) (\<lambda>_.
     andThen (attempt (on_server (ConnectPeer (Senv penv) (PeersConfigs penv)))
       (\<lambda>_. go (GoConnectPeerLoop (PeersConfigs penv))) ret) (\<lambda>_.
     andThen (go GoSyncStateLoop) (\<lambda>_.
     andThen (go GoCheckTxStateLoop) (\<lambda>_.
       go GoSetSpentLoop))))"

text \<open>One round of each loop, up to the pause; the result tells whether the loop goes on.\<close>

definition ConnectPeerLoop :: "('w, 'a) senv \<Rightarrow> PeerConfig list \<Rightarrow> (('w, 'k) process, bool) io" where
  "ConnectPeerLoop senv peerConfigs = attempt (on_server (ConnectPeer senv peerConfigs)) (\<lambda>_. ret True) (\<lambda>_. ret False)"

definition SetSpentLoop :: "('w, 'a) senv \<Rightarrow> (('w, 'k) process, bool) io" where
  "SetSpentLoop senv =
     andThen (on_server (effect (Now (Runtime senv)))) (\<lambda>now.
     attempt (on_server (world (SetSpent (Env senv) (Client senv) now))) (\<lambda>_. ret True) (\<lambda>_. ret True))"

definition SyncStateLoop :: "('w, 'a) senv \<Rightarrow> (('w, 'k) process, bool) io" where
  "SyncStateLoop senv = attempt (on_server (SyncState senv True)) (\<lambda>_. ret True) (\<lambda>_. ret True)"

definition CheckTxStateLoop :: "('w, 'a) senv \<Rightarrow> (('w, 'k) process, bool) io" where
  "CheckTxStateLoop senv = attempt (on_server (CheckTxState senv)) (\<lambda>_. ret True) (\<lambda>_. ret True)"

text \<open>The end of \<open>main\<close>: an error of \<open>Init\<close> is a panic; afterwards \<open>main\<close> only sleeps.\<close>

definition main_init :: "('w, 'a, 'k, 'p, 's) penv \<Rightarrow> (('w, 'k) process, bool) io" where
  "main_init penv = attempt (Init penv) (\<lambda>err. of_res (Panic (err_str err))) (\<lambda>_. ret False)"

text \<open>What a goroutine does until it sleeps or ends.\<close>

fun iterate :: "('w, 'a, 'k, 'p, 's) penv \<Rightarrow> goroutine \<Rightarrow> (('w, 'k) process, bool) io" where
  "iterate penv GoMain = main_init penv"
| "iterate penv (GoNotifiedTxs Txids pubkey) =
     andThen (on_server (NotifiedTxs (Senv penv) Txids pubkey)) (\<lambda>_. ret False)"
| "iterate penv (GoConnectPeerLoop cfgs) = ConnectPeerLoop (Senv penv) cfgs"
| "iterate penv GoSyncStateLoop = SyncStateLoop (Senv penv)"
| "iterate penv GoCheckTxStateLoop = CheckTxStateLoop (Senv penv)"
| "iterate penv GoSetSpentLoop = SetSpentLoop (Senv penv)"

lemmas loop_defs = ConnectPeerLoop_def SetSpentLoop_def SyncStateLoop_def CheckTxStateLoop_def main_init_def

text \<open>\<open>main\<close> up to the start of the servers, on the database as it is.\<close>

definition start :: "'w \<Rightarrow> ('w, 'k) process" where
  "start w = \<lparr>TouchstoneServer = new_server w, privateKey = None, Goroutines = [GoMain], Running = True\<rparr>"

text \<open>The result of an operation in a goroutine of its own: a panic ends the process.\<close>

definition after :: "'b res \<Rightarrow> ('w, 'k) process \<Rightarrow> ('w, 'k) process" where
  "after r p = (case r of Stop _ \<Rightarrow> p\<lparr>Running := False\<rparr> | _ \<Rightarrow> p)"

text \<open>Goroutine \<open>g\<close>, taken out of \<open>gs1 @ g # gs2\<close>, is put back if it goes on; what it starts comes last.\<close>

definition schedule ::
  "('w, 'a, 'k, 'p, 's) penv \<Rightarrow> goroutine list \<Rightarrow> goroutine \<Rightarrow> goroutine list \<Rightarrow> ('w, 'k) process \<Rightarrow> ('w, 'k) process" where
  "schedule penv gs1 g gs2 p =
     (case iterate penv g (p\<lparr>Goroutines := gs1 @ gs2\<rparr>) of
        (r, p') \<Rightarrow> after r (if r = Ok True then p'\<lparr>Goroutines := g # Goroutines p'\<rparr> else p'))"

inductive process_step :: "('w, 'a, 'k, 'p, 's) penv \<Rightarrow> ('w, 'k) process \<Rightarrow> ('w, 'k) process \<Rightarrow> bool" for penv where
  http: "Running p \<Longrightarrow> (path, m) \<in> set (routes (Senv penv) (HttpJson penv) body) \<Longrightarrow> on_server m p = (rh, p') \<Longrightarrow>
    process_step penv p p'"
| p2p: "Running p \<Longrightarrow> P2pServe penv content now request p = (rp, p') \<Longrightarrow> process_step penv p (after rp p')"
| goroutine: "Running p \<Longrightarrow> Goroutines p = gs1 @ g # gs2 \<Longrightarrow> process_step penv p (schedule penv gs1 g gs2 p)"
| kill: "process_step penv p (p\<lparr>Running := False\<rparr>)"
| restart: "\<not> Running p \<Longrightarrow> CreateIndexes (Db (Env (Senv penv))) (World (TouchstoneServer p)) = (Ok (), w') \<Longrightarrow>
    process_step penv p (start w')"
| restart_fails: "\<not> Running p \<Longrightarrow> CreateIndexes (Db (Env (Senv penv))) (World (TouchstoneServer p)) = (r, w') \<Longrightarrow>
    \<forall>u. r \<noteq> Ok u \<Longrightarrow> process_step penv p (p\<lparr>TouchstoneServer := new_server w'\<rparr>)"

text \<open>The program before it is first started.\<close>

definition stopped :: "'w \<Rightarrow> ('w, 'k) process" where
  "stopped w = (start w)\<lparr>Running := False\<rparr>"


section \<open>Following the chain\<close>

text \<open>
  A miner that knows some transactions: asked about one of them, it does not answer with the message on which
  \<open>CheckTxState\<close> removes a transaction. About other transactions it may say anything.
\<close>

definition knows :: "'w MapiClient \<Rightarrow> string set \<Rightarrow> bool" where
  "knows client txids \<longleftrightarrow> (\<forall>txid \<in> txids. \<forall>w txState w'. GetTxState client txid w = (Ok txState, w') \<longrightarrow>
     \<not> contains (ResultDescription (Ts_Payload txState)) ''No such mempool or blockchain transaction'')"

abbreviation txids_of :: "('w, 'a) senv \<Rightarrow> MsgTx set \<Rightarrow> string set" where
  "txids_of senv S \<equiv> TxHash (TxL (Env senv)) ` S"

text \<open>\<open>CheckTxState\<close> only asks about recorded transactions, so about transactions of the chain.\<close>

lemma watched_chain: "raw_ok lib S db \<Longrightarrow> watched db highest \<subseteq> TxHash lib ` S"
  by (fastforce simp: watched_def raw_ok_def get_str_def)

context node
begin

lemma height_res:
  assumes wf: "wf_store (TxL (Env senv)) S (docs w) (uniq w)"
    and run: "SetMsgTxHeightHash (Db (Env senv)) txid height hash w = (r, w')"
  shows "wf_store (TxL (Env senv)) S (docs w') (uniq w')" and "uniq w' = uniq w"
    and "c \<noteq> TBL_RAW_TX_INFO \<Longrightarrow> docs w' c = docs w c"
    and "map raw_id (docs w' TBL_RAW_TX_INFO) = map raw_id (docs w TBL_RAW_TX_INFO)"
proof -
  let ?R = "docs w TBL_RAW_TX_INFO" and ?u = "[(HASH, BStr hash), (HEIGHT, BInt height)]"
  note up = UpdateOne_res [OF run [unfolded SetMsgTxHeightHash_def]]
  have raw: "raw_ok (TxL (Env senv)) S (docs w)" using wf by (simp add: wf_store_def)
  show un: "uniq w' = uniq w" using up by (cases r) simp_all
  show c: "docs w' c = docs w c" if "c \<noteq> TBL_RAW_TX_INFO" for c using up that by (cases r) auto
  have *: "raw_ok (TxL (Env senv)) S (docs w') \<and> map raw_id (docs w' TBL_RAW_TX_INFO) = map raw_id ?R"
  proof (cases r)
    case (Ok u)
    then obtain i where i: "i < length ?R" "matches (info_key txid) (?R ! i)"
      and d: "docs w' = (docs w)(TBL_RAW_TX_INFO := ?R[i := set_fields ?u (?R ! i)])" using up by auto
    have u: "TXID \<notin> fst ` set ?u" "INDEX \<notin> fst ` set ?u" by simp_all
    have "raw_ok (TxL (Env senv)) S (docs w')" by (rule raw_ok_update [OF raw i u]) (simp add: d)
    then show ?thesis by (simp add: d map_update_same raw_id_set_fields)
  qed (use up raw in simp_all)
  then show "map raw_id (docs w' TBL_RAW_TX_INFO) = map raw_id ?R" ..
  show "wf_store (TxL (Env senv)) S (docs w') (uniq w')"
    using wf un c * by (simp add: wf_store_def wf_db_def points_of_def)
qed

end

context chain_node
begin

lemma height_service: "keeps (service_inv (Env senv) S docs uniq) (SetMsgTxHeightHash (Db (Env senv)) txid height hash)"
proof (rule keepsI)
  fix w r w'
  assume w: "service_inv (Env senv) S docs uniq w" and run: "SetMsgTxHeightHash (Db (Env senv)) txid height hash w = (r, w')"
  then have "wf_store (TxL (Env senv)) S (docs w) (uniq w)" by (simp add: service_inv_def store_inv_def)
  note res = height_res [OF this run]
  show "service_inv (Env senv) S docs uniq w'"
    using w res by (simp add: service_inv_def store_inv_def wf_store_def ledger_inv_def wf_addrs_def wf_parts_def
        points_of_def addrs_of_def parts_of_def)
qed

lemma check_loop_service:
  assumes known: "knows (Client senv) (txids_of senv S)"
  shows "Brief_Txid ` set infos \<subseteq> txids_of senv S \<Longrightarrow>
    keeps (node_inv docs uniq (service_inv (Env senv) S docs uniq)) (CheckTxState_loop senv infos)"
proof (induction infos)
  case (Cons info infos)
  have "Brief_Txid info \<in> txids_of senv S" using Cons.prems by simp
  then have "\<not> contains (ResultDescription (Ts_Payload txState)) ''No such mempool or blockchain transaction''"
    if "world (GetTxState (Client senv) (Brief_Txid info)) s = (Ok txState, s')" for s txState s'
    using that known unfolding world_eq knows_def by blast
  moreover have "Brief_Txid ` set infos \<subseteq> txids_of senv S" using Cons.prems by simp
  ultimately show ?case
    unfolding CheckTxState_loop.simps
    by (intro keeps_andThen_res) (intro keeps_intros keeps_net service.I_db, simp only: if_False, intro keeps_intros height_service Cons.IH)
qed (simp add: keeps_intros)

lemma check_service:
  assumes "knows (Client senv) (txids_of senv S)"
  shows "keeps (node_inv docs uniq (service_inv (Env senv) S docs uniq)) (CheckTxState senv)"
  unfolding CheckTxState_def Let_def
proof (intro keeps_andThen [of _ "world (GetFeeQuote (Client senv))"] keeps_node_world keeps_net service.I_db keeps_andThen_res service.read_only)
  fix feeQuote s infos s'
  let ?h = "CurrentHighestBlockHeight (Fq_Payload feeQuote)"
  assume s: "node_inv docs uniq (service_inv (Env senv) S docs uniq) s"
    and "world (GetMsgTxBriefInfoByHeightRange (Db (Env senv)) (sub64 ?h 8) (add64 ?h 1) True) s = (Ok infos, s')"
  then have "Brief_Txid ` set infos = watched (docs (World s)) ?h" by (auto simp: world_eq dest: infos_watched(1))
  moreover have "raw_ok (TxL (Env senv)) S (docs (World s))"
    using s by (simp add: node_inv_def service_inv_def store_inv_def wf_store_def)
  ultimately have "Brief_Txid ` set infos \<subseteq> txids_of senv S" by (simp add: watched_chain)
  then show "keeps (node_inv docs uniq (service_inv (Env senv) S docs uniq)) (CheckTxState_loop senv infos)"
    by (rule check_loop_service [OF assms])
qed (intro keeps_intros)

end


section \<open>The ledger under a process\<close>

lemma on_server_eq: "on_server m p = (r, p') \<longleftrightarrow> (\<exists>s'. m (TouchstoneServer p) = (r, s') \<and> p' = p\<lparr>TouchstoneServer := s'\<rparr>)"
  by (auto simp: on_server_def split: prod.splits)

lemma keeps_server [keeps_intros]: "keeps I m \<Longrightarrow> keeps (\<lambda>p. I (TouchstoneServer p)) (on_server m)"
  by (rule keepsI) (auto simp: on_server_eq dest: keepsD)

lemma keeps_go [keeps_intros]: "keeps (\<lambda>p. I (TouchstoneServer p)) (go g)"
  unfolding go_def by (rule keeps_modify) simp

lemma keeps_Intercept [keeps_intros]: "keeps I handler \<Longrightarrow> keeps I (Intercept ec allow ctx now handler)"
  unfolding Intercept_def by (intro keeps_intros)

lemma after_simps [simp]:
  "TouchstoneServer (after r p) = TouchstoneServer p" "Goroutines (after r p) = Goroutines p" "privateKey (after r p) = privateKey p"
  "Running (after r p) \<longleftrightarrow> Running p \<and> (\<forall>x. r \<noteq> Stop x)"
  by (auto simp: after_def split: res.split)

text \<open>Before the first successful start there may be some of the indexes, but nothing else.\<close>

definition db_ok ::
  "('w \<Rightarrow> string \<Rightarrow> doc list) \<Rightarrow> ('w \<Rightarrow> string \<Rightarrow> string list set) \<Rightarrow> ('w \<Rightarrow> bool) \<Rightarrow> 'w \<Rightarrow> bool" where
  "db_ok docs uniq I w \<longleftrightarrow> I w \<or> (docs w = (\<lambda>c. []) \<and> (\<forall>c. uniq w c \<subseteq> indexes c))"

definition process_inv ::
  "('w \<Rightarrow> string \<Rightarrow> doc list) \<Rightarrow> ('w \<Rightarrow> string \<Rightarrow> string list set) \<Rightarrow> ('w \<Rightarrow> bool) \<Rightarrow> ('w, 'k) process \<Rightarrow> bool" where
  "process_inv docs uniq I p \<longleftrightarrow>
     (if Running p then node_inv docs uniq I (TouchstoneServer p) else db_ok docs uniq I (World (TouchstoneServer p)))"

abbreviation collections :: "string set" where
  "collections \<equiv> {TBL_TX_POINT, TBL_RAW_TX_INFO, TBL_ADDR_INFO, TBL_PARTITION_INFO}"

text \<open>
  What an invariant of the server needs to be one of the running program: following the chain keeps it, it
  holds of a fresh database, and it looks at no other indexes than those that are created at startup.
\<close>

locale process_node = node_invariant senv docs uniq I
  for senv :: "('w, 'a) senv" and docs :: "'w \<Rightarrow> string \<Rightarrow> doc list" and uniq :: "'w \<Rightarrow> string \<Rightarrow> string list set"
    and I :: "'w \<Rightarrow> bool" +
  assumes I_check: "keeps (node_inv docs uniq I) (CheckTxState senv)"
    and I_fresh: "docs w = (\<lambda>c. []) \<Longrightarrow> uniq w = indexes \<Longrightarrow> I w"
    and I_indexes: "I w \<Longrightarrow> c \<in> collections \<Longrightarrow> uniq w c = indexes c"
    and I_collections: "docs w' = docs w \<Longrightarrow> \<forall>c \<in> collections. uniq w' c = uniq w c \<Longrightarrow> I w \<Longrightarrow> I w'"
begin

abbreviation served :: "('w, 'k) process \<Rightarrow> bool" where
  "served p \<equiv> node_inv docs uniq I (TouchstoneServer p)"

lemma p2p_served: "Senv penv = senv \<Longrightarrow> keeps served (P2pServe penv content now request)"
  unfolding P2pServe_def
  by (cases request)
     (simp_all add: P2pNotifyTxs_def P2pGetTxs_def P2pGetPartitionsHash_def P2pGetUnconfirmTxids_def
        P2pGetTxidsByPartitions_def; intro keeps_intros keeps_answers)+

lemma init_served: "Senv penv = senv \<Longrightarrow> keeps served (Init penv)"
proof -
  have "keeps served (SetPrivateKey penv)"
    unfolding SetPrivateKey_def by (intro keeps_intros keeps_modify) simp
  then show "Senv penv = senv \<Longrightarrow> keeps served (Init penv)"
    unfolding Init_def by (intro keeps_intros) (simp_all add: keeps_ConnectPeer)
qed

lemma iterate_served:
  assumes "Senv penv = senv"
  shows "keeps served (iterate penv g)"
  using assms init_served [OF assms(1)]
  by (cases g; simp add: loop_defs;
      intro keeps_intros keeps_NotifiedTxs keeps_ConnectPeer keeps_SyncState I_check keeps_net I_db I_spent)

lemma schedule_served:
  assumes "Senv penv = senv" "served p"
  shows "served (schedule penv gs1 g gs2 p)"
proof -
  obtain r p' where run: "iterate penv g (p\<lparr>Goroutines := gs1 @ gs2\<rparr>) = (r, p')" by fastforce
  have "served p'" using keepsD [OF iterate_served [OF assms(1)] run] assms(2) by simp
  then show ?thesis by (simp add: schedule_def run)
qed

lemma start_db:
  assumes "CreateIndexes (Db (Env senv)) w = (r, w')" "db_ok docs uniq I w"
  shows "db_ok docs uniq I w'" "r = Ok () \<Longrightarrow> I w'"
proof -
  note res = CreateIndexes_res [OF assms(1)]
  have "(r = Ok () \<longrightarrow> I w') \<and> db_ok docs uniq I w'"
  proof (cases "I w")
    case True
    have "\<forall>c \<in> collections. uniq w' c = uniq w c" using res I_indexes [OF True] by blast
    then have "I w'" using I_collections [OF _ _ True] res by blast
    then show ?thesis by (simp add: db_ok_def)
  next
    case False
    then have w: "docs w = (\<lambda>c. [])" "\<And>c. uniq w c \<subseteq> indexes c" using assms(2) by (simp_all add: db_ok_def)
    have w': "docs w' = (\<lambda>c. [])" using res w(1) by simp
    have u': "uniq w' c \<subseteq> indexes c" for c using res w(2) [of c] by blast
    have "I w'" if "r = Ok ()"
      by (rule I_fresh [OF w']) (use res u' that in \<open>simp add: fun_eq_iff set_eq_subset\<close>)
    then show ?thesis using w' u' by (simp add: db_ok_def)
  qed
  then show "db_ok docs uniq I w'" "r = Ok () \<Longrightarrow> I w'" by simp_all
qed

lemma process_step_inv:
  assumes "process_step penv p p'" "Senv penv = senv" "process_inv docs uniq I p"
  shows "process_inv docs uniq I p'"
proof -
  have served: "process_inv docs uniq I q" if "served q" for q :: "('w, 'k) process"
    using that by (simp add: process_inv_def db_ok_def node_inv_def)
  from assms(1) show ?thesis
  proof cases
    case (http path m body rh)
    then have "served p'"
      using keepsD [OF keeps_server [OF routes_keep]] assms(2,3) by (simp add: process_inv_def)
    then show ?thesis by (rule served)
  next
    case (p2p content now request rp q)
    then have "served q" using keepsD [OF p2p_served [OF assms(2)]] assms(3) by (simp add: process_inv_def)
    then show ?thesis unfolding p2p by (intro served) simp
  next
    case (goroutine gs1 g gs2)
    then have "served p" using assms(3) by (simp add: process_inv_def)
    then show ?thesis unfolding goroutine by (intro served schedule_served assms(2))
  next
    case kill
    then show ?thesis using assms(3) by (auto simp: process_inv_def node_inv_def db_ok_def split: if_splits)
  next
    case (restart w')
    then show ?thesis
      using start_db(2) assms(2,3) by (auto simp: process_inv_def start_def node_inv_def new_server_def peers_ok_def)
  next
    case (restart_fails r w')
    then show ?thesis using start_db(1) assms(2,3) by (auto simp: process_inv_def new_server_def)
  qed
qed

lemma process_reachable:
  assumes "(process_step penv)\<^sup>*\<^sup>* (stopped w) p" "Senv penv = senv"
    and "docs w = (\<lambda>c. [])" "uniq w = (\<lambda>c. {})"
  shows "db_ok docs uniq I (World (TouchstoneServer p))"
proof -
  have "process_inv docs uniq I p"
    using assms(1)
  proof (induction rule: rtranclp_induct)
    case base
    show ?case using assms(3,4) by (simp add: process_inv_def stopped_def start_def new_server_def db_ok_def)
  qed (rule process_step_inv [OF _ assms(2)])
  then show ?thesis by (auto simp: process_inv_def node_inv_def db_ok_def split: if_splits)
qed

end

text \<open>The invariant of the service is one of the program, as long as the miner knows the transactions of the chain.\<close>

locale known_node = chain_node senv docs uniq S
  for senv :: "('w, 'a) senv" and docs :: "'w \<Rightarrow> string \<Rightarrow> doc list" and uniq :: "'w \<Rightarrow> string \<Rightarrow> string list set" and S :: "MsgTx set" +
  assumes known: "knows (Client senv) (txids_of senv S)"

sublocale known_node \<subseteq> running: process_node senv docs uniq "service_inv (Env senv) S docs uniq"
proof (unfold_locales, goal_cases)
  case 1
  show ?case by (rule check_service [OF known])
next
  case (2 w)
  then show ?case by (rule fresh_service)
next
  case (3 w c)
  then show ?case
    by (auto simp: service_inv_def store_inv_def wf_store_def wf_db_def wf_addrs_def wf_parts_def indexes_def)
next
  case (4 w' w)
  then show ?case
    by (simp add: service_inv_def store_inv_def wf_store_def ledger_inv_def wf_db_def wf_addrs_def wf_parts_def)
qed


context known_node
begin

lemmas program_reachable = running.process_reachable

lemmas program_node = running.process_node_axioms

end


text \<open>What the invariant says, before and after the first start.\<close>

lemma db_ok_means:
  assumes "db_ok docs uniq (service_inv (Env senv) S docs uniq) w" "chain_ok senv S"
  shows "0 \<le> balance (points_of (docs w)) a c \<and>
    balance (points_of (docs w)) a c \<le> total_supply (points_of (docs w)) c \<and>
    total_supply (points_of (docs w)) c \<le> MAX_CREATE_BADGE_VALUE \<and>
    marks_ok (points_of (docs w)) \<and> raw_ok (TxL (Env senv)) S (docs w) \<and>
    distinct (map Info_Addr (addrs_of (docs w))) \<and> distinct (map Part_Id (parts_of (docs w)))"
proof (cases "docs w = (\<lambda>c. [])")
  case True
  then show ?thesis
    by (simp add: points_of_def addrs_of_def parts_of_def marks_ok_def raw_ok_def balance_def total_supply_def
        MAX_CREATE_BADGE_VALUE_def)
next
  case False
  then have "service_inv (Env senv) S docs uniq w" using assms(1) by (simp add: db_ok_def)
  then show ?thesis by (rule service_inv_means [OF _ assms(2)])
qed


section \<open>The goroutines of a process\<close>

fun is_job :: "goroutine \<Rightarrow> bool" where
  "is_job (GoNotifiedTxs Txids pubkey) = False"
| "is_job g = True"

definition jobs :: "('w, 'k) process \<Rightarrow> goroutine multiset" where
  "jobs p = mset (filter is_job (Goroutines p))"

definition background :: "goroutine multiset" where
  "background = {#GoSyncStateLoop, GoCheckTxStateLoop, GoSetSpentLoop#}"

definition jobs_ok :: "('w, 'a, 'k, 'p, 's) penv \<Rightarrow> ('w, 'k) process \<Rightarrow> bool" where
  "jobs_ok penv p \<longleftrightarrow>
     (\<forall>ids key. GoNotifiedTxs ids key \<in> set (Goroutines p) \<longrightarrow> key \<in> NewAuthInterceptor (PeersConfigs penv)) \<and>
     (jobs p = {#GoMain#} \<or> privateKey p \<noteq> None \<and>
        (jobs p = background \<or> jobs p = add_mset (GoConnectPeerLoop (PeersConfigs penv)) background))"

lemma jobs_ok_cong:
  assumes "mset (Goroutines q) = mset (Goroutines p)" "privateKey q = privateKey p"
  shows "jobs_ok penv q \<longleftrightarrow> jobs_ok penv p"
  unfolding jobs_ok_def jobs_def mset_filter set_mset_mset [symmetric] assms ..

lemma keeps_threads:
  "keeps (\<lambda>p. Goroutines p = gs \<and> privateKey p = k) (on_server m)"
  by (rule keepsI) (auto simp: on_server_eq)

lemma iterate_threads:
  assumes "g \<noteq> GoMain" "iterate penv g p = (r, p')"
  shows "Goroutines p' = Goroutines p \<and> privateKey p' = privateKey p"
proof -
  have "keeps (\<lambda>q. Goroutines q = Goroutines p \<and> privateKey q = privateKey p) (iterate penv g)"
    using assms(1) by (cases g; simp add: loop_defs; intro keeps_attempt keeps_andThen keeps_ret keeps_threads)
  from keepsD [OF this assms(2)] show ?thesis by simp
qed

lemma attempt_always: "attempt m (\<lambda>_. ret x) (\<lambda>_. ret x) s = (r, s') \<Longrightarrow> r = Ok x \<or> (\<exists>z. r = Stop z)"
  by (erule attempt_eqE) (auto simp: ret_def)

lemma iterate_goes_on:
  assumes "g \<in># background" "iterate penv g p = (r, p')"
  shows "r = Ok True \<or> (\<exists>z. r = Stop z)"
proof (cases "g = GoSetSpentLoop")
  case True
  from assms(2) [unfolded True iterate.simps loop_defs] show ?thesis
    by (cases rule: andThen_eqE) (auto simp: on_server_eq effect_eq dest: attempt_always)
next
  case False
  then have "g = GoSyncStateLoop \<or> g = GoCheckTxStateLoop" using assms(1) by (auto simp: background_def)
  then show ?thesis using assms(2) by (elim disjE) (auto simp: loop_defs dest: attempt_always)
qed

lemma Init_threads:
  assumes "Init penv p = (Ok u, p')"
  shows "privateKey p' \<noteq> None \<and> (\<exists>connect \<in> {[], [GoConnectPeerLoop (PeersConfigs penv)]}.
    Goroutines p' = Goroutines p @ connect @ [GoSyncStateLoop, GoCheckTxStateLoop, GoSetSpentLoop])"
proof -
  obtain p1 p2 where p1: "SetPrivateKey penv p = (Ok (), p1)"
    and p2: "attempt (on_server (ConnectPeer (Senv penv) (PeersConfigs penv)))
        (\<lambda>_. go (GoConnectPeerLoop (PeersConfigs penv))) ret p1 = (Ok (), p2)"
    and p': "p' = p2\<lparr>Goroutines := Goroutines p2 @ [GoSyncStateLoop, GoCheckTxStateLoop, GoSetSpentLoop]\<rparr>"
    using assms unfolding Init_def by (auto simp: andThen_eq_Ok go_def modify_def)
  have "privateKey p1 \<noteq> None" "Goroutines p1 = Goroutines p"
    using p1 by (auto simp: SetPrivateKey_def andThen_eq_Ok modify_def of_res_def)
  moreover have "privateKey p2 = privateKey p1 \<and> (\<exists>connect \<in> {[], [GoConnectPeerLoop (PeersConfigs penv)]}.
      Goroutines p2 = Goroutines p1 @ connect)"
    using p2 by (cases rule: attempt_eqE) (auto simp: on_server_eq go_def modify_def ret_def)
  ultimately show ?thesis by (auto simp: p')
qed

lemma iterate_main:
  assumes "iterate penv GoMain p = (r, p')"
  obtains z where "r = Stop z" | u where "r = Ok False" "Init penv p = (Ok u, p')"
  using assms unfolding iterate.simps loop_defs by (cases rule: attempt_eqE) (auto simp: of_res_def ret_def)

lemma schedule_jobs:
  assumes "jobs_ok penv p" "Goroutines p = gs1 @ g # gs2" "Running (schedule penv gs1 g gs2 p)"
  shows "jobs_ok penv (schedule penv gs1 g gs2 p)"
proof -
  let ?p = "p\<lparr>Goroutines := gs1 @ gs2\<rparr>"
  obtain r p' where run: "iterate penv g ?p = (r, p')" by fastforce
  have sched: "schedule penv gs1 g gs2 p = after r (if r = Ok True then p'\<lparr>Goroutines := g # Goroutines p'\<rparr> else p')"
    by (simp add: schedule_def run)
  have alive: "r \<noteq> Stop z" for z using assms(3) by (auto simp: sched)
  show ?thesis
  proof (cases "g = GoMain")
    case True
    obtain u where main: "r = Ok False" "Init penv ?p = (Ok u, p')"
      using iterate_main [OF run [unfolded True]] alive by metis
    have "GoMain \<in># jobs p" using assms(2) True by (simp add: jobs_def)
    moreover have "GoMain \<notin># add_mset (GoConnectPeerLoop (PeersConfigs penv)) background" "GoMain \<notin># background"
      by (simp_all add: background_def)
    ultimately have "jobs p = {#GoMain#}" using assms(1) unfolding jobs_ok_def by metis
    then have "filter is_job gs1 = []" "filter is_job gs2 = []" using assms(2) True by (simp_all add: jobs_def)
    then have "mset (filter is_job (gs1 @ gs2)) = {#}" by simp
    moreover have "\<forall>ids key. GoNotifiedTxs ids key \<in> set (gs1 @ gs2) \<longrightarrow> key \<in> NewAuthInterceptor (PeersConfigs penv)"
      using assms(1,2) by (auto simp: jobs_ok_def)
    moreover obtain connect where "connect \<in> {[], [GoConnectPeerLoop (PeersConfigs penv)]}" "privateKey p' \<noteq> None"
      "Goroutines p' = (gs1 @ gs2) @ connect @ [GoSyncStateLoop, GoCheckTxStateLoop, GoSetSpentLoop]"
      using Init_threads [OF main(2)] by auto
    ultimately show ?thesis by (auto simp: sched main(1) jobs_ok_def jobs_def background_def simp del: filter_append)
  next
    case False
    note kept = iterate_threads [OF False run]
    have on: "r = Ok True" if "g \<in># background" using iterate_goes_on [OF that run] alive by blast
    show ?thesis
    proof (cases "r = Ok True")
      case True
      then show ?thesis using jobs_ok_cong [of "schedule penv gs1 g gs2 p" p penv] assms(1,2) kept by (simp add: sched)
    next
      case stop: False
      have left: "jobs p = (if is_job g then add_mset g (jobs p') else jobs p')" using assms(2) kept by (simp add: jobs_def)
      have known: "\<forall>ids key. GoNotifiedTxs ids key \<in> set (Goroutines p') \<longrightarrow> key \<in> NewAuthInterceptor (PeersConfigs penv)"
        using assms(1,2) kept by (auto simp: jobs_ok_def)
      have same: "jobs (schedule penv gs1 g gs2 p) = jobs p'" "privateKey (schedule penv gs1 g gs2 p) = privateKey p"
        "Goroutines (schedule penv gs1 g gs2 p) = Goroutines p'"
        using stop kept by (simp_all add: sched jobs_def)
      show ?thesis
      proof (cases "is_job g")
        case True
        have "jobs p \<noteq> {#GoMain#}" using left True False by auto
        moreover have "g \<notin># background" using on stop by blast
        then have "jobs p \<noteq> background" using left True by (metis union_single_eq_member)
        ultimately have p: "privateKey p \<noteq> None" "add_mset g (jobs p') = add_mset (GoConnectPeerLoop (PeersConfigs penv)) background"
          using assms(1) left True by (auto simp: jobs_ok_def)
        then have "g = GoConnectPeerLoop (PeersConfigs penv)"
          using \<open>g \<notin># background\<close> by (metis insert_iff set_mset_add_mset_insert)
        then have "jobs p' = background" using p(2) by simp
        then show ?thesis using known same p(1) unfolding jobs_ok_def by simp
      next
        case False
        then show ?thesis using known same left assms(1) unfolding jobs_ok_def by simp
      qed
    qed
  qed
qed

lemma P2pServe_threads:
  assumes "P2pServe penv content now request p = (r, p')"
  shows "privateKey p' = privateKey p \<and> Running p' = Running p \<and> (Goroutines p' = Goroutines p \<or>
    (\<exists>ids key. key \<in> NewAuthInterceptor (PeersConfigs penv) \<and> Goroutines p' = Goroutines p @ [GoNotifiedTxs ids key]))"
proof (cases "\<exists>key ts. authentic (Ec penv) (NewAuthInterceptor (PeersConfigs penv)) content key ts \<and> ts \<le> now \<and> sub64 now ts \<le> 10")
  case True
  then obtain key ts where a: "authentic (Ec penv) (NewAuthInterceptor (PeersConfigs penv)) content key ts"
    "ts \<le> now" "sub64 now ts \<le> 10" by blast
  then have key: "GetPeerPubkey content = Ok key" "key \<in> NewAuthInterceptor (PeersConfigs penv)"
    by (auto simp: authentic_def GetPeerPubkey_def)
  have "P2pHandler (Senv penv) content request p = (r, p')"
    using assms unfolding P2pServe_def Intercept_accepts [OF a] .
  then show ?thesis
    using key by (cases request)
      (auto simp: P2pNotifyTxs_def P2pGetTxs_def P2pGetPartitionsHash_def P2pGetUnconfirmTxids_def P2pGetTxidsByPartitions_def
        go_def modify_def andThen_def attempt_def of_res_def ret_def fail_def on_server_def split: prod.splits res.splits)
next
  case False
  from Intercept_rejects [OF this, of p "P2pHandler (Senv penv) content request"] show ?thesis
    using assms by (auto simp: rejected_def P2pServe_def)
qed

lemma process_step_jobs:
  assumes "process_step penv p p'" "Running p \<longrightarrow> jobs_ok penv p"
  shows "Running p' \<longrightarrow> jobs_ok penv p'"
  using assms(1)
proof cases
  case (http path m body rh)
  then show ?thesis using assms(2) by (auto simp: on_server_eq jobs_ok_def jobs_def)
next
  case (p2p content now request rp q)
  then show ?thesis using assms(2) P2pServe_threads [OF p2p(3)] by (auto simp: jobs_ok_def jobs_def)
next
  case (goroutine gs1 g gs2)
  then show ?thesis using assms(2) schedule_jobs by blast
next
  case (restart w')
  then show ?thesis by (simp add: start_def jobs_ok_def jobs_def)
qed simp_all


section \<open>Properties\<close>

text \<open>
  C1: the invariant of the running program. From an empty database on, the program may be started,
  killed and started again, fail to start, serve any HTTP requests and any calls of peers,
  and run its loops, in any order and with any call to the database, the miner
  or a peer failing. It never reaches a state with a negative balance, a supply above the largest
  issuance, inconsistent marks of spent points, a recorded transaction that is not one of
  the chain, or two entries for one address or partition. The transactions of the chain, \<open>S\<close>, are those that the
  miner acknowledges at some time, and it is assumed not to forget them: about a transaction of \<open>S\<close> it never says
  that there is no such transaction. \<open>CheckTxStateLoop\<close> runs with every other answer, and that it only asks about
  transactions of \<open>S\<close> is part of the proof. What happens when the miner forgets transactions is in \<open>Reorg\<close>.
\<close>

theorem process_invariant:
  assumes "mongo (Db (Env (Senv penv))) docs uniq" and "net_ok docs uniq (Senv penv)" and "chain_ok (Senv penv) S"
    and "knows (Client (Senv penv)) (txids_of (Senv penv) S)" and "docs w0 = (\<lambda>c. [])" and "uniq w0 = (\<lambda>c. {})"
    and "(process_step penv)\<^sup>*\<^sup>* (stopped w0) p"
  shows "0 \<le> balance (points_of (docs (World (TouchstoneServer p)))) a c \<and>
    balance (points_of (docs (World (TouchstoneServer p)))) a c \<le> total_supply (points_of (docs (World (TouchstoneServer p)))) c \<and>
    total_supply (points_of (docs (World (TouchstoneServer p)))) c \<le> MAX_CREATE_BADGE_VALUE \<and>
    marks_ok (points_of (docs (World (TouchstoneServer p)))) \<and> raw_ok (TxL (Env (Senv penv))) S (docs (World (TouchstoneServer p))) \<and>
    distinct (map Info_Addr (addrs_of (docs (World (TouchstoneServer p))))) \<and>
    distinct (map Part_Id (parts_of (docs (World (TouchstoneServer p)))))"
proof -
  have "known_node (Senv penv) docs uniq S"
    using assms(1-4)
    by (simp add: known_node_def known_node_axioms_def chain_node_def chain_node_axioms_def node_def node_axioms_def)
  from known_node.program_reachable [OF this assms(7) refl assms(5,6)] show ?thesis by (rule db_ok_means [OF _ assms(3)])
qed

text \<open>A program for the witnesses, without peers.\<close>

definition demo_penv :: "(mem, byte list, byte, byte, byte list) penv" where
  "demo_penv = \<lparr>Senv = sync_senv, Ec = demo_ec, PrivKeyFromBytes = hd, HttpJson = demo_json, PeersConfigs = [],
     ServerPrivatekey = ''07''\<rparr>"

definition demo_running :: "(mem, byte) process" where
  "demo_running = schedule demo_penv [] GoMain [] (start mem_started)"

lemma demo_steps: "(process_step demo_penv)\<^sup>*\<^sup>* (stopped mem_empty) demo_running"
proof -
  have "process_step demo_penv (stopped mem_empty) (start mem_started)"
    by (rule process_step.restart)
       (simp_all add: stopped_def start_def new_server_def demo_penv_def mem_started sync_senv_def)
  moreover have "process_step demo_penv (start mem_started) demo_running"
    unfolding demo_running_def by (rule process_step.goroutine) (simp_all add: start_def)
  ultimately show ?thesis by (meson rtranclp.simps)
qed

lemma sync_senv_knows: "knows (Client sync_senv) txids"
proof -
  have "\<not> contains [] ''No such mempool or blockchain transaction''" by code_simp
  then show ?thesis
    by (simp add: knows_def sync_senv_def ack_client_def GetTxState_def go_simps attempt_def demo_client_def)
qed

theorem process_invariant_witness:
  "raw_ok (TxL (Env sync_senv)) {NewMsgTx 2} (mem_docs (World (TouchstoneServer demo_running)))"
  using process_invariant [of demo_penv mem_docs "\<lambda>w c. set (mem_uniq w c)" "{NewMsgTx 2}" mem_empty demo_running]
    sync_senv_ok(1,2) sync_senv_net sync_senv_knows demo_steps
  by (simp add: demo_penv_def mem_empty_def)

interpretation demo_program: known_node sync_senv mem_docs "\<lambda>w c. set (mem_uniq w c)" "{NewMsgTx 2}"
  by unfold_locales (rule sync_senv_knows)

text \<open>
  C18: the goroutines of the running program. Transactions are only fetched on behalf of configured peers;
  and either \<open>main\<close> has not initialised the server, or the server has its private key and each
  of the three loops runs exactly once, with at most one loop that connects the
  configured peers.
\<close>

theorem process_goroutines:
  assumes "(process_step penv)\<^sup>*\<^sup>* (stopped w) p" and "Running p"
  shows "(\<forall>ids key. GoNotifiedTxs ids key \<in> set (Goroutines p) \<longrightarrow> key \<in> Pubkey ` set (PeersConfigs penv)) \<and>
    (jobs p = {#GoMain#} \<or> privateKey p \<noteq> None \<and>
      (jobs p = {#GoSyncStateLoop, GoCheckTxStateLoop, GoSetSpentLoop#} \<or>
       jobs p = {#GoConnectPeerLoop (PeersConfigs penv), GoSyncStateLoop, GoCheckTxStateLoop, GoSetSpentLoop#}))"
proof -
  have "Running p \<longrightarrow> jobs_ok penv p"
    using assms(1) by (induction rule: rtranclp_induct) (simp add: stopped_def, rule process_step_jobs)
  then show ?thesis using assms(2) by (simp add: jobs_ok_def NewAuthInterceptor_def background_def)
qed

theorem process_goroutines_witness:
  "jobs demo_running = {#GoSyncStateLoop, GoCheckTxStateLoop, GoSetSpentLoop#} \<and> privateKey demo_running \<noteq> None"
proof -
  have run: "Running demo_running" by code_simp
  have "length (filter is_job (Goroutines demo_running)) = 3" by code_simp
  then have "size (jobs demo_running) = 3" by (simp only: jobs_def size_mset)
  then show ?thesis using process_goroutines [OF demo_steps run] by auto
qed

end
