(* ===== verification/Db_Shape.thy ===== *)
theory Db_Shape
  imports Process
begin

text \<open>
  The shape of the database: documents are encodings of the structs of \<open>src/models\<close>, the unique indexes exist
  and hold. Every operation keeps it, whatever the miner says: nothing is assumed of the chain
  here, so this also covers reorganisations, in which \<open>CheckTxState\<close> removes transactions. The documents of raw
  transactions are encodings up to two things that updates leave behind: the field \<open>hash\<close>, which the struct does not
  have, and fields that are zero, which an encoding leaves out.
\<close>

section \<open>Documents of raw transactions\<close>

text \<open>A document that stands for a \<open>RawTxInfo\<close>.\<close>

definition represents :: "doc \<Rightarrow> RawTxInfo \<Rightarrow> bool" where
  "represents d r \<longleftrightarrow> (\<forall>f v. doc_of_RawTxInfo r f = Some v \<longrightarrow> d f = Some v) \<and>
     (\<forall>f v. d f = Some v \<longrightarrow> doc_of_RawTxInfo r f = Some v \<or> f = HASH \<or> v = BInt 0 \<or> v = BStr [])"

text \<open>The types of the fields.\<close>

fun raw_field :: "string \<Rightarrow> bval \<Rightarrow> bool" where
  "raw_field f (BStr s) \<longleftrightarrow> f \<in> {TXID, DATA, BLOCKHASH, HASH}"
| "raw_field f (BInt n) \<longleftrightarrow> f \<in> {INDEX, HEIGHT, TIMESTAMP, STATE}"

definition raw_shape :: "doc \<Rightarrow> bool" where
  "raw_shape d \<longleftrightarrow> d TXID \<noteq> None \<and> d INDEX \<noteq> None \<and> (\<forall>f v. d f = Some v \<longrightarrow> raw_field f v)"

lemma raw_field_cases:
  assumes "raw_field f v"
  obtains (str) x where "v = BStr x" "f \<in> {TXID, DATA, BLOCKHASH, HASH}" | (int) n where "v = BInt n" "f \<in> {INDEX, HEIGHT, TIMESTAMP, STATE}"
  using assms by (cases v) auto

lemma doc_of_RawTxInfo_field:
  "doc_of_RawTxInfo r f =
     (if f = TXID then Some (BStr (Raw_Txid r)) else if f = INDEX then Some (BInt (Raw_Index r))
      else if f = DATA then (if Raw_Data r = [] then None else Some (BStr (Raw_Data r)))
      else if f = HEIGHT then (if Raw_Height r = 0 then None else Some (BInt (Raw_Height r)))
      else if f = BLOCKHASH then (if Raw_BlockHash r = [] then None else Some (BStr (Raw_BlockHash r)))
      else if f = TIMESTAMP then (if Raw_Timestamp r = 0 then None else Some (BInt (Raw_Timestamp r)))
      else if f = STATE then (if Raw_State r = 0 then None else Some (BInt (Raw_State r))) else None)"
  by (simp add: doc_of_RawTxInfo_def omit_int_def omit_str_def map_add_def)

lemma raw_shape_represents:
  assumes "raw_shape d"
  shows "represents d (RawTxInfo_of_doc d)"
proof -
  have typed: "raw_field f v" if "d f = Some v" for f v using assms that by (simp add: raw_shape_def)
  have str: "d f = Some (BStr (get_str d f))" if f: "d f \<noteq> None" "f \<in> {TXID, DATA, BLOCKHASH, HASH}" for f
  proof -
    obtain v where "d f = Some v" using f(1) by blast
    then show ?thesis using typed [of f v] f(2) by (cases v) (auto simp: get_str_def)
  qed
  have int: "d f = Some (BInt (get_int d f))" if f: "d f \<noteq> None" "f \<in> {INDEX, HEIGHT, TIMESTAMP, STATE}" for f
  proof -
    obtain v where "d f = Some v" using f(1) by blast
    then show ?thesis using typed [of f v] f(2) by (cases v) (auto simp: get_int_def)
  qed
  have none: "d f \<noteq> None" if "get_int d f \<noteq> 0 \<or> get_str d f \<noteq> []" for f using that by (cases "d f") (auto simp: get_int_def get_str_def)
  have keys: "d TXID \<noteq> None" "d INDEX \<noteq> None" using assms by (simp_all add: raw_shape_def)
  have "d f = Some v" if "doc_of_RawTxInfo (RawTxInfo_of_doc d) f = Some v" for f v
    using that str [OF keys(1)] int [OF keys(2)] str [OF none, of f] int [OF none, of f]
    by (simp add: doc_of_RawTxInfo_field RawTxInfo_of_doc_def split: if_splits)
  moreover have "doc_of_RawTxInfo (RawTxInfo_of_doc d) f = Some v \<or> f = HASH \<or> v = BInt 0 \<or> v = BStr []" if "d f = Some v" for f v
  proof -
    from typed [OF that] show ?thesis
    proof (cases rule: raw_field_cases)
      case (str x)
      then have g: "get_str d f = x" using that by (simp add: get_str_def)
      consider "f = TXID" | "f = DATA" | "f = BLOCKHASH" | "f = HASH" using str(2) by blast
      then show ?thesis by cases (use g in \<open>simp_all add: str(1) doc_of_RawTxInfo_field RawTxInfo_of_doc_def\<close>)
    next
      case (int n)
      then have g: "get_int d f = n" using that by (simp add: get_int_def)
      consider "f = INDEX" | "f = HEIGHT" | "f = TIMESTAMP" | "f = STATE" using int(2) by blast
      then show ?thesis by cases (use g in \<open>simp_all add: int(1) doc_of_RawTxInfo_field RawTxInfo_of_doc_def\<close>)
    qed
  qed
  ultimately show ?thesis unfolding represents_def by blast
qed

lemma raw_shape_doc_of: "raw_shape (doc_of_RawTxInfo r)"
  by (auto simp: raw_shape_def doc_of_RawTxInfo_field split: if_splits)

lemma raw_shape_set_fields: "raw_shape d \<Longrightarrow> \<forall>(f, v) \<in> set u. raw_field f v \<Longrightarrow> raw_shape (set_fields u d)"
  unfolding raw_shape_def set_fields_def by (auto simp: map_add_Some_iff dest!: map_of_SomeD)

text \<open>The collections of transactions and of points.\<close>

definition wf_txs :: "(string \<Rightarrow> doc list) \<Rightarrow> (string \<Rightarrow> string list set) \<Rightarrow> bool" where
  "wf_txs db un \<longleftrightarrow> wf_db db un \<and> (\<forall>d \<in> set (db TBL_RAW_TX_INFO). raw_shape d)"


section \<open>Writes\<close>

lemma wf_db_filter:
  assumes "wf_db db un"
  shows "wf_db (db(c := filter P (db c))) un"
proof -
  let ?db = "db(c := filter P (db c))"
  have "distinct (map point_id (map TxPoint_of_doc (filter P (db TBL_TX_POINT))))"
    using assms by (simp add: wf_db_def points_of_def distinct_map_filter)
  then show ?thesis
    using assms by (auto simp: wf_db_def points_of_def distinct_map_filter)
qed

context mongo
begin

lemma of_db_wf [keeps_intros]: "of_db docs uniq (\<lambda>w. wf_txs (docs w) (uniq w))"
  by (simp add: of_db_def wf_txs_def)

lemma wf_DeleteAll: "keeps (\<lambda>w. wf_db (docs w) (uniq w)) (DeleteAll drv c q)"
proof (rule keepsI)
  fix w r w'
  assume wf: "wf_db (docs w) (uniq w)" and "DeleteAll drv c q w = (r, w')"
  note res = DeleteAll_res [OF this(2)]
  then obtain P where "docs w' c = filter P (docs w c)" by (cases r) auto
  then have "docs w' = (docs w)(c := filter P (docs w c))" using res by (auto simp: fun_eq_iff)
  then show "wf_db (docs w') (uniq w')" using wf_db_filter [OF wf] res by simp
qed

lemma wf_raw_update:
  assumes "TXID \<notin> fst ` set u" "INDEX \<notin> fst ` set u"
  shows "keeps (\<lambda>w. wf_db (docs w) (uniq w)) (UpdateOne drv TBL_RAW_TX_INFO q u)"
proof (rule keepsI)
  fix w r w'
  assume wf: "wf_db (docs w) (uniq w)" and "UpdateOne drv TBL_RAW_TX_INFO q u w = (r, w')"
  note res = UpdateOne_res [OF this(2)]
  then have "map raw_id (docs w' TBL_RAW_TX_INFO) = map raw_id (docs w TBL_RAW_TX_INFO)"
    "docs w' TBL_TX_POINT = docs w TBL_TX_POINT" "uniq w' = uniq w"
    using raw_id_set_fields [OF assms] by (cases r; auto simp: map_update_same)+
  then show "wf_db (docs w') (uniq w')" using wf by (simp add: wf_db_def points_of_def)
qed

lemma wf_db_writes:
  "keeps (\<lambda>w. wf_db (docs w) (uniq w)) (AddTxPoint drv p)"
  "keeps (\<lambda>w. wf_db (docs w) (uniq w)) (AddMsgTxInfo drv lib t h b ts)"
  "keeps (\<lambda>w. wf_db (docs w) (uniq w)) (SetMsgTxState drv txid st)"
  "keeps (\<lambda>w. wf_db (docs w) (uniq w)) (SetMsgTxHeightHash drv txid h b)"
  "keeps (\<lambda>w. wf_db (docs w) (uniq w)) (SetTxPointState drv txid i ty st)"
  "keeps (\<lambda>w. wf_db (docs w) (uniq w)) (DeleteTxPoints drv txid)"
  "keeps (\<lambda>w. wf_db (docs w) (uniq w)) (DeleteMsgTx drv txid)"
proof -
  show "keeps (\<lambda>w. wf_db (docs w) (uniq w)) (SetTxPointState drv txid i ty st)"
    by (cases "ty = TX_POINT_TYPE_ALL", simp add: SetTxPointState_def keeps_intros)
       (rule keepsI, use SetTxPointState_res in blast)
  show "keeps (\<lambda>w. wf_db (docs w) (uniq w)) (SetMsgTxHeightHash drv txid h b)"
    unfolding SetMsgTxHeightHash_def by (rule wf_raw_update) simp_all
qed (rule keepsI, use AddTxPoint_res AddMsgTxInfo_keeps SetMsgTxState_res in blast | simp add: DeleteTxPoints_def DeleteMsgTx_def wf_DeleteAll)+

text \<open>The same for the shape of the documents of raw transactions.\<close>

abbreviation shaped :: "'w \<Rightarrow> bool" where
  "shaped w \<equiv> \<forall>d \<in> set (docs w TBL_RAW_TX_INFO). raw_shape d"

lemma shaped_frame: "(\<And>ds us. keeps (holds docs uniq TBL_RAW_TX_INFO ds us) m) \<Longrightarrow> keeps shaped m"
  by (rule keeps_world_collections [where C = "{TBL_RAW_TX_INFO}" and docs = docs and uniq = uniq]) simp_all

lemma shaped_insert: "raw_shape d \<Longrightarrow> keeps shaped (insert_ignore_dup drv TBL_RAW_TX_INFO d)"
  unfolding insert_ignore_dup_def
  by (intro keeps_intros; rule keepsI; drule Insert_res) (auto split: res.splits)

lemma shaped_update:
  assumes "\<forall>(f, v) \<in> set u. raw_field f v"
  shows "keeps shaped (UpdateOne drv TBL_RAW_TX_INFO q u)"
proof (rule keepsI)
  fix w r w'
  assume w: "shaped w" and "UpdateOne drv TBL_RAW_TX_INFO q u w = (r, w')"
  note res = UpdateOne_res [OF this(2)]
  show "shaped w'"
  proof (cases r)
    case (Ok x)
    then obtain i where i: "i < length (docs w TBL_RAW_TX_INFO)" and d: "docs w' TBL_RAW_TX_INFO =
        (docs w TBL_RAW_TX_INFO)[i := set_fields u (docs w TBL_RAW_TX_INFO ! i)]" using res by auto
    have "raw_shape (set_fields u (docs w TBL_RAW_TX_INFO ! i))" using raw_shape_set_fields [OF _ assms] w i by simp
    moreover have "set (docs w' TBL_RAW_TX_INFO) \<subseteq>
        insert (set_fields u (docs w TBL_RAW_TX_INFO ! i)) (set (docs w TBL_RAW_TX_INFO))"
      unfolding d by (rule set_update_subset_insert)
    ultimately show ?thesis using w by auto
  qed (use res w in simp_all)
qed

lemma shaped_delete: "keeps shaped (DeleteMsgTx drv txid)"
  unfolding DeleteMsgTx_def by (rule keepsI, drule DeleteAll_res) (auto split: res.splits)

lemma shaped_record: "keeps shaped (AddMsgTxInfo drv lib t h b ts)"
  unfolding AddMsgTxInfo_def segment_doc_def info_doc_def
  by (intro keeps_intros shaped_insert raw_shape_doc_of)

lemma wf_writes [keeps_intros]:
  "keeps (\<lambda>w. wf_txs (docs w) (uniq w)) (AddTxPoint drv p)"
  "keeps (\<lambda>w. wf_txs (docs w) (uniq w)) (AddMsgTxInfo drv lib t h b ts)"
  "keeps (\<lambda>w. wf_txs (docs w) (uniq w)) (SetMsgTxState drv txid st)"
  "keeps (\<lambda>w. wf_txs (docs w) (uniq w)) (SetMsgTxHeightHash drv txid h b)"
  "keeps (\<lambda>w. wf_txs (docs w) (uniq w)) (SetTxPointState drv txid i ty st)"
  "keeps (\<lambda>w. wf_txs (docs w) (uniq w)) (DeleteTxPoints drv txid)"
  "keeps (\<lambda>w. wf_txs (docs w) (uniq w)) (DeleteMsgTx drv txid)"
proof -
  have up: "keeps shaped (SetMsgTxState drv txid st)" "keeps shaped (SetMsgTxHeightHash drv txid h b)"
    unfolding SetMsgTxState_def SetMsgTxHeightHash_def by (intro keeps_intros shaped_update; simp)+
  have other: "keeps shaped (AddTxPoint drv p)" "keeps shaped (SetTxPointState drv txid i ty st)" "keeps shaped (DeleteTxPoints drv txid)"
    by (intro shaped_frame keeps_intros; simp)+
  show
    "keeps (\<lambda>w. wf_txs (docs w) (uniq w)) (AddTxPoint drv p)"
    "keeps (\<lambda>w. wf_txs (docs w) (uniq w)) (AddMsgTxInfo drv lib t h b ts)"
    "keeps (\<lambda>w. wf_txs (docs w) (uniq w)) (SetMsgTxState drv txid st)"
    "keeps (\<lambda>w. wf_txs (docs w) (uniq w)) (SetMsgTxHeightHash drv txid h b)"
    "keeps (\<lambda>w. wf_txs (docs w) (uniq w)) (SetTxPointState drv txid i ty st)"
    "keeps (\<lambda>w. wf_txs (docs w) (uniq w)) (DeleteTxPoints drv txid)"
    "keeps (\<lambda>w. wf_txs (docs w) (uniq w)) (DeleteMsgTx drv txid)"
    unfolding wf_txs_def by (intro keeps_conj wf_db_writes shaped_record shaped_delete up other)+
qed

text \<open>Operations that only read keep every invariant of the database.\<close>

lemma wf_reads [keeps_intros]:
  "keeps (\<lambda>w. wf_txs (docs w) (uniq w)) (GetMsgTxBriefInfo drv txid)"
  "keeps (\<lambda>w. wf_txs (docs w) (uniq w)) (GetMsgTxInfo drv lib txid)"
  "keeps (\<lambda>w. wf_txs (docs w) (uniq w)) (GetMsgTxBriefInfoByHeightRange drv lo hi un)"
  by (rule keeps_read_only [OF of_db_wf]; intro keeps_intros)+

lemma wf_ParseMsgTx: "Db env = drv \<Longrightarrow> keeps (\<lambda>w. wf_txs (docs w) (uniq w)) (ParseMsgTx env t ts)"
  by (rule keeps_read_only [OF of_db_wf]) (intro keeps_intros)

lemma wf_ProcessMsgTxs [keeps_intros]:
  assumes "Db env = drv"
  shows "keeps (\<lambda>w. wf_txs (docs w) (uniq w)) (ProcessMsgTxs env l ts)"
proof -
  have one: "keeps (\<lambda>w. wf_txs (docs w) (uniq w)) (ProcessMsgTx env t ts)" for t
    unfolding ProcessMsgTx_def ParseAndAddTxPoints_def add_point_ignore_dup_def assms
    by (intro keeps_intros wf_ParseMsgTx assms)
  have "keeps (\<lambda>w. wf_txs (docs w) (uniq w)) (ProcessMsgTxs_loop env ts l acc)" for l acc
    by (induction l arbitrary: acc) (auto intro!: keeps_intros one)
  then show ?thesis unfolding ProcessMsgTxs_def .
qed

lemma wf_SetSpent [keeps_intros]:
  assumes "Db env = drv" "mapi_ok docs uniq client"
  shows "keeps (\<lambda>w. wf_txs (docs w) (uniq w)) (SetSpent env client now)"
proof -
  have "keeps (\<lambda>w. wf_txs (docs w) (uniq w)) (GetFeeQuote client)"
    by (rule keeps_of_db [OF of_db_wf]) (metis assms(2) mapi_ok_def)
  then show ?thesis
    unfolding SetSpent_def ForearchUnspentVinTxPoint_def set_spent_handle_def assms(1)
    by (intro keeps_intros)
qed

end


section \<open>The server\<close>

definition shape_inv :: "('w \<Rightarrow> string \<Rightarrow> doc list) \<Rightarrow> ('w \<Rightarrow> string \<Rightarrow> string list set) \<Rightarrow> 'w \<Rightarrow> bool" where
  "shape_inv docs uniq w \<longleftrightarrow> wf_txs (docs w) (uniq w) \<and> wf_addrs (docs w) (uniq w) \<and> wf_parts (docs w) (uniq w)"

context node
begin

lemma shapeI:
  assumes "keeps (node_inv docs uniq (\<lambda>w. wf_txs (docs w) (uniq w))) m"
    and "keeps (node_inv docs uniq (\<lambda>w. wf_addrs (docs w) (uniq w))) m"
    and "keeps (node_inv docs uniq (\<lambda>w. wf_parts (docs w) (uniq w))) m"
  shows "keeps (node_inv docs uniq (shape_inv docs uniq)) m"
  unfolding shape_inv_def by (intro node_inv_conj assms)

lemma kept_wf:
  "frames TBL_TX_POINT m \<Longrightarrow> frames TBL_RAW_TX_INFO m \<Longrightarrow> keeps (node_inv docs uniq (\<lambda>w. wf_txs (docs w) (uniq w))) m"
  by (rule keeps_collections [where C = "{TBL_TX_POINT, TBL_RAW_TX_INFO}"])
     (auto simp: wf_txs_def wf_db_def points_of_def)

lemma sync_wf:
  assumes "source_ok docs uniq src"
  shows "keeps (node_inv docs uniq (\<lambda>w. wf_txs (docs w) (uniq w))) (SyncTxs senv ids src)"
proof -
  let ?I = "\<lambda>w. wf_txs (docs w) (uniq w)"
  have search: "keeps (node_inv docs uniq ?I) (SyncTxs_search senv ids v)" for v
    by (induction ids arbitrary: v) (auto simp: Let_def intro!: keeps_intros keeps_net of_db_wf)
  have src: "keeps ?I (src l)" for l
    by (rule keeps_of_db [OF of_db_wf]) (metis assms source_ok_def)
  have rec: "keeps (node_inv docs uniq ?I) (SyncTxs_record senv cache txs g need n)" for cache txs g need n
    by (induction txs arbitrary: g need n) (auto simp: Let_def intro!: keeps_intros keeps_net of_db_wf)
  show ?thesis
    unfolding SyncTxs_def by (intro keeps_intros keeps_net keeps_NotifyTxs of_db_wf search src rec refl)
qed

lemma sync_shape: "source_ok docs uniq src \<Longrightarrow> keeps (node_inv docs uniq (shape_inv docs uniq)) (SyncTxs senv ids src)"
  by (intro shapeI sync_wf kept_addrs kept_parts allI keeps_SyncTxs_holds) simp_all

lemma hash_shape: "keeps (node_inv docs uniq (shape_inv docs uniq)) (ClearCacheAndSetHash senv)"
  by (intro shapeI hash_parts kept_wf kept_addrs allI keeps_ClearCacheAndSetHash_holds) simp_all

lemma spent_shape: "keeps (node_inv docs uniq (shape_inv docs uniq)) (world (SetSpent (Env senv) (Client senv) now))"
proof -
  have api: "mapi_ok docs uniq (Client senv)" using net by (simp add: net_ok_def)
  show ?thesis by (intro shapeI kept_addrs kept_parts allI keeps_intros api refl) simp_all
qed

lemma register_shape:
  "keeps (node_inv docs uniq (shape_inv docs uniq)) (world (SetAddrInfo (Env senv) now appid userid ui addr))"
proof -
  have "keeps (\<lambda>w. wf_addrs (docs w) (uniq w)) (SetAddrInfo (Env senv) now appid userid ui addr)"
    unfolding SetAddrInfo_def by (rule keeps_wf_addrs)
  then show ?thesis by (intro shapeI kept_wf kept_parts allI keeps_intros refl) simp_all
qed

lemma check_wf:
  assumes db: "of_db docs uniq I" and clear: "\<And>txid. keeps I (ClearMsgTx (Env senv) txid)"
    and height: "\<And>txid h b. keeps I (SetMsgTxHeightHash (Db (Env senv)) txid h b)"
  shows "keeps (node_inv docs uniq I) (CheckTxState senv)"
proof -
  have "keeps (node_inv docs uniq I) (CheckTxState_loop senv infos)" for infos
    by (induction infos) (auto simp: Let_def intro!: keeps_intros keeps_net db clear height)
  then show ?thesis
    unfolding CheckTxState_def
    by (intro keeps_intros keeps_net db keeps_read_only [OF db])
qed

lemma check_addrs: "keeps (node_inv docs uniq (\<lambda>w. wf_addrs (docs w) (uniq w))) (CheckTxState senv)"
  by (intro kept_addrs allI check_wf of_db_holds, unfold ClearMsgTx_def) (intro keeps_intros; simp)+

lemma check_parts: "keeps (node_inv docs uniq (\<lambda>w. wf_parts (docs w) (uniq w))) (CheckTxState senv)"
  by (intro kept_parts allI check_wf of_db_holds, unfold ClearMsgTx_def) (intro keeps_intros; simp)+

lemma check_shape: "keeps (node_inv docs uniq (shape_inv docs uniq)) (CheckTxState senv)"
proof (intro shapeI check_addrs check_parts)
  show "keeps (node_inv docs uniq (\<lambda>w. wf_txs (docs w) (uniq w))) (CheckTxState senv)"
    by (rule check_wf [OF of_db_wf], unfold ClearMsgTx_def) (intro keeps_intros)+
qed

end

sublocale node \<subseteq> shape: process_node senv docs uniq "shape_inv docs uniq"
proof (unfold_locales, goal_cases)
  case 1
  show ?case by (simp add: of_db_def shape_inv_def)
next
  case (2 src ids)
  then show ?case by (rule sync_shape)
next
  case 3
  show ?case by (rule hash_shape)
next
  case (4 now)
  show ?case by (rule spent_shape)
next
  case (5 now appid userid ui addr)
  show ?case by (rule register_shape)
next
  case 6
  show ?case by (rule check_shape)
next
  case (7 w)
  then show ?case
    by (simp add: shape_inv_def wf_txs_def wf_db_def wf_addrs_def wf_parts_def points_of_def addrs_of_def parts_of_def indexes_def)
next
  case (8 w c)
  then show ?case by (auto simp: shape_inv_def wf_txs_def wf_db_def wf_addrs_def wf_parts_def indexes_def)
next
  case (9 w' w)
  then show ?case by (simp add: shape_inv_def wf_txs_def wf_db_def wf_addrs_def wf_parts_def)
qed

context node
begin

lemmas shape_reachable = shape.process_reachable

end


section \<open>The running program\<close>

text \<open>What the invariant says of the collections.\<close>

lemma process_wellformed:
  assumes "mongo (Db (Env (Senv penv))) docs uniq" and "net_ok docs uniq (Senv penv)"
    and "docs w0 = (\<lambda>c. [])" and "uniq w0 = (\<lambda>c. {})" and "(process_step penv)\<^sup>*\<^sup>* (stopped w0) p"
  shows "docs (World (TouchstoneServer p)) TBL_TX_POINT = map doc_of_TxPoint (points_of (docs (World (TouchstoneServer p)))) \<and>
    docs (World (TouchstoneServer p)) TBL_ADDR_INFO = map doc_of_AddrInfo (addrs_of (docs (World (TouchstoneServer p)))) \<and>
    docs (World (TouchstoneServer p)) TBL_PARTITION_INFO =
      map doc_of_PartitionInfo (parts_of (docs (World (TouchstoneServer p)))) \<and>
    distinct (map point_id (points_of (docs (World (TouchstoneServer p))))) \<and>
    distinct (map raw_id (docs (World (TouchstoneServer p)) TBL_RAW_TX_INFO)) \<and>
    distinct (map Info_Addr (addrs_of (docs (World (TouchstoneServer p))))) \<and>
    distinct (map Part_Id (parts_of (docs (World (TouchstoneServer p))))) \<and>
    (\<forall>d \<in> set (docs (World (TouchstoneServer p)) TBL_RAW_TX_INFO). represents d (RawTxInfo_of_doc d))"
proof -
  let ?d = "docs (World (TouchstoneServer p))"
  have "node (Senv penv) docs uniq" using assms(1,2) by (simp add: node_def node_axioms_def)
  from node.shape_reachable [OF this assms(5) refl assms(3,4)]
  have "shape_inv docs uniq (World (TouchstoneServer p)) \<or> ?d = (\<lambda>c. [])" by (auto simp: db_ok_def)
  then show ?thesis
  proof
    assume shape: "shape_inv docs uniq (World (TouchstoneServer p))"
    have "?d TBL_TX_POINT = map doc_of_TxPoint (points_of ?d)" "?d TBL_ADDR_INFO = map doc_of_AddrInfo (addrs_of ?d)"
      "?d TBL_PARTITION_INFO = map doc_of_PartitionInfo (parts_of ?d)"
      unfolding points_of_def addrs_of_def parts_of_def
      by (rule map_roundtrip; use shape in \<open>simp add: shape_inv_def wf_txs_def wf_db_def wf_addrs_def wf_parts_def\<close>)+
    then show ?thesis using shape raw_shape_represents by (simp add: shape_inv_def wf_txs_def wf_db_def wf_addrs_def wf_parts_def)
  qed (simp add: points_of_def addrs_of_def parts_of_def)
qed

end
