(* ===== verification/Startup.thy ===== *)
theory Startup
  imports Db_Shape
begin

text \<open>
  The beginning of \<open>main\<close> in \<open>src/main.go\<close>: the configuration file (\<open>Config\<close> of \<open>src/conf/config.go\<close>), the
  session of the database (\<open>NewDb\<close> of \<open>src/models/common.go\<close>), the indexes and the client of the miner. The file
  system, JSON, \<open>mgo.Dial\<close> and the key derivation are parameters. What \<open>main\<close> does afterwards is
  in \<open>Process\<close>; this theory connects the two.
\<close>

section \<open>The code\<close>

text \<open>The configuration file; its peers are taken to be there, not \<open>null\<close>.\<close>

record config =
  Cfg_Env :: string
  Cfg_MongoHost :: string
  Cfg_MempoolHost :: string
  Cfg_MempoolPkiMnemonic :: string
  Cfg_MempoolPkiMnemonicPassword :: string
  Cfg_ServerPrivatekey :: string
  Cfg_PeersConfigs :: "PeerConfig list"
  Cfg_P2pHost :: string
  Cfg_HttpHost :: string
  Cfg_DbName :: string

text \<open>
  The calls of \<open>mgo\<close> that make a session \<open>'x\<close> and set its options; \<open>OnDb\<close> are the calls of \<open>Mongo_Db\<close> on the
  collections of one database of a session.
\<close>

datatype mgo_mode = Eventual | Monotonic | Strong

record ('w, 'x) dial_lib =
  Dial :: "string \<Rightarrow> ('w, 'x) io"
  SetMode :: "mgo_mode \<Rightarrow> bool \<Rightarrow> 'x \<Rightarrow> 'x"
  SetSocketTimeout :: "int \<Rightarrow> 'x \<Rightarrow> 'x"
  SetPoolLimit :: "int \<Rightarrow> 'x \<Rightarrow> 'x"
  OnDb :: "'x \<Rightarrow> string \<Rightarrow> string \<Rightarrow> 'w mgo"

record 'x MongoDb =
  db_sess :: 'x
  db_host :: string
  db_name :: string

definition NewMongoDb :: "('w, 'x) dial_lib \<Rightarrow> string \<Rightarrow> string \<Rightarrow> ('w, 'x MongoDb) io" where
  "NewMongoDb lib host dbname =
     andThen (Dial lib host) (\<lambda>sess. ret \<lparr>db_sess = sess, db_host = host, db_name = dbname\<rparr>)"

text \<open>The timeout is 24 hours, in nanoseconds.\<close>

definition NewDb :: "('w, 'x) dial_lib \<Rightarrow> string \<Rightarrow> string \<Rightarrow> ('w, 'x MongoDb) io" where
  "NewDb lib host dbname =
     andThen (Dial lib host) (\<lambda>sess.
       ret \<lparr>db_sess = SetPoolLimit lib 1024 (SetSocketTimeout lib (24 * 3600 * 10 ^ 9) (SetMode lib Monotonic True sess)),
            db_host = host, db_name = dbname\<rparr>)"

record ('w, 'x, 'hk, 'mk) main_lib =
  ReadFile :: "string \<Rightarrow> ('w, string) io"
  UnmarshalConfig :: "string \<Rightarrow> config res"
  MgoL :: "('w, 'x) dial_lib"
  HdL :: "'hk hd_lib"
  ECPrivKey :: "'hk \<Rightarrow> 'mk res"
  MempoolL :: "('w, 'mk) mempool_lib"
  MapiJson :: json_lib

text \<open>\<open>if err != nil { panic(err) }\<close>\<close>

definition must :: "('w, 'b) io \<Rightarrow> ('w, 'b) io" where
  "must m = attempt m (\<lambda>err. of_res (Panic (err_str err))) ret"

text \<open>
  \<open>main\<close> up to the construction of the server. The result is what the rest of the program runs on: \<open>libs\<close>
  holds the libraries the program is linked with, the rest comes from the configuration.
\<close>

definition main_config ::
  "('w, 'x, 'hk, 'mk) main_lib \<Rightarrow> ('w, 'a, 'k, 'p, 's) penv \<Rightarrow> string \<Rightarrow> ('w, ('w, 'a, 'k, 'p, 's) penv) io" where
  "main_config lib libs configFilePath =
     andThen (must (ReadFile lib configFilePath)) (\<lambda>configJSON.
     andThen (must (of_res (UnmarshalConfig lib configJSON))) (\<lambda>config.
     andThen (must (of_res (InitGConfig (Cfg_Env config)))) (\<lambda>gconfig.
     andThen (must (NewDb (MgoL lib) (Cfg_MongoHost config) (Cfg_DbName config))) (\<lambda>db.
     let drv = OnDb (MgoL lib) (db_sess db) (db_host db) (db_name db)
     in andThen (must (CreateIndexes drv)) (\<lambda>_.
     andThen (must (of_res (NewMempoolMapiClient (HdL lib) (ECPrivKey lib) (MempoolL lib) (MapiJson lib)
       (Cfg_MempoolHost config) (Cfg_MempoolPkiMnemonic config) (Cfg_MempoolPkiMnemonicPassword config)))) (\<lambda>mapiClient.
       ret (libs\<lparr>Senv := (Senv libs)\<lparr>Env := (Env (Senv libs))\<lparr>Db := drv, Conf := gconfig\<rparr>, Client := mapiClient\<rparr>,
         PeersConfigs := Cfg_PeersConfigs config, ServerPrivatekey := Cfg_ServerPrivatekey config\<rparr>)))))))"


section \<open>Starting\<close>

text \<open>Neither files nor HTTP requests reach the database, and every database of every session meets the contract of \<open>mongo\<close>.\<close>

definition os_ok ::
  "('w \<Rightarrow> string \<Rightarrow> doc list) \<Rightarrow> ('w \<Rightarrow> string \<Rightarrow> string list set) \<Rightarrow> ('w, 'x, 'hk, 'mk) main_lib \<Rightarrow> bool" where
  "os_ok docs uniq lib \<longleftrightarrow>
     (\<forall>file w r w'. ReadFile lib file w = (r, w') \<longrightarrow> docs w' = docs w \<and> uniq w' = uniq w) \<and>
     (\<forall>host w r w'. Dial (MgoL lib) host w = (r, w') \<longrightarrow> docs w' = docs w \<and> uniq w' = uniq w) \<and>
     (\<forall>m u h b w r w'. http_do (HttpL (MempoolL lib)) m u h b w = (r, w') \<longrightarrow> docs w' = docs w \<and> uniq w' = uniq w) \<and>
     (\<forall>sess host dbname. mongo (OnDb (MgoL lib) sess host dbname) docs uniq)"

lemma must_Ok: "must m w = (Ok x, w') \<longleftrightarrow> m w = (Ok x, w')"
  by (auto simp: must_def attempt_def of_res_def ret_def split: prod.splits res.splits)

lemma must_world: "must m w = (r, w') \<Longrightarrow> \<exists>r'. m w = (r', w')"
  by (auto simp: must_def attempt_def of_res_def ret_def split: prod.splits res.splits)

lemma keeps_must [keeps_intros]: "keeps I m \<Longrightarrow> keeps I (must m)"
  by (rule keepsI) (auto dest!: must_world dest: keepsD)

lemma no_error_must: "must m w \<noteq> (Fail e, w')"
  by (auto simp: must_def attempt_def of_res_def ret_def split: prod.splits res.splits)

lemma no_error_andThen: "(\<And>w w'. m w \<noteq> (Fail e, w')) \<Longrightarrow> (\<And>x w w'. f x w \<noteq> (Fail e, w')) \<Longrightarrow> andThen m f w \<noteq> (Fail e, w')"
  by (auto elim: andThen_eqE)

lemma main_config_no_error: "main_config lib libs file w \<noteq> (Fail e, w')"
  unfolding main_config_def Let_def by (intro no_error_andThen no_error_must) (simp add: ret_def)

lemma main_config_OkE:
  assumes "main_config lib libs file w = (Ok penv, w')"
  obtains json config gconfig db client v1 v2 drv where
    "ReadFile lib file w = (Ok json, v1)" "UnmarshalConfig lib json = Ok config" "InitGConfig (Cfg_Env config) = Ok gconfig"
    "NewDb (MgoL lib) (Cfg_MongoHost config) (Cfg_DbName config) v1 = (Ok db, v2)"
    "drv = OnDb (MgoL lib) (db_sess db) (db_host db) (db_name db)" "CreateIndexes drv v2 = (Ok (), w')"
    "NewMempoolMapiClient (HdL lib) (ECPrivKey lib) (MempoolL lib) (MapiJson lib) (Cfg_MempoolHost config)
       (Cfg_MempoolPkiMnemonic config) (Cfg_MempoolPkiMnemonicPassword config) = Ok client"
    "penv = libs\<lparr>Senv := (Senv libs)\<lparr>Env := (Env (Senv libs))\<lparr>Db := drv, Conf := gconfig\<rparr>, Client := client\<rparr>,
       PeersConfigs := Cfg_PeersConfigs config, ServerPrivatekey := Cfg_ServerPrivatekey config\<rparr>"
  using assms unfolding main_config_def Let_def andThen_eq_Ok must_Ok
  by (auto simp: of_res_def ret_def)

lemma NewDb_world:
  assumes "os_ok docs uniq lib" "NewDb (MgoL lib) host dbname w = (r, w')"
  shows "docs w' = docs w \<and> uniq w' = uniq w"
  using assms by (auto simp: NewDb_def os_ok_def ret_def elim!: andThen_eqE)

text \<open>The client of the miner that is created does not reach the database.\<close>

lemma doRequest_world:
  assumes "os_ok docs uniq lib" "doRequest (MempoolL lib) this m u h b w = (r, w')"
  shows "docs w' = docs w \<and> uniq w' = uniq w"
  using assms by (auto simp: doRequest_def HttpRequest_def os_ok_def of_res_def elim!: andThen_eqE)

lemma client_ok:
  assumes "os_ok docs uniq lib" "NewMempoolMapiClient hk ec (MempoolL lib) json host words pw = Ok client"
  shows "mapi_ok docs uniq client" and "miner_ok docs uniq client"
proof -
  obtain this where c: "client = \<lparr>Adaptor = \<lparr>AdGetFeeQuote = MempoolGetFeeQuote (MempoolL lib) this,
      AdGetTxState = MempoolGetTxState (MempoolL lib) this, AdSendTx = MempoolSendTx (MempoolL lib) this\<rparr>, Json = json\<rparr>"
    using assms(2) by (auto simp: NewMempoolMapiClient_def Let_def)
  show "mapi_ok docs uniq client" "miner_ok docs uniq client"
    using doRequest_world [OF assms(1)]
    by (auto simp: mapi_ok_def miner_ok_def c GetFeeQuote_def GetTxState_def MempoolGetFeeQuote_def MempoolGetTxState_def
        of_res_def ret_def elim!: andThen_eqE)
qed

text \<open>What is assumed of the libraries before a client of the miner is chosen.\<close>

definition libs_ok ::
  "('w \<Rightarrow> string \<Rightarrow> doc list) \<Rightarrow> ('w \<Rightarrow> string \<Rightarrow> string list set) \<Rightarrow> ('w, 'a, 'k, 'p, 's) penv \<Rightarrow> bool" where
  "libs_ok docs uniq libs \<longleftrightarrow> runtime_ok docs uniq (Runtime (Senv libs)) \<and>
     (\<forall>host w r w'. GrpcDial (Senv libs) host w = (r, w') \<longrightarrow> docs w' = docs w \<and> uniq w' = uniq w \<and>
        (case r of Ok peer \<Rightarrow> peer_ok docs uniq peer | _ \<Rightarrow> True))"

lemma main_config_penv:
  assumes "os_ok docs uniq lib" "libs_ok docs uniq libs" "main_config lib libs file w = (Ok penv, w')"
  shows "mongo (Db (Env (Senv penv))) docs uniq" and "net_ok docs uniq (Senv penv)"
proof -
  show "mongo (Db (Env (Senv penv))) docs uniq"
    by (rule main_config_OkE [OF assms(3)]) (use assms(1) in \<open>simp add: os_ok_def\<close>)
  show "net_ok docs uniq (Senv penv)"
  proof (rule main_config_OkE [OF assms(3)])
    fix json config gconfig db client v1 v2 drv
    assume client: "NewMempoolMapiClient (HdL lib) (ECPrivKey lib) (MempoolL lib) (MapiJson lib) (Cfg_MempoolHost config)
       (Cfg_MempoolPkiMnemonic config) (Cfg_MempoolPkiMnemonicPassword config) = Ok client"
      and penv: "penv = libs\<lparr>Senv := (Senv libs)\<lparr>Env := (Env (Senv libs))\<lparr>Db := drv, Conf := gconfig\<rparr>, Client := client\<rparr>,
       PeersConfigs := Cfg_PeersConfigs config, ServerPrivatekey := Cfg_ServerPrivatekey config\<rparr>"
    show ?thesis
      using assms(2) client_ok [OF assms(1) client] by (simp add: net_ok_def libs_ok_def penv)
  qed
qed

lemma main_config_source:
  assumes "main_config lib libs file w = (Ok penv, w')"
  shows "\<exists>json v config. ReadFile lib file w = (Ok json, v) \<and> UnmarshalConfig lib json = Ok config \<and> InitGConfig (Cfg_Env config) = Ok (Conf (Env (Senv penv))) \<and>
    PeersConfigs penv = Cfg_PeersConfigs config \<and> ServerPrivatekey penv = Cfg_ServerPrivatekey config"
  by (rule main_config_OkE [OF assms]) (intro exI conjI, assumption+, simp_all)

text \<open>A successful start is the step \<open>restart\<close> of the program.\<close>

lemma main_config_step:
  assumes "os_ok docs uniq lib" "main_config lib libs file w = (Ok penv, w')"
  shows "\<exists>v. docs v = docs w \<and> uniq v = uniq w \<and> process_step penv (stopped v) (start w')"
proof (rule main_config_OkE [OF assms(2)])
  fix json config gconfig db client v1 v2 drv
  assume run: "ReadFile lib file w = (Ok json, v1)"
      "NewDb (MgoL lib) (Cfg_MongoHost config) (Cfg_DbName config) v1 = (Ok db, v2)" "CreateIndexes drv v2 = (Ok (), w')"
    and penv: "penv = libs\<lparr>Senv := (Senv libs)\<lparr>Env := (Env (Senv libs))\<lparr>Db := drv, Conf := gconfig\<rparr>, Client := client\<rparr>,
       PeersConfigs := Cfg_PeersConfigs config, ServerPrivatekey := Cfg_ServerPrivatekey config\<rparr>"
  have "docs v1 = docs w \<and> uniq v1 = uniq w" using assms(1) run(1) unfolding os_ok_def by blast
  moreover have "docs v2 = docs v1 \<and> uniq v2 = uniq v1" by (rule NewDb_world [OF assms(1) run(2)])
  moreover have "process_step penv (stopped v2) (start w')"
    by (rule process_step.restart) (simp_all add: stopped_def start_def new_server_def penv run(3))
  ultimately show ?thesis by auto
qed

text \<open>Before that, only indexes are added.\<close>

lemma main_config_adds_indexes:
  assumes ok: "os_ok docs uniq lib" and run: "main_config lib libs file w = (r, w')"
  shows "docs w' = docs w \<and> (\<forall>c. uniq w c \<subseteq> uniq w' c \<and> uniq w' c \<subseteq> uniq w c \<union> indexes c)"
proof -
  let ?G = "\<lambda>v. docs v = docs w \<and> (\<forall>c. uniq w c \<subseteq> uniq v c \<and> uniq v c \<subseteq> uniq w c \<union> indexes c)"
  have same: "keeps ?G m" if "\<And>v r' v'. m v = (r', v') \<Longrightarrow> docs v' = docs v \<and> uniq v' = uniq v" for m
    by (rule keepsI) (use that in \<open>metis\<close>)
  have config: "keeps ?G (ReadFile lib file)" by (rule same) (use ok in \<open>auto simp: os_ok_def\<close>)
  have db: "keeps ?G (NewDb (MgoL lib) host dbname)" for host dbname by (rule same) (rule NewDb_world [OF ok])
  have ind: "keeps ?G (CreateIndexes (OnDb (MgoL lib) sess host dbname))" for sess host dbname
  proof (rule keepsI)
    fix v r' v'
    assume v: "?G v" and "CreateIndexes (OnDb (MgoL lib) sess host dbname) v = (r', v')"
    moreover have "mongo (OnDb (MgoL lib) sess host dbname) docs uniq" using ok by (simp add: os_ok_def)
    ultimately have "docs v' = docs v" "\<And>c. uniq v c \<subseteq> uniq v' c \<and> uniq v' c \<subseteq> uniq v c \<union> indexes c"
      by (simp_all add: mongo.CreateIndexes_res)
    with v show "?G v'" by fastforce
  qed
  have "keeps ?G (main_config lib libs file)"
    unfolding main_config_def by (intro keeps_intros config db ind)
  from keepsD [OF this run] show ?thesis by simp
qed


section \<open>Properties\<close>

text \<open>
  C19: starting the program. \<open>main\<close> never returns an error: whatever goes wrong with the configuration, the
  database or the keys, it panics. Until the servers are started, no document is changed, and no unique index
  is added other than those of the four collections, even when it panics half way. If it gets through, the
  network is one of the two that are supported and the program begins with the step \<open>restart\<close> of its
  model, for the peers and the key of the configuration that was read from the file.
\<close>

theorem main_config_refines:
  assumes "os_ok docs uniq lib" and "main_config lib libs file w = (r, w')"
  shows "docs w' = docs w \<and> (\<forall>c. uniq w c \<subseteq> uniq w' c \<and> uniq w' c \<subseteq> uniq w c \<union> indexes c) \<and>
    (case r of
       Ok penv \<Rightarrow> (\<exists>json v config. ReadFile lib file w = (Ok json, v) \<and> UnmarshalConfig lib json = Ok config \<and>
           InitGConfig (Cfg_Env config) = Ok (Conf (Env (Senv penv))) \<and> PeersConfigs penv = Cfg_PeersConfigs config \<and> ServerPrivatekey penv = Cfg_ServerPrivatekey config) \<and>
         (\<exists>v. docs v = docs w \<and> uniq v = uniq w \<and> process_step penv (stopped v) (start w'))
     | Fail e \<Rightarrow> False
     | Stop x \<Rightarrow> True)"
  using main_config_adds_indexes [OF assms] assms(2) main_config_step [OF assms(1)] main_config_source [of lib libs "file" w]
    main_config_no_error [of lib libs "file" w]
  by (cases r) auto

text \<open>A start for the witnesses, on the regression test network.\<close>

definition demo_config :: config where
  "demo_config = \<lparr>Cfg_Env = ''regtest'', Cfg_MongoHost = ''db'', Cfg_MempoolHost = ''miner'', Cfg_MempoolPkiMnemonic = [],
     Cfg_MempoolPkiMnemonicPassword = [], Cfg_ServerPrivatekey = ''07'', Cfg_PeersConfigs = [], Cfg_P2pHost = [], Cfg_HttpHost = [],
     Cfg_DbName = ''touchstone''\<rparr>"

definition demo_main :: "(mem, unit, unit, unit) main_lib" where
  "demo_main =
     \<lparr>ReadFile = (\<lambda>_. ret []), UnmarshalConfig = (\<lambda>_. Ok demo_config),
      MgoL = \<lparr>Dial = (\<lambda>_. ret ()), SetMode = (\<lambda>_ _ s. s), SetSocketTimeout = (\<lambda>_ s. s), SetPoolLimit = (\<lambda>_ s. s),
        OnDb = (\<lambda>_ _ _. mem_mgo)\<rparr>,
      HdL = \<lparr>NewSeed = (\<lambda>_ _. []), NewMaster = (\<lambda>_. Ok ()), Child = (\<lambda>_ _. Ok ())\<rparr>, ECPrivKey = (\<lambda>_. Ok ()),
      MempoolL = \<lparr>MarshalParam = (\<lambda>_. Ok []), MarshalRequest = (\<lambda>_. Ok []), UnmarshalResponse = (\<lambda>s. Fail (Error s)),
        Sha256Str = (\<lambda>_. []), SignHash = (\<lambda>_ _. Ok []), PubKeyCompressed = (\<lambda>_. []),
        HttpL = \<lparr>http_new = (\<lambda>_ _. Ok ()), http_do = (\<lambda>_ _ _ _. fail (Error ''offline''))\<rparr>\<rparr>,
      MapiJson = Json demo_client\<rparr>"

lemma demo_main_ok: "os_ok mem_docs (\<lambda>w c. set (mem_uniq w c)) demo_main"
  by (simp add: os_ok_def demo_main_def ret_def fail_def mem.mongo_axioms)

lemma demo_libs_ok: "libs_ok mem_docs (\<lambda>w c. set (mem_uniq w c)) demo_penv"
  using sync_senv_net by (simp add: net_ok_def libs_ok_def demo_penv_def)

definition demo_started :: "(mem, byte list, byte, byte, byte list) penv" where
  "demo_started = (case fst (main_config demo_main demo_penv [] mem_empty) of Ok penv \<Rightarrow> penv)"

lemma demo_started: "main_config demo_main demo_penv [] mem_empty = (Ok demo_started, mem_started)"
proof -
  have "\<exists>penv. main_config demo_main demo_penv [] mem_empty = (Ok penv, mem_started)"
    by (simp add: main_config_def must_def demo_main_def demo_config_def NewDb_def InitGConfig_def ENV_RGTEST_def
        NewMempoolMapiClient_def getExtendedKey_def paths_def Let_def go_simps attempt_def mem_started)
  then show ?thesis unfolding demo_started_def by auto
qed

theorem main_config_refines_witness:
  "InitGConfig ''regtest'' = Ok (Conf (Env (Senv demo_started))) \<and> mem_docs mem_started = mem_docs mem_empty \<and>
   (\<exists>v. mem_docs v = mem_docs mem_empty \<and> process_step demo_started (stopped v) (start mem_started))"
  using main_config_refines [OF demo_main_ok demo_started] by (auto simp: demo_main_def demo_config_def)

text \<open>
  C3: the database is well-formed at all times. Let \<open>main\<close> start on an empty database. Whatever clients, peers and
  the miner do afterwards, and however often the program fails, crashes and restarts, every stored
  point, address and partition is the encoding of a value of its struct. A document of a raw transaction has the
  fields of the \<open>RawTxInfo\<close> that is read from it; beyond that it may have the field \<open>hash\<close>, which
  \<open>SetMsgTxHeightHash\<close> adds and the struct does not know, and fields that an update has set to zero. No two points have the same
  transaction, index and type, no two documents of a transaction the same index, and no two
  addresses or partitions the same key. The assumptions only concern the libraries: the contract of the
  database, and that nothing else writes to it.
\<close>

theorem main_wellformed:
  assumes "os_ok docs uniq lib" and "libs_ok docs uniq libs" and "docs w0 = (\<lambda>c. [])" and "uniq w0 = (\<lambda>c. {})"
    and "main_config lib libs file w0 = (Ok penv, w1)" and "(process_step penv)\<^sup>*\<^sup>* (start w1) p"
  shows "docs (World (TouchstoneServer p)) TBL_TX_POINT = map doc_of_TxPoint (points_of (docs (World (TouchstoneServer p)))) \<and>
    docs (World (TouchstoneServer p)) TBL_ADDR_INFO = map doc_of_AddrInfo (addrs_of (docs (World (TouchstoneServer p)))) \<and>
    docs (World (TouchstoneServer p)) TBL_PARTITION_INFO =
      map doc_of_PartitionInfo (parts_of (docs (World (TouchstoneServer p)))) \<and>
    distinct (map point_id (points_of (docs (World (TouchstoneServer p))))) \<and>
    distinct (map raw_id (docs (World (TouchstoneServer p)) TBL_RAW_TX_INFO)) \<and>
    distinct (map Info_Addr (addrs_of (docs (World (TouchstoneServer p))))) \<and>
    distinct (map Part_Id (parts_of (docs (World (TouchstoneServer p))))) \<and>
    (\<forall>d \<in> set (docs (World (TouchstoneServer p)) TBL_RAW_TX_INFO). represents d (RawTxInfo_of_doc d))"
proof -
  obtain v where v: "docs v = (\<lambda>c. [])" "uniq v = (\<lambda>c. {})" and step: "process_step penv (stopped v) (start w1)"
    using main_config_step [OF assms(1,5)] assms(3,4) by auto
  have "(process_step penv)\<^sup>*\<^sup>* (stopped v) p" by (rule converse_rtranclp_into_rtranclp [OF step assms(6)])
  from process_wellformed [OF main_config_penv [OF assms(1,2,5)] v this] show ?thesis .
qed

theorem main_wellformed_witness:
  "distinct (map raw_id (mem_docs (World (TouchstoneServer (schedule demo_started [] GoMain [] (start mem_started)))) TBL_RAW_TX_INFO))"
proof -
  have "process_step demo_started (start mem_started) (schedule demo_started [] GoMain [] (start mem_started))"
    by (rule process_step.goroutine) (simp_all add: start_def)
  from main_wellformed [OF demo_main_ok demo_libs_ok _ _ demo_started r_into_rtranclp, OF _ _ this]
  show ?thesis by (simp add: mem_empty_def)
qed

end
