(* ===== verification/Reorg.thy ===== *)
theory Reorg
  imports Db_Shape
begin

text \<open>
  Reorganisations of the chain. When the miner no longer knows some transactions, \<open>CheckTxState\<close> of
  \<open>src/services/touchstone_server.go\<close> removes those it watches: the unconfirmed ones and those of the last
  blocks. This theory shows when the ledger is consistent again afterwards.
\<close>

section \<open>Forgotten transactions\<close>

text \<open>The miner has forgotten exactly the transactions in \<open>F\<close>.\<close>

definition forgets :: "'w MapiClient \<Rightarrow> string set \<Rightarrow> bool" where
  "forgets client F \<longleftrightarrow> (\<forall>txid w txState w'. GetTxState client txid w = (Ok txState, w') \<longrightarrow>
     (contains (ResultDescription (Ts_Payload txState)) ''No such mempool or blockchain transaction'' \<longleftrightarrow> txid \<in> F))"

text \<open>The transactions of which anything is stored.\<close>

definition recorded :: "(string \<Rightarrow> doc list) \<Rightarrow> string set" where
  "recorded db = Txid ` set (points_of db) \<union> {txid. \<exists>d \<in> set (db TBL_RAW_TX_INFO). d TXID = Some (BStr txid)}"

text \<open>What is stored without the transactions in \<open>F\<close>.\<close>

definition without :: "string set \<Rightarrow> TxPoint list \<Rightarrow> TxPoint list" where
  "without F pts = filter (\<lambda>p. Txid p \<notin> F) pts"

definition docs_without :: "string set \<Rightarrow> (bval option \<times> bval option) list \<Rightarrow> (bval option \<times> bval option) list" where
  "docs_without F ids = filter (\<lambda>i. \<forall>txid \<in> F. fst i \<noteq> Some (BStr txid)) ids"

text \<open>The stored transactions that spend a forgotten one are forgotten, too.\<close>

definition spenders_closed :: "('w, 'a) env \<Rightarrow> MsgTx set \<Rightarrow> string set \<Rightarrow> TxPoint list \<Rightarrow> bool" where
  "spenders_closed env S F pts \<longleftrightarrow> (\<forall>t \<in> S. TxHash (TxL env) t \<notin> F \<longrightarrow> points_of_tx env pts t \<noteq> [] \<longrightarrow>
     (\<forall>(i, vin) \<in> set (badge_ins t). Hash (PreviousOutPoint vin) \<notin> F))"

text \<open>No output that stays is marked as spent by a forgotten transaction.\<close>

definition marks_settled :: "string set \<Rightarrow> TxPoint list \<Rightarrow> bool" where
  "marks_settled F pts \<longleftrightarrow> (\<forall>p \<in> set pts. \<forall>q \<in> set pts.
     mirror_of p q \<longrightarrow> State p = TX_POINT_STATE_PRETTY_SURE_SPENT \<longrightarrow> Txid q \<in> F \<longrightarrow> Txid p \<in> F)"

lemma find_filter: "(\<And>x. P x \<Longrightarrow> Q x) \<Longrightarrow> find P (filter Q xs) = find P xs"
  by (induction xs) auto

lemma spent_point_without: "Hash (PreviousOutPoint vin) \<notin> F \<Longrightarrow> spent_point (without F pts) vin = spent_point pts vin"
  unfolding spent_point_def without_def by (rule find_filter) (auto simp: point_id_def vin_id_def)

lemma vins_spec_cong:
  "\<forall>(i, vin) \<in> set l. spent_point pts' vin = spent_point pts vin \<Longrightarrow> vins_spec pts' st txid ts l = vins_spec pts st txid ts l"
  by (induction l) (auto split: option.split)

lemma map_filter_cong: "(\<And>x. x \<in> set xs \<Longrightarrow> f x = g x) \<Longrightarrow> List.map_filter f xs = List.map_filter g xs"
  by (induction xs) (auto simp: List.map_filter_simps split: option.split)

lemma no_overflow_cong:
  assumes "\<forall>(i, vin) \<in> set (badge_ins t). spent_point pts' vin = spent_point pts vin"
  shows "no_overflow pts' t = no_overflow pts t"
proof -
  have "List.map_filter (spent_point pts') (map snd (badge_ins t)) = List.map_filter (spent_point pts) (map snd (badge_ins t))"
    by (rule map_filter_cong) (use assms in auto)
  then show ?thesis by (simp add: no_overflow_def)
qed

lemma good_without:
  assumes g: "good env S pts" and closed: "spenders_closed env S F pts"
  shows "good env S (without F pts)"
proof -
  have "stored_ok env (without F pts) t" if t: "t \<in> S" for t
  proof (cases "TxHash (TxL env) t \<in> F \<or> points_of_tx env pts t = []")
    case True
    then have "points_of_tx env (without F pts) t = []"
      by (auto simp: points_of_tx_def without_def filter_empty_conv)
    then show ?thesis by (simp add: stored_ok_def)
  next
    case False
    then have same: "\<forall>(i, vin) \<in> set (badge_ins t). spent_point (without F pts) vin = spent_point pts vin"
      using closed t spent_point_without unfolding spenders_closed_def by fastforce
    have "points_of_tx env (without F pts) t = points_of_tx env pts t"
      using False by (auto simp: points_of_tx_def without_def intro!: filter_cong)
    then show ?thesis
      using g t no_overflow_cong [OF same] vins_spec_cong [OF same] by (simp add: good_def stored_ok_def parse_spec_def)
  qed
  then show ?thesis using g by (auto simp: good_def without_def distinct_map_filter)
qed

lemma marks_without: "marks_ok pts \<Longrightarrow> marks_settled F pts \<Longrightarrow> marks_ok (without F pts)"
  unfolding marks_ok_def marks_settled_def without_def by fastforce

lemma without_without: "without F (without G pts) = without (F \<union> G) pts"
  by (simp add: without_def conj_commute)

lemma docs_without_docs_without: "docs_without F (docs_without G ids) = docs_without (F \<union> G) ids"
  by (simp add: docs_without_def ball_Un conj_commute)

lemma raw_ok_filter:
  assumes "raw_ok lib S db" "db' TBL_RAW_TX_INFO = filter (\<lambda>d. d TXID \<noteq> Some (BStr txid)) (db TBL_RAW_TX_INFO)"
  shows "raw_ok lib S db'"
  unfolding raw_ok_def
proof
  fix d
  assume "d \<in> set (db' TBL_RAW_TX_INFO)"
  then have d: "d \<in> set (db TBL_RAW_TX_INFO)" "d TXID \<noteq> Some (BStr txid)" using assms(2) by simp_all
  obtain t where t: "t \<in> S" "d TXID = Some (BStr (TxHash lib t))"
    "(\<exists>i < length (segments lib t). d = seg lib t i) \<or>
     d INDEX = Some (BInt TX_INFO_INDEX) \<and> (\<forall>i < length (segments lib t). seg lib t i \<in> set (db TBL_RAW_TX_INFO))"
    using assms(1) d(1) unfolding raw_ok_def by blast
  have "seg lib t i TXID = Some (BStr (TxHash lib t))" for i by (simp add: seg_def segment_doc_def)
  then have "seg lib t i \<in> set (db TBL_RAW_TX_INFO) \<Longrightarrow> seg lib t i \<in> set (db' TBL_RAW_TX_INFO)" for i
    using d(2) t(2) assms(2) by simp
  then show "\<exists>t \<in> S. d TXID = Some (BStr (TxHash lib t)) \<and> ((\<exists>i < length (segments lib t). d = seg lib t i) \<or>
      d INDEX = Some (BInt TX_INFO_INDEX) \<and> (\<forall>i < length (segments lib t). seg lib t i \<in> set (db' TBL_RAW_TX_INFO)))"
    using t by blast
qed


section \<open>CheckTxState\<close>

context node
begin

text \<open>The loop removes exactly the forgotten ones among the transactions it is given.\<close>

lemma check_loop:
  assumes f: "forgets (Client senv) F"
  shows "CheckTxState_loop senv infos s = (Ok u, s') \<Longrightarrow>
    wf_store (TxL (Env senv)) S (docs (World s)) (uniq (World s)) \<Longrightarrow>
    wf_store (TxL (Env senv)) S (docs (World s')) (uniq (World s')) \<and>
    points_of (docs (World s')) = without (F \<inter> Brief_Txid ` set infos) (points_of (docs (World s))) \<and>
    map raw_id (docs (World s') TBL_RAW_TX_INFO) =
      docs_without (F \<inter> Brief_Txid ` set infos) (map raw_id (docs (World s) TBL_RAW_TX_INFO))"
proof (induction infos arbitrary: s)
  case Nil
  then show ?case by (simp add: ret_def without_def docs_without_def)
next
  case (Cons info infos)
  let ?x = "Brief_Txid info" and ?wf = "\<lambda>w. wf_store (TxL (Env senv)) S (docs w) (uniq w)"
  obtain txState w1 where w1: "GetTxState (Client senv) ?x (World s) = (Ok txState, w1)"
    using Cons.prems(1) by (auto simp: andThen_eq_Ok world_eq)
  have same1: "docs w1 = docs (World s)" "uniq w1 = uniq (World s)"
    using net w1 unfolding net_ok_def miner_ok_def by blast+
  have known: "contains (ResultDescription (Ts_Payload txState)) ''No such mempool or blockchain transaction'' \<longleftrightarrow> ?x \<in> F"
    using f w1 unfolding forgets_def by blast
  have "\<exists>s2. CheckTxState_loop senv infos s2 = (Ok u, s') \<and> ?wf (World s2) \<and>
      points_of (docs (World s2)) = without (F \<inter> {?x}) (points_of (docs (World s))) \<and>
      map raw_id (docs (World s2) TBL_RAW_TX_INFO) = docs_without (F \<inter> {?x}) (map raw_id (docs (World s) TBL_RAW_TX_INFO))"
  proof (cases "?x \<in> F")
    case True
    obtain w2 v where w2: "ClearMsgTx (Env senv) ?x w1 = (Ok v, w2)"
      and rest: "CheckTxState_loop senv infos (s\<lparr>World := w2\<rparr>) = (Ok u, s')"
      using Cons.prems(1) w1 known True by (auto simp: andThen_eq_Ok world_eq)
    have "wf_db (docs w1) (uniq w1)" using Cons.prems(2) same1 by (simp add: wf_store_def)
    note res = ClearMsgTx_res [OF this refl w2]
    have "raw_ok (TxL (Env senv)) S (docs w2)"
      by (rule raw_ok_filter [where db = "docs w1"]) (use Cons.prems(2) same1 res in \<open>simp_all add: wf_store_def\<close>)
    then show ?thesis
      using rest res same1 True by (intro exI [of _ "s\<lparr>World := w2\<rparr>"]) (simp add: wf_store_def without_def docs_without_def filter_map comp_def raw_id_def)
  next
    case False
    then have none: "without (F \<inter> {?x}) pts = pts" "docs_without (F \<inter> {?x}) ids = ids" for pts ids
      by (simp_all add: without_def docs_without_def)
    let ?p = "Ts_Payload txState"
    let ?height = "if BlockHeight ?p = 0 then UNCONFIRM_TX_HEIGHT else BlockHeight ?p"
    show ?thesis
    proof (cases "Brief_BlockHash info \<noteq> BlockHash ?p \<or> Brief_Height info \<noteq> ?height")
      case True
      obtain v w2 s2 where w2: "SetMsgTxHeightHash (Db (Env senv)) ?x (BlockHeight ?p) (BlockHash ?p) w1 = (Ok v, w2)"
        and s2: "AddNeedRecomputehashPartitionByHeight senv (Brief_Height info) (s\<lparr>World := w2\<rparr>) = (Ok (), s2)"
        and rest: "CheckTxState_loop senv infos s2 = (Ok u, s')"
        using Cons.prems(1) w1 known False True by (auto simp: andThen_eq_Ok world_eq)
      have "?wf w1" using Cons.prems(2) same1 by simp
      note res = height_res [OF this w2]
      show ?thesis
        using rest res same1 none mark_partition [OF s2] by (intro exI [of _ s2]) (simp add: points_of_def)
    next
      case False
      then have "CheckTxState_loop senv infos (s\<lparr>World := w1\<rparr>) = (Ok u, s')"
        using Cons.prems(1) w1 known \<open>?x \<notin> F\<close> by (auto simp: andThen_eq_Ok world_eq)
      then show ?thesis using Cons.prems(2) same1 none by (intro exI [of _ "s\<lparr>World := w1\<rparr>"]) simp
    qed
  qed
  then obtain s2 where s2: "CheckTxState_loop senv infos s2 = (Ok u, s')" "?wf (World s2)"
    "points_of (docs (World s2)) = without (F \<inter> {?x}) (points_of (docs (World s)))"
    "map raw_id (docs (World s2) TBL_RAW_TX_INFO) = docs_without (F \<inter> {?x}) (map raw_id (docs (World s) TBL_RAW_TX_INFO))"
    by blast
  have "F \<inter> Brief_Txid ` set (info # infos) = F \<inter> Brief_Txid ` set infos \<union> F \<inter> {?x}" by auto
  then show ?case using Cons.IH [OF s2(1,2)] s2(3,4) by (simp add: without_without docs_without_docs_without)
qed

lemma check_reorg:
  assumes f: "forgets (Client senv) F" and w: "node_inv docs uniq (service_inv (Env senv) S docs uniq) s"
    and fee: "GetFeeQuote (Client senv) (World s) = (Ok fq, w1)" and run: "CheckTxState senv s = (Ok u, s')"
    and closed: "spenders_closed (Env senv) S F (points_of (docs (World s)))"
    and settled: "marks_settled F (points_of (docs (World s)))"
    and seen: "F \<inter> recorded (docs (World s)) \<subseteq> watched (docs (World s)) (CurrentHighestBlockHeight (Fq_Payload fq))"
  shows "node_inv docs uniq (service_inv (Env senv) S docs uniq) s' \<and>
    points_of (docs (World s')) = without F (points_of (docs (World s))) \<and>
    map raw_id (docs (World s') TBL_RAW_TX_INFO) = docs_without F (map raw_id (docs (World s) TBL_RAW_TX_INFO))"
proof -
  let ?h = "CurrentHighestBlockHeight (Fq_Payload fq)" and ?W = "watched (docs (World s))"
  obtain infos w2 where infos: "GetMsgTxBriefInfoByHeightRange (Db (Env senv)) (sub64 ?h 8) (add64 ?h 1) True w1 = (Ok infos, w2)"
    and loop: "CheckTxState_loop senv infos (s\<lparr>World := w2\<rparr>) = (Ok u, s')"
    using run fee by (auto simp: CheckTxState_def andThen_eq_Ok world_eq Let_def)
  have same1: "docs w1 = docs (World s)" "uniq w1 = uniq (World s)"
    using net fee unfolding net_ok_def mapi_ok_def by blast+
  have same2: "Brief_Txid ` set infos = ?W ?h" "docs w2 = docs (World s)" "uniq w2 = uniq (World s)"
    using infos_watched [OF infos] same1 by (simp_all add: same_def)
  have inv: "service_inv (Env senv) S docs uniq (World s)" using w by (simp add: node_inv_def)
  then have "wf_store (TxL (Env senv)) S (docs w2) (uniq w2)" using same2 by (simp add: service_inv_def store_inv_def)
  with check_loop [OF f loop] have res: "wf_store (TxL (Env senv)) S (docs (World s')) (uniq (World s'))"
    "points_of (docs (World s')) = without (F \<inter> ?W ?h) (points_of (docs (World s)))"
    "map raw_id (docs (World s') TBL_RAW_TX_INFO) = docs_without (F \<inter> ?W ?h) (map raw_id (docs (World s) TBL_RAW_TX_INFO))"
    by (simp_all add: same2)
  have pts: "points_of (docs (World s')) = without F (points_of (docs (World s)))"
    unfolding res(2) without_def by (rule filter_cong) (use seen in \<open>auto simp: recorded_def\<close>)
  have asked: "txid \<in> ?W ?h" if "txid \<in> F" "d \<in> set (docs (World s) TBL_RAW_TX_INFO)" "d TXID = Some (BStr txid)" for txid d
    using seen that by (auto simp: recorded_def)
  have raw: "map raw_id (docs (World s') TBL_RAW_TX_INFO) = docs_without F (map raw_id (docs (World s) TBL_RAW_TX_INFO))"
    unfolding res(3) docs_without_def
  proof (rule filter_cong [OF refl])
    fix i
    assume "i \<in> set (map raw_id (docs (World s) TBL_RAW_TX_INFO))"
    then obtain d where "d \<in> set (docs (World s) TBL_RAW_TX_INFO)" "fst i = d TXID" by (auto simp: raw_id_def)
    then show "(\<forall>txid \<in> F \<inter> ?W ?h. fst i \<noteq> Some (BStr txid)) = (\<forall>txid \<in> F. fst i \<noteq> Some (BStr txid))"
      using asked by (metis IntE IntI)
  qed
  have "ledger_inv (Env senv) S docs uniq (World s')"
    using inv res(1) good_without [OF _ closed] marks_without [OF _ settled]
    by (simp add: ledger_inv_def pts wf_store_def service_inv_def store_inv_def)
  moreover have "node_inv docs uniq (\<lambda>w. wf_addrs (docs w) (uniq w)) s'" "node_inv docs uniq (\<lambda>w. wf_parts (docs w) (uniq w)) s'"
    using keepsD [OF check_addrs run] keepsD [OF check_parts run] w by (simp_all add: node_inv_def service_inv_def)
  ultimately show ?thesis
    using res(1) pts raw by (simp add: node_inv_def service_inv_def store_inv_def)
qed

end


section \<open>Histories with reorganisations\<close>

text \<open>
  The answers of the miner change when the chain is reorganised; they are those of another client. As long as
  they do not, the transactions \<open>S\<close> are those of the chain, and the miner knows them.
\<close>

definition with_miner :: "'w MapiClient \<Rightarrow> ('w, 'a, 'k, 'p, 's) penv \<Rightarrow> ('w, 'a, 'k, 'p, 's) penv" where
  "with_miner client penv = penv\<lparr>Senv := (Senv penv)\<lparr>Client := client\<rparr>\<rparr>"

lemma with_miner_simps [simp]: "Client (Senv (with_miner client penv)) = client" "Env (Senv (with_miner client penv)) = Env (Senv penv)"
  by (simp_all add: with_miner_def)

definition epoch ::
  "('w \<Rightarrow> string \<Rightarrow> doc list) \<Rightarrow> ('w \<Rightarrow> string \<Rightarrow> string list set) \<Rightarrow> ('w, 'a, 'k, 'p, 's) penv \<Rightarrow> 'w MapiClient \<Rightarrow> MsgTx set \<Rightarrow> bool" where
  "epoch docs uniq penv client S \<longleftrightarrow> net_ok docs uniq (Senv (with_miner client penv)) \<and>
     chain_ok (Senv (with_miner client penv)) S \<and> knows client (txids_of (Senv penv) S)"

text \<open>
  A reorganisation that \<open>CheckTxState\<close> can repair: it watches what is forgotten, the stored transactions that spend a
  forgotten one are forgotten, too, and no output that stays is marked as spent by a forgotten one.
\<close>

definition repairable :: "('w \<Rightarrow> string \<Rightarrow> doc list) \<Rightarrow> ('w, 'a) senv \<Rightarrow> MsgTx set \<Rightarrow> string set \<Rightarrow> 'w server \<Rightarrow> bool" where
  "repairable docs senv S F s \<longleftrightarrow> (\<exists>fq w1. GetFeeQuote (Client senv) (World s) = (Ok fq, w1) \<and>
       F \<inter> recorded (docs (World s)) \<subseteq> watched (docs (World s)) (CurrentHighestBlockHeight (Fq_Payload fq))) \<and>
     spenders_closed (Env senv) S F (points_of (docs (World s))) \<and> marks_settled F (points_of (docs (World s)))"

text \<open>
  A program that starts on an empty or a consistent database and makes any steps, in which now and then the
  miner forgets the transactions in \<open>F\<close>: then the next step is a round of \<open>CheckTxStateLoop\<close> that succeeds. The chain
  afterwards, \<open>S'\<close>, has what is not forgotten of \<open>S\<close>, and maybe other transactions.
\<close>

inductive reorg_history ::
  "('w \<Rightarrow> string \<Rightarrow> doc list) \<Rightarrow> ('w \<Rightarrow> string \<Rightarrow> string list set) \<Rightarrow> ('w, 'a, 'k, 'p, 's) penv
     \<Rightarrow> 'w MapiClient \<Rightarrow> MsgTx set \<Rightarrow> ('w, 'k) process \<Rightarrow> bool"
  for docs uniq penv where
  init: "epoch docs uniq penv client S \<Longrightarrow> db_ok docs uniq (service_inv (Env (Senv penv)) S docs uniq) w0 \<Longrightarrow>
    reorg_history docs uniq penv client S (stopped w0)"
| step: "reorg_history docs uniq penv client S p \<Longrightarrow> process_step (with_miner client penv) p p' \<Longrightarrow>
    reorg_history docs uniq penv client S p'"
| reorg: "reorg_history docs uniq penv client S p \<Longrightarrow> epoch docs uniq penv client' S' \<Longrightarrow> forgets client' F \<Longrightarrow>
    {t \<in> S. TxHash (TxL (Env (Senv penv))) t \<notin> F} \<subseteq> S' \<Longrightarrow>
    repairable docs (Senv (with_miner client' penv)) S F (TouchstoneServer p) \<Longrightarrow>
    Running p \<Longrightarrow> Goroutines p = gs1 @ GoCheckTxStateLoop # gs2 \<Longrightarrow>
    CheckTxState (Senv (with_miner client' penv)) (TouchstoneServer p) = (Ok u, s') \<Longrightarrow>
    reorg_history docs uniq penv client' S' (schedule (with_miner client' penv) gs1 GoCheckTxStateLoop gs2 p)"

text \<open>Without the forgotten transactions the ledger is one of the new chain.\<close>

lemma good_chain:
  assumes g: "good env S pts" and gone: "\<forall>p \<in> set pts. Txid p \<notin> F"
    and sub: "{t \<in> S. TxHash (TxL env) t \<notin> F} \<subseteq> S'" and inj: "inj_on (TxHash (TxL env)) S'"
  shows "good env S' pts"
proof -
  have old: "\<exists>t \<in> S \<inter> S'. Txid p = TxHash (TxL env) t" if p: "p \<in> set pts" for p
  proof -
    obtain t where "t \<in> S" "Txid p = TxHash (TxL env) t" using g p by (auto simp: good_def)
    moreover have "Txid p \<notin> F" using gone p by blast
    ultimately show ?thesis using sub by auto
  qed
  have "stored_ok env pts t" if t: "t \<in> S'" for t
  proof (cases "points_of_tx env pts t = []")
    case False
    then obtain p where p: "p \<in> set pts" "Txid p = TxHash (TxL env) t" by (auto simp: points_of_tx_def filter_empty_conv)
    obtain t' where "t' \<in> S \<inter> S'" "Txid p = TxHash (TxL env) t'" using old [OF p(1)] by blast
    then have "t \<in> S" using inj_onD [OF inj _ t] p(2) by fastforce
    then show ?thesis using g by (simp add: good_def)
  qed (simp add: stored_ok_def)
  then show ?thesis using g old by (fastforce simp: good_def)
qed

lemma service_chain:
  assumes inv: "service_inv env S docs uniq w" and gone: "\<forall>p \<in> set (points_of (docs w)). Txid p \<notin> F"
    and raw: "\<forall>d \<in> set (docs w TBL_RAW_TX_INFO). \<forall>txid \<in> F. d TXID \<noteq> Some (BStr txid)"
    and sub: "{t \<in> S. TxHash (TxL env) t \<notin> F} \<subseteq> S'" and inj: "inj_on (TxHash (TxL env)) S'"
  shows "service_inv env S' docs uniq w"
proof -
  have "raw_ok (TxL env) S' (docs w)"
    unfolding raw_ok_def
  proof
    fix d
    assume d: "d \<in> set (docs w TBL_RAW_TX_INFO)"
    then obtain t where t: "t \<in> S" "d TXID = Some (BStr (TxHash (TxL env) t))"
      "(\<exists>i < length (segments (TxL env) t). d = seg (TxL env) t i) \<or> d INDEX = Some (BInt TX_INFO_INDEX) \<and>
       (\<forall>i < length (segments (TxL env) t). seg (TxL env) t i \<in> set (docs w TBL_RAW_TX_INFO))"
      using inv unfolding service_inv_def store_inv_def wf_store_def raw_ok_def by blast
    have "TxHash (TxL env) t \<notin> F" using raw d t(2) by blast
    then have "t \<in> S'" using sub t(1) by blast
    then show "\<exists>t \<in> S'. d TXID = Some (BStr (TxHash (TxL env) t)) \<and> ((\<exists>i < length (segments (TxL env) t). d = seg (TxL env) t i) \<or>
        d INDEX = Some (BInt TX_INFO_INDEX) \<and>
        (\<forall>i < length (segments (TxL env) t). seg (TxL env) t i \<in> set (docs w TBL_RAW_TX_INFO)))" using t by blast
  qed
  then show ?thesis
    using inv good_chain [OF _ gone sub inj] by (simp add: service_inv_def store_inv_def ledger_inv_def wf_store_def)
qed

lemma reorg_step:
  assumes db: "mongo (Db (Env (Senv penv))) docs uniq" and new: "epoch docs uniq penv client' S'" and f: "forgets client' F"
    and sub: "{t \<in> S. TxHash (TxL (Env (Senv penv))) t \<notin> F} \<subseteq> S'"
    and rep: "repairable docs (Senv (with_miner client' penv)) S F s"
    and run: "CheckTxState (Senv (with_miner client' penv)) s = (Ok u, s')"
    and w: "node_inv docs uniq (service_inv (Env (Senv penv)) S docs uniq) s"
  shows "node_inv docs uniq (service_inv (Env (Senv penv)) S' docs uniq) s'"
proof -
  let ?senv = "Senv (with_miner client' penv)"
  have node: "node ?senv docs uniq" using db new by (simp add: node_def node_axioms_def epoch_def)
  obtain fq w1 where fee: "GetFeeQuote (Client ?senv) (World s) = (Ok fq, w1)"
    "F \<inter> recorded (docs (World s)) \<subseteq> watched (docs (World s)) (CurrentHighestBlockHeight (Fq_Payload fq))"
    "spenders_closed (Env ?senv) S F (points_of (docs (World s)))" "marks_settled F (points_of (docs (World s)))"
    using rep unfolding repairable_def by blast
  have res: "node_inv docs uniq (service_inv (Env (Senv penv)) S docs uniq) s'"
    "points_of (docs (World s')) = without F (points_of (docs (World s)))"
    "map raw_id (docs (World s') TBL_RAW_TX_INFO) = docs_without F (map raw_id (docs (World s) TBL_RAW_TX_INFO))"
    using node.check_reorg [OF node _ _ fee(1) run fee(3,4,2)] f w by simp_all
  have "\<forall>i \<in> set (map raw_id (docs (World s') TBL_RAW_TX_INFO)). \<forall>txid \<in> F. fst i \<noteq> Some (BStr txid)"
    unfolding res(3) docs_without_def by simp
  then have "\<forall>d \<in> set (docs (World s') TBL_RAW_TX_INFO). \<forall>txid \<in> F. d TXID \<noteq> Some (BStr txid)" by (simp add: raw_id_def)
  moreover have "\<forall>p \<in> set (points_of (docs (World s'))). Txid p \<notin> F" by (simp add: res(2) without_def)
  moreover have "inj_on (TxHash (TxL (Env (Senv penv)))) S'" using new by (simp add: epoch_def chain_ok_def)
  ultimately show ?thesis using service_chain [OF _ _ _ sub] res(1) by (simp add: node_inv_def)
qed

lemma schedule_check:
  assumes "CheckTxState (Senv penv) (TouchstoneServer p) = (Ok u, s')"
  shows "TouchstoneServer (schedule penv gs1 GoCheckTxStateLoop gs2 p) = s'" "Running (schedule penv gs1 GoCheckTxStateLoop gs2 p) = Running p"
  using assms by (simp_all add: schedule_def CheckTxStateLoop_def on_server_def attempt_def ret_def)

lemma reorg_history_inv:
  assumes db: "mongo (Db (Env (Senv penv))) docs uniq" and "reorg_history docs uniq penv client S p"
  shows "epoch docs uniq penv client S \<and> process_inv docs uniq (service_inv (Env (Senv penv)) S docs uniq) p"
  using assms(2)
proof induction
  case (init client S w0)
  then show ?case by (simp add: process_inv_def stopped_def start_def new_server_def)
next
  case (step client S p p')
  have "known_node (Senv (with_miner client penv)) docs uniq S"
    using db step.IH
    by (simp add: known_node_def known_node_axioms_def chain_node_def chain_node_axioms_def node_def node_axioms_def epoch_def)
  then have "process_node (Senv (with_miner client penv)) docs uniq (service_inv (Env (Senv penv)) S docs uniq)"
    using known_node.program_node by fastforce
  from process_node.process_step_inv [OF this step.hyps(2) refl] show ?case using step.IH by blast
next
  case (reorg client S p client' S' F gs1 gs2 u s')
  have "node_inv docs uniq (service_inv (Env (Senv penv)) S docs uniq) (TouchstoneServer p)"
    using reorg by (simp add: process_inv_def)
  from reorg_step [OF db reorg.hyps(2,3,4,5,8) this] show ?case
    using schedule_check [OF reorg.hyps(8)] reorg.hyps(2,6) by (simp add: process_inv_def)
qed


section \<open>Properties\<close>

text \<open>
  C2: the invariant under reorganisations. A program starts on an empty or a consistent database and makes
  any steps of its model: it is killed and restarted, serves any HTTP requests and calls of peers, and runs its loops, with any
  call failing. Now and then the chain is reorganised: the miner forgets the transactions in some set and may have others instead, and the
  next step is a round of \<open>CheckTxStateLoop\<close>. If the reorganisation is one it can repair, that is, the forgotten transactions
  are among those it watches, no stored transaction that is not forgotten spends one of them, and no output that stays is
  marked as spent by one of them, and if the round succeeds, then the invariant of the running
  program holds for the transactions of the current chain in every state: balances are not negative and at most the
  supply, which is at most the largest issuance, marks of spent points are right, everything recorded is a
  transaction of the current chain, and there is one entry for an address or partition.
\<close>

theorem reorg_history_invariant:
  assumes "mongo (Db (Env (Senv penv))) docs uniq" and "reorg_history docs uniq penv client S p"
  shows "0 \<le> balance (points_of (docs (World (TouchstoneServer p)))) a c \<and>
    balance (points_of (docs (World (TouchstoneServer p)))) a c \<le> total_supply (points_of (docs (World (TouchstoneServer p)))) c \<and>
    total_supply (points_of (docs (World (TouchstoneServer p)))) c \<le> MAX_CREATE_BADGE_VALUE \<and>
    marks_ok (points_of (docs (World (TouchstoneServer p)))) \<and> raw_ok (TxL (Env (Senv penv))) S (docs (World (TouchstoneServer p))) \<and>
    distinct (map Info_Addr (addrs_of (docs (World (TouchstoneServer p))))) \<and>
    distinct (map Part_Id (parts_of (docs (World (TouchstoneServer p)))))"
proof -
  note inv = reorg_history_inv [OF assms]
  then have "db_ok docs uniq (service_inv (Env (Senv penv)) S docs uniq) (World (TouchstoneServer p))"
    by (auto simp: process_inv_def node_inv_def db_ok_def split: if_splits)
  then show ?thesis using db_ok_means [of docs uniq "Senv (with_miner client penv)" S] inv by (simp add: epoch_def)
qed

text \<open>
  C4: a reorganisation. Let the miner have forgotten the transactions in \<open>F\<close>, which \<open>CheckTxState\<close> finds
  among the unconfirmed ones and those of the last blocks. If the stored transactions that spend a forgotten
  one are forgotten, too, and no remaining output is marked as spent by a forgotten transaction, then a
  successful \<open>CheckTxState\<close> leaves exactly the points and the documents of the other transactions, and these are
  a consistent ledger of the chain: what is stored of a transaction agrees with its scripts and with what it
  spends, and the marks of spent outputs are right.
\<close>

theorem CheckTxState_reorg:
  assumes "mongo (Db (Env senv)) docs uniq" and "net_ok docs uniq senv"
    and "service_inv (Env senv) S docs uniq (World s)" and "peers_ok docs uniq (Peers s)"
    and "forgets (Client senv) F" and "GetFeeQuote (Client senv) (World s) = (Ok fq, w1)"
    and "F \<inter> recorded (docs (World s)) \<subseteq> watched (docs (World s)) (CurrentHighestBlockHeight (Fq_Payload fq))"
    and "spenders_closed (Env senv) S F (points_of (docs (World s)))"
    and "marks_settled F (points_of (docs (World s)))"
    and "CheckTxState senv s = (Ok u, s')"
  shows "service_inv (Env senv) S docs uniq (World s') \<and>
    points_of (docs (World s')) = without F (points_of (docs (World s))) \<and>
    map raw_id (docs (World s') TBL_RAW_TX_INFO) = docs_without F (map raw_id (docs (World s) TBL_RAW_TX_INFO))"
proof -
  have "node senv docs uniq" using assms(1,2) by (simp add: node_def node_axioms_def)
  from node.check_reorg [OF this assms(5) _ assms(6,10,8,9,7)] show ?thesis
    using assms(3,4) by (simp add: node_inv_def)
qed

text \<open>A miner with the same answer about every transaction.\<close>

definition reorg_senv :: "string \<Rightarrow> string \<Rightarrow> (mem, byte list) senv" where
  "reorg_senv result desc = demo_senv\<lparr>Env := demo_env\<lparr>TxL := demo_lib (demo_issue 1 100)\<rparr>, Client := answering result desc 895\<rparr>"

abbreviation gone :: string where
  "gone \<equiv> ''No such mempool or blockchain transaction''"

definition reorg_point :: TxPoint where
  "reorg_point = (demo_point 1 100)\<lparr>Addr := hex_encode (replicate 20 7)\<rparr>"

definition reorg_server :: "mem server" where
  "reorg_server = new_server
     \<lparr>mem_docs = (\<lambda>c. [])(TBL_TX_POINT := [doc_of_TxPoint reorg_point],
        TBL_RAW_TX_INFO := [segment_doc (demo_txid 1) 0 ''01'', doc_of_RawTxInfo ((demo_info 1 TX_STATE_CLOSED)\<lparr>Raw_Height := 895\<rparr>)]),
      mem_uniq = (\<lambda>c. [])(TBL_TX_POINT := [[TXID, INDEX, TYPE_FIELD]], TBL_RAW_TX_INFO := [[TXID, INDEX]],
        TBL_ADDR_INFO := [[ADDR]], TBL_PARTITION_INFO := [[ID]])\<rparr>"

interpretation demo_reorg: chain_node "reorg_senv result desc" mem_docs "\<lambda>w c. set (mem_uniq w c)" "{demo_issue 1 100}"
proof -
  have "badge_ins (demo_issue 1 100) = []" by (simp add: badge_ins_def demo_issue_def indexed_def)
  then have "chain_ok (reorg_senv result desc) {demo_issue 1 100}"
    using hash_addr_lib_ok
    by (auto simp: chain_ok_def reorg_senv_def no_double_spend_def DeserializeTxBytes_def tx_ok_def demo_lib_def
        intro!: exI [of _ "replicate 31 0 @ [_]"])
  moreover have "net_ok mem_docs (\<lambda>w c. set (mem_uniq w c)) (reorg_senv result desc)"
    using answering_ok by (simp add: net_ok_def runtime_ok_def reorg_senv_def demo_senv_def fail_def)
  moreover have "mongo (Db (Env (reorg_senv result desc))) mem_docs (\<lambda>w c. set (mem_uniq w c))"
    by (simp add: reorg_senv_def mem.mongo_axioms)
  ultimately show "chain_node (reorg_senv result desc) mem_docs (\<lambda>w c. set (mem_uniq w c)) {demo_issue 1 100}"
    by (simp add: chain_node_def chain_node_axioms_def node_def node_axioms_def)
qed

lemma reorg_server_inv:
  "service_inv (Env (reorg_senv result desc)) {demo_issue 1 100} mem_docs (\<lambda>w c. set (mem_uniq w c)) (World reorg_server)"
proof -
  let ?env = "Env (reorg_senv result desc)" and ?db = "mem_docs (World reorg_server)" and ?t = "demo_issue 1 100"
  have pts: "points_of ?db = [reorg_point]" by (simp add: points_of_def reorg_server_def new_server_def)
  have env: "?env = demo_env\<lparr>TxL := demo_lib ?t\<rparr>" by (simp add: reorg_senv_def)
  have "parse_spec ?env [reorg_point] Map.empty ?t 0 = Ok \<lparr>Vins = [], Vouts = [strip reorg_point]\<rparr>"
    unfolding env by code_simp
  moreover have "badge_ins ?t = []" by (simp add: badge_ins_def demo_issue_def indexed_def)
  moreover have own: "TxHash (TxL ?env) ?t = demo_txid 1" "Txid reorg_point = demo_txid 1"
    by (simp_all add: reorg_senv_def demo_issue_def reorg_point_def demo_point_def)
  ultimately have "good ?env {?t} [reorg_point]"
    by (auto simp: good_def stored_ok_def points_of_tx_def no_overflow_def List.map_filter_simps intro!: exI [of _ 1])
  moreover have "segments (TxL ?env) ?t = [''01'']"
  proof -
    have "SeserializeMsgTxStr (TxL ?env) ?t = ''01''" unfolding env by code_simp
    then show ?thesis
      by (simp add: segments_def SplitString_def SplitString_loop.simps [of "''01''"] MAX_SEGMENT_SIZE_def)
  qed
  then have "raw_ok (TxL ?env) {?t} ?db"
    using own by (simp add: raw_ok_def seg_def reorg_server_def new_server_def demo_info_def) (simp add: segment_doc_def)
  moreover have "marks_ok [reorg_point]"
    by (simp add: marks_ok_def reorg_point_def demo_point_def mirror_of_def TX_POINT_STATE_MAY_BE_UNSPENT_def
        TX_POINT_STATE_PRETTY_SURE_SPENT_def)
  ultimately show ?thesis
    by (simp add: service_inv_def store_inv_def wf_store_def ledger_inv_def pts wf_db_def wf_addrs_def wf_parts_def
        addrs_of_def parts_of_def)
       (simp add: reorg_server_def new_server_def raw_id_def demo_info_def segment_doc_def TX_INFO_INDEX_def)
qed

lemma reorg_seen: "recorded (mem_docs (World reorg_server)) \<subseteq> watched (mem_docs (World reorg_server)) 900"
proof -
  have pts: "points_of (mem_docs (World reorg_server)) = [reorg_point]" by (simp add: points_of_def reorg_server_def new_server_def)
  have "recorded (mem_docs (World reorg_server)) = {demo_txid 1}"
    by (auto simp: recorded_def pts reorg_point_def demo_point_def)
       (auto simp: reorg_server_def new_server_def segment_doc_def demo_info_def)
  moreover have "demo_txid 1 \<in> watched (mem_docs (World reorg_server)) 900" by code_simp
  ultimately show ?thesis by simp
qed

theorem CheckTxState_reorg_witness:
  "points_of (mem_docs (World reorg_server)) \<noteq> [] \<and>
   points_of (mem_docs (World (snd (CheckTxState (reorg_senv RETURN_RESULT_SUCCESS gone) reorg_server)))) = [] \<and>
   service_inv (Env (reorg_senv RETURN_RESULT_SUCCESS gone)) {demo_issue 1 100} mem_docs (\<lambda>w c. set (mem_uniq w c))
     (World (snd (CheckTxState (reorg_senv RETURN_RESULT_SUCCESS gone) reorg_server)))"
proof -
  let ?pts = "points_of (mem_docs (World reorg_server))"
  have "succeeds (CheckTxState (reorg_senv RETURN_RESULT_SUCCESS gone) reorg_server)" by code_simp
  then obtain u where run: "CheckTxState (reorg_senv RETURN_RESULT_SUCCESS gone) reorg_server = (Ok u, snd (CheckTxState (reorg_senv RETURN_RESULT_SUCCESS gone) reorg_server))"
    by (rule succeedsE)
  have pts: "?pts = [reorg_point]" by (simp add: points_of_def reorg_server_def new_server_def)
  have f: "forgets (Client (reorg_senv RETURN_RESULT_SUCCESS gone)) UNIV"
    by (simp add: forgets_def reorg_senv_def)
  have fee: "GetFeeQuote (Client (reorg_senv RETURN_RESULT_SUCCESS gone)) (World reorg_server) =
      (Ok \<lparr>Fq_Payload = demo_quote, Fq_CertInfo = demo_cert\<rparr>, World reorg_server)"
    by (simp add: reorg_senv_def)
  have "service_inv (Env (reorg_senv RETURN_RESULT_SUCCESS gone)) {demo_issue 1 100} mem_docs (\<lambda>w c. set (mem_uniq w c))
     (World (snd (CheckTxState (reorg_senv RETURN_RESULT_SUCCESS gone) reorg_server))) \<and>
     points_of (mem_docs (World (snd (CheckTxState (reorg_senv RETURN_RESULT_SUCCESS gone) reorg_server)))) = without UNIV ?pts"
    using CheckTxState_reorg [OF demo_reorg.mongo_axioms demo_reorg.net reorg_server_inv _ f fee _ _ _ run] reorg_seen
    by (simp add: demo_quote_def spenders_closed_def marks_settled_def peers_ok_def reorg_server_def new_server_def)
  then show ?thesis by (simp add: pts without_def)
qed

text \<open>A program that finds a transaction of the last blocks in its database, and whose miner then forgets it.\<close>

definition reorg_json :: http_json where
  "reorg_json = demo_json
     \<lparr>JsonResponse := (\<lambda>r. Ok (case Http_Data r of DataBalance n \<Rightarrow> format_int n | _ \<Rightarrow> Http_Msg r)),
      JsonGetAddrBalance := (\<lambda>body request. Ok \<lparr>Gab_Addr = Some body, Gab_BadgeCode = Some (demo_txid 1)\<rparr>)\<rparr>"

definition reorg_penv :: "(mem, byte list, byte, byte, byte list) penv" where
  "reorg_penv = demo_penv\<lparr>Senv := reorg_senv RETURN_RESULT_SUCCESS [], HttpJson := reorg_json\<rparr>"

definition reorg_started :: mem where
  "reorg_started = snd (CreateIndexes mem_mgo (World reorg_server))"

definition reorg_running :: "(mem, byte) process" where
  "reorg_running = schedule reorg_penv [] GoMain [] (start reorg_started)"

definition reorg_done :: "(mem, byte) process" where
  "reorg_done = schedule (with_miner (answering RETURN_RESULT_FAILURE gone 895) reorg_penv) [GoSyncStateLoop] GoCheckTxStateLoop [GoSetSpentLoop]
     reorg_running"

lemma reorg_started: "CreateIndexes mem_mgo (World reorg_server) = (Ok (), reorg_started)" "mem_docs reorg_started = mem_docs (World reorg_server)"
proof -
  have "succeeds (CreateIndexes mem_mgo (World reorg_server))" by code_simp
  then show run: "CreateIndexes mem_mgo (World reorg_server) = (Ok (), reorg_started)" unfolding reorg_started_def by (rule succeedsE) simp
  show "mem_docs reorg_started = mem_docs (World reorg_server)" using mem.CreateIndexes_res [OF run] by simp
qed

lemma reorg_running: "World (TouchstoneServer reorg_running) = reorg_started" "Peers (TouchstoneServer reorg_running) = []"
  "Goroutines reorg_running = [GoSyncStateLoop] @ GoCheckTxStateLoop # [GoSetSpentLoop]" "Running reorg_running"
proof -
  have "hex_decode ''07'' = Ok [7 :: byte]" by code_simp
  then show "World (TouchstoneServer reorg_running) = reorg_started" "Peers (TouchstoneServer reorg_running) = []"
    "Goroutines reorg_running = [GoSyncStateLoop] @ GoCheckTxStateLoop # [GoSetSpentLoop]" "Running reorg_running"
    by (simp_all add: reorg_running_def schedule_def main_init_def Init_def SetPrivateKey_def ConnectPeer_def start_def new_server_def
        reorg_penv_def demo_penv_def go_def on_server_def go_simps attempt_def modify_def gets_def after_def)
qed

lemma reorg_before:
  "reorg_history mem_docs (\<lambda>w c. set (mem_uniq w c)) reorg_penv (answering RETURN_RESULT_SUCCESS [] 895) {demo_issue 1 100} reorg_running"
proof -
  let ?uniq = "\<lambda>w c. set (mem_uniq w c)" and ?old = "answering RETURN_RESULT_SUCCESS [] 895" and ?S = "{demo_issue 1 100}"
  have old: "with_miner ?old reorg_penv = reorg_penv" by (simp add: with_miner_def reorg_penv_def reorg_senv_def)
  have senv: "Senv reorg_penv = reorg_senv RETURN_RESULT_SUCCESS []" by (simp add: reorg_penv_def)
  have "\<not> contains [] gone" by code_simp
  then have "epoch mem_docs ?uniq reorg_penv ?old ?S"
    using demo_reorg.net demo_reorg.chain by (simp add: epoch_def old senv knows_def)
  moreover have "db_ok mem_docs ?uniq (service_inv (Env (Senv reorg_penv)) ?S mem_docs ?uniq) (World reorg_server)"
    using reorg_server_inv by (simp add: db_ok_def senv)
  ultimately have "reorg_history mem_docs ?uniq reorg_penv ?old ?S (stopped (World reorg_server))" by (rule reorg_history.init)
  moreover have "process_step reorg_penv (stopped (World reorg_server)) (start reorg_started)"
    by (rule process_step.restart) (simp_all add: stopped_def start_def new_server_def senv reorg_senv_def reorg_started)
  moreover have "process_step reorg_penv (start reorg_started) reorg_running"
    unfolding reorg_running_def by (rule process_step.goroutine) (simp_all add: start_def)
  ultimately show ?thesis by (metis old reorg_history.step)
qed

lemma reorg_after:
  "reorg_history mem_docs (\<lambda>w c. set (mem_uniq w c)) reorg_penv (answering RETURN_RESULT_FAILURE gone 895) {} reorg_done"
proof -
  let ?uniq = "\<lambda>w c. set (mem_uniq w c)" and ?new = "answering RETURN_RESULT_FAILURE gone 895"
    and ?senv = "reorg_senv RETURN_RESULT_FAILURE gone"
  have senv: "Senv (with_miner ?new reorg_penv) = ?senv" by (simp add: with_miner_def reorg_penv_def reorg_senv_def)
  have "Client ?senv = ?new" by (simp add: reorg_senv_def)
  then have "chain_ok ?senv {}"
    using demo_reorg.chain [of RETURN_RESULT_FAILURE gone] by (simp add: chain_ok_def acknowledged_def no_double_spend_def)
  then have ep: "epoch mem_docs ?uniq reorg_penv ?new {}" using demo_reorg.net by (simp add: epoch_def senv knows_def)
  have f: "forgets ?new UNIV" by (simp add: forgets_def)
  have rep: "repairable mem_docs ?senv {demo_issue 1 100} UNIV (TouchstoneServer reorg_running)"
    using reorg_seen by (simp add: repairable_def reorg_running reorg_started reorg_senv_def demo_quote_def spenders_closed_def marks_settled_def)
  have "succeeds (CheckTxState ?senv (TouchstoneServer reorg_running))" by code_simp
  then obtain u where "CheckTxState ?senv (TouchstoneServer reorg_running) = (Ok u, snd (CheckTxState ?senv (TouchstoneServer reorg_running)))"
    by (rule succeedsE)
  from reorg_history.reorg [OF reorg_before ep f _ _ reorg_running(4,3)] this rep show ?thesis unfolding reorg_done_def senv by simp
qed

theorem reorg_history_invariant_witness:
  "points_of (mem_docs (World (TouchstoneServer reorg_running))) = [reorg_point] \<and>
   mem_docs (World (TouchstoneServer reorg_done)) TBL_RAW_TX_INFO = []"
proof -
  have "points_of (mem_docs (World (TouchstoneServer reorg_running))) = [reorg_point]"
    by (simp add: reorg_running reorg_started) (simp add: points_of_def reorg_server_def new_server_def)
  moreover have "raw_ok (TxL (Env (Senv reorg_penv))) {} (mem_docs (World (TouchstoneServer reorg_done)))"
    using reorg_history_invariant [OF _ reorg_after] demo_reorg.mongo_axioms [of RETURN_RESULT_SUCCESS "[]"] by (simp add: reorg_penv_def)
  ultimately show ?thesis by (simp add: raw_ok_def)
qed

end
