(* ===== verification/Submit.thy ===== *)
theory Submit
  imports Server_History Tx_Batch
begin

text \<open>
  Submitting a transaction from end to end: \<open>SendRawTransaction\<close> of
  \<open>src/services/touchstone_server.go\<close> on a database that is up, through recording, processing and
  notifying, down to what a query sees afterwards.
\<close>

lemma for_each_effects: "\<exists>s'. for_each (\<lambda>x. effect (f x)) xs s = (Ok (), s')"
  by (induction xs arbitrary: s) (auto simp: ret_def andThen_eq_Ok effect_def split: prod.split)

lemma NotifyTxs_Ok: "\<exists>s'. NotifyTxs senv ids s = (Ok (), s')"
proof (cases "ids = []")
  case False
  obtain ks w1 where "RangeKeys (Runtime senv) (map fst (Peers s)) (World s) = (ks, w1)" by fastforce
  then obtain ps s1 where "range_peers senv s = (Ok ps, s1)"
    by (auto simp: range_peers_def andThen_eq_Ok gets_def effect_def ret_def)
  moreover obtain s2 where "for_each (\<lambda>(_, peer). effect (\<lambda>w. ((), PeerNotifyTxs peer ids w))) ps s1 = (Ok (), s2)"
    using for_each_effects [of "\<lambda>(_, peer) w. ((), PeerNotifyTxs peer ids w)" ps s1] by (auto simp: case_prod_unfold)
  ultimately show ?thesis using False by (auto simp: NotifyTxs_def andThen_eq_Ok)
qed (simp add: NotifyTxs_def ret_def)

lemma SortMsgTx_single: "SortMsgTx h [t] = [t]"
proof -
  have "length (SortMsgTx h [t]) = 1" "set (SortMsgTx h [t]) = {t}"
    by (simp_all add: SortMsgTx.sorter_length SortMsgTx.sorter_set)
  then show ?thesis by (cases "SortMsgTx h [t]") auto
qed

text \<open>A transaction that the database does not have and the miner acknowledges: the first loop asks the miner.\<close>

definition acknowledges :: "'w MapiClient \<Rightarrow> string \<Rightarrow> bool" where
  "acknowledges client txid \<longleftrightarrow>
     (\<forall>w. \<exists>st w'. GetTxState client txid w = (Ok st, w') \<and> ReturnResult (Ts_Payload st) \<noteq> RETURN_RESULT_FAILURE)"

context mongo_up
begin

lemma search_new:
  assumes db: "Db (Env senv) = drv" and wf: "wf_db (docs (World s)) (uniq (World s))"
    and new: "hex_encode hash \<notin> dom (txstate_of (docs (World s)))"
    and ack: "acknowledges (Client senv) (hex_encode hash)" and miner: "miner_ok docs uniq (Client senv)"
  obtains st s' where "SyncTxs_search senv [hash] v s =
      (Ok (v\<lparr>txStatesCache := (txStatesCache v)(hex_encode hash \<mapsto> st), lackTxids := lackTxids v @ [hash]\<rparr>), s')"
    "same (World s) (World s')" "Peers s' = Peers s"
proof -
  let ?x = "hex_encode hash"
  obtain r w1 where w1: "GetMsgTxBriefInfo drv ?x (World s) = (r, w1)" by fastforce
  note res = GetMsgTxBriefInfo_res [OF wf w1]
  obtain e where e: "r = Fail e" "is_not_found e"
    using res new led_up.get_brief_up [OF wf] w1 by (cases r) (auto simp: domIff)
  obtain st w2 where w2: "GetTxState (Client senv) ?x w1 = (Ok st, w2)" "ReturnResult (Ts_Payload st) \<noteq> RETURN_RESULT_FAILURE"
    using ack unfolding acknowledges_def by blast
  have "same (World s) w2" using res miner w2(1) unfolding miner_ok_def same_def by metis
  moreover have "SyncTxs_search senv [hash] v s =
      (Ok (v\<lparr>txStatesCache := (txStatesCache v)(?x \<mapsto> st), lackTxids := lackTxids v @ [hash]\<rparr>), s\<lparr>World := w2\<rparr>)"
    using w1 w2 e by (simp add: db Let_def world_def attempt_def andThen_def ret_def)
  ultimately show ?thesis using that by simp
qed

lemma record_one:
  assumes db: "Db (Env senv) = drv" and wf: "wf_store (TxL (Env senv)) S (docs (World s)) (uniq (World s))"
    and S: "inj_on (TxHash (TxL (Env senv))) S" "t \<in> S" "tx_ok (TxL (Env senv)) t"
    and bytes: "DeserializeTxBytes (TxL (Env senv)) bs = Ok t" and cache: "cache (TxHash (TxL (Env senv)) t) = Some st"
    and rt: "runtime_ok docs uniq (Runtime senv)"
  obtains hash s' where "SyncTxs_record senv cache [bs] g need n s =
      (Ok (TxHash (TxL (Env senv)) t # g, need @ [t], n @ [hash]), s')"
    "wf_db (docs (World s')) (uniq (World s'))" "points_of (docs (World s')) = points_of (docs (World s))"
    "TxHash (TxL (Env senv)) t \<in> dom (txstate_of (docs (World s')))" "Peers s' = Peers s"
proof -
  let ?lib = "TxL (Env senv)" and ?p = "Ts_Payload st"
  obtain now w1 where w1: "Now (Runtime senv) (World s) = (now, w1)" by fastforce
  have same1: "docs w1 = docs (World s)" "uniq w1 = uniq (World s)" using rt w1 unfolding runtime_ok_def by blast+
  obtain w2 where w2: "AddMsgTxInfo drv ?lib t (if BlockHash ?p \<noteq> [] then BlockHeight ?p else UNCONFIRM_TX_HEIGHT)
      (BlockHash ?p) now w1 = (Ok (), w2)"
    using AddMsgTxInfo_up by blast
  have "wf_store ?lib S (docs w1) (uniq w1)" using wf same1 by simp
  note add = AddMsgTxInfo_res [OF this S(1,2) w2]
  obtain r3 s3 where s3: "AddNeedRecomputehashPartitionByHeight senv (BlockHeight ?p) (s\<lparr>World := w2\<rparr>) = (r3, s3)" by fastforce
  have r3: "r3 = Ok ()" "World s3 = w2" "Peers s3 = Peers s" using mark_partition [OF s3] by simp_all
  obtain hash where "GetHashByte (TxHash ?lib t) = Ok hash"
    using S(3) by (auto simp: tx_ok_def GetHashByte_def)
  then have "SyncTxs_record senv cache [bs] g need n s = (Ok (TxHash ?lib t # g, need @ [t], n @ [hash]), s3)"
    using bytes cache w1 w2 s3 r3
    by (simp add: db Let_def andThen_def attempt_def of_res_def effect_def world_def ret_def)
  then show ?thesis using that add same1 r3 by (simp add: wf_store_def)
qed

lemma process_one:
  assumes db: "Db env = drv" and wf: "wf_db (docs w) (uniq w)" and addr: "addr_lib_ok (AddrL env)"
    and known: "TxHash (TxL env) t \<in> dom (txstate_of (docs w))"
    and ins: "\<forall>(i, vin) \<in> set (badge_ins t). vin_id vin \<in> point_id ` set (points_of (docs w))"
  obtains invt w' where "ProcessMsgTxs env [t] ts w = (Ok \<lparr>TxInventorys = [invt], ErrTxs = []\<rparr>, w')"
    "length (Vins invt) = length (badge_ins t)" "txstate_of (docs w') (TxHash (TxL env) t) = Some TX_STATE_CLOSED"
    "points_of (docs w') = add_new (points_of (docs w)) (Vins invt @ Vouts invt)"
proof -
  have up: "mongo_up (Db env) docs uniq" unfolding db by (rule mongo_up_axioms)
  obtain invt w' where run: "ProcessMsgTx env t ts w = (Ok invt, w')" "length (Vins invt) = length (badge_ins t)"
    "txstate_of (docs w') (TxHash (TxL env) t) = Some TX_STATE_CLOSED"
    using process_stored [OF up wf addr known ins] by blast
  then show ?thesis
    using that led.ProcessMsgTx_outcome [OF db wf addr run(1)] by (simp add: ProcessMsgTxs_def SortMsgTx_single attempt_def ret_def)
qed

text \<open>The whole of \<open>SyncTxs\<close> on such a transaction.\<close>

lemma sync_one:
  assumes db: "Db (Env senv) = drv" and net: "net_ok docs uniq senv" and chain: "chain_ok senv S" and "t \<in> S"
    and store: "store_inv (Env senv) S docs uniq (World s)"
    and bytes: "DeserializeTxBytes (TxL (Env senv)) bs = Ok t" and hash: "hex_encode hash = TxHash (TxL (Env senv)) t"
    and ack: "acknowledges (Client senv) (hex_encode hash)" and new: "hex_encode hash \<notin> dom (txstate_of (docs (World s)))"
    and ins: "\<forall>(i, vin) \<in> set (badge_ins t). vin_id vin \<in> point_id ` set (points_of (docs (World s)))"
    and peers: "notify_ok docs uniq (Peers s)"
  obtains invt s' where
    "SyncTxs senv [hash] (LocalGetTxBytes \<lparr>Local_txid = hash, Local_txbytes = bs\<rparr>) s =
       (Ok \<lparr>Sync_TxInventorys = [invt], Sync_ErrTxs = [], AlreadyClosedTxs = []\<rparr>, s')"
    "length (Vins invt) = length (badge_ins t)" "txstate_of (docs (World s')) (hex_encode hash) = Some TX_STATE_CLOSED"
    "points_of (docs (World s')) = add_new (points_of (docs (World s))) (Vins invt @ Vouts invt)"
proof -
  let ?lib = "TxL (Env senv)"
  let ?v0 = "\<lparr>lackTxids = [], txStatesCache = Map.empty, needProcessTx = [], alreadyClosedTxs = [], errTxs = []\<rparr>"
  have miner: "miner_ok docs uniq (Client senv)" and rt: "runtime_ok docs uniq (Runtime senv)"
    using net by (simp_all add: net_ok_def)
  have S: "inj_on (TxHash ?lib) S" "tx_ok ?lib t" "addr_lib_ok (AddrL (Env senv))"
    using chain \<open>t \<in> S\<close> by (simp_all add: chain_ok_def)
  have wf: "wf_db (docs (World s)) (uniq (World s))" using store by (simp add: store_inv_def wf_store_def)
  obtain st s1 where s1: "SyncTxs_search senv [hash] ?v0 s = (Ok (?v0\<lparr>txStatesCache := [hex_encode hash \<mapsto> st], lackTxids := [hash]\<rparr>), s1)"
    "same (World s) (World s1)" "Peers s1 = Peers s"
    by (rule search_new [OF db wf new ack miner, of ?v0]) simp
  have wf1: "wf_store ?lib S (docs (World s1)) (uniq (World s1))"
    using store s1(2) by (simp add: store_inv_def same_def)
  obtain n s2 where s2: "SyncTxs_record senv [hex_encode hash \<mapsto> st] [bs] [] [] [] s1 = (Ok ([hex_encode hash], [t], [n]), s2)"
    "wf_db (docs (World s2)) (uniq (World s2))" "points_of (docs (World s2)) = points_of (docs (World s))"
    "TxHash ?lib t \<in> dom (txstate_of (docs (World s2)))" "Peers s2 = Peers s"
    by (rule record_one [OF db wf1 S(1) \<open>t \<in> S\<close> S(2) bytes _ rt, of "[hex_encode hash \<mapsto> st]" st "[]" "[]" "[]"])
       (use s1(2,3) hash in \<open>auto simp: same_def\<close>)
  obtain now w3 where w3: "Now (Runtime senv) (World s2) = (now, w3)" by fastforce
  have same3: "docs w3 = docs (World s2)" "uniq w3 = uniq (World s2)" using rt w3 unfolding runtime_ok_def by blast+
  obtain invt w4 where w4: "ProcessMsgTxs (Env senv) [t] now w3 = (Ok \<lparr>TxInventorys = [invt], ErrTxs = []\<rparr>, w4)"
    "length (Vins invt) = length (badge_ins t)" "txstate_of (docs w4) (TxHash ?lib t) = Some TX_STATE_CLOSED"
    "points_of (docs w4) = add_new (points_of (docs w3)) (Vins invt @ Vouts invt)"
    by (rule process_one [OF db _ S(3), of w3 t now]) (use s2 same3 ins in auto)
  obtain s5 where s5: "NotifyTxs senv [n] (s2\<lparr>World := w4\<rparr>) = (Ok (), s5)" using NotifyTxs_Ok by blast
  have "same w4 (World s5)" using NotifyTxs_res [OF rt _ s5] peers s2(5) by simp
  moreover have "SyncTxs senv [hash] (LocalGetTxBytes \<lparr>Local_txid = hash, Local_txbytes = bs\<rparr>) s =
       (Ok \<lparr>Sync_TxInventorys = [invt], Sync_ErrTxs = [], AlreadyClosedTxs = []\<rparr>, s5)"
    using s1(1) s2(1) w3 w4(1) s5
    by (simp add: SyncTxs_def LocalGetTxBytes_def not_fetched_def andThen_def attempt_def world_def effect_def ret_def of_res_def
        del: SyncTxs_search.simps SyncTxs_record.simps)
  ultimately show ?thesis using that w4 s2(3) same3 hash by (simp add: same_def)
qed

end


section \<open>Properties\<close>

text \<open>
  C6: submitted transactions are settled. On a database that is up, submitting a transaction that is not yet known,
  that the miner acknowledges and whose badge inputs are stored returns an inventory with one
  entry per badge input; afterwards the transaction is recorded as closed, its points are
  added to the stored ones, and the ledger is well-formed.
\<close>

theorem SendRawTransaction_settles:
  assumes "mongo_up (Db (Env senv)) docs uniq" and "net_ok docs uniq senv" and "chain_ok senv S"
    and "notify_ok docs uniq (Peers s)" and "store_inv (Env senv) S docs uniq (World s)"
    and "hex_decode rawTx = Ok bs" and "DeserializeTxBytes (TxL (Env senv)) bs = Ok t"
    and "acknowledges (Client senv) (TxHash (TxL (Env senv)) t)"
    and "TxHash (TxL (Env senv)) t \<notin> dom (txstate_of (docs (World s)))"
    and "\<forall>(i, vin) \<in> set (badge_ins t). vin_id vin \<in> point_id ` set (points_of (docs (World s)))"
  shows "\<exists>invt s'. SendRawTransaction senv rawTx s = (Ok invt, s') \<and> length (Vins invt) = length (badge_ins t) \<and>
    txstate_of (docs (World s')) (TxHash (TxL (Env senv)) t) = Some TX_STATE_CLOSED \<and>
    points_of (docs (World s')) = add_new (points_of (docs (World s))) (Vins invt @ Vouts invt) \<and>
    store_inv (Env senv) S docs uniq (World s')"
proof -
  let ?lib = "TxL (Env senv)"
  have "acknowledged (Client senv) (TxHash ?lib t)"
    using assms(8) unfolding acknowledged_def acknowledges_def by blast
  then have t: "t \<in> S" using assms(3,7) by (simp add: chain_ok_def)
  then obtain hash where hash: "hex_encode hash = TxHash ?lib t" "GetHashByte (TxHash ?lib t) = Ok hash"
    using assms(3) by (force simp: chain_ok_def tx_ok_def GetHashByte_def)
  let ?src = "LocalGetTxBytes \<lparr>Local_txid = hash, Local_txbytes = bs\<rparr>"
  obtain invt s' where run: "SyncTxs senv [hash] ?src s =
       (Ok \<lparr>Sync_TxInventorys = [invt], Sync_ErrTxs = [], AlreadyClosedTxs = []\<rparr>, s')"
    and res: "length (Vins invt) = length (badge_ins t)" "txstate_of (docs (World s')) (hex_encode hash) = Some TX_STATE_CLOSED"
      "points_of (docs (World s')) = add_new (points_of (docs (World s))) (Vins invt @ Vouts invt)"
    by (rule mongo_up.sync_one [OF assms(1) refl assms(2,3) t assms(5,7) hash(1) _ _ assms(10,4)])
       (use assms(8,9) hash(1) in simp_all)
  have "source_ok docs uniq ?src" by (simp add: source_ok_def LocalGetTxBytes_def of_res_def)
  then have "store_inv (Env senv) S docs uniq (World s')"
    using mongo.SyncTxs_keeps [OF mongo_up.axioms(1) [OF assms(1)] refl assms(3) _ _ _ assms(4,5) run] assms(2)
    by (simp add: net_ok_def mongo.sync_inv_def [OF mongo_up.axioms(1) [OF assms(1)]])
  moreover have "SendRawTransaction senv rawTx s = (Ok invt, s')"
    using assms(6,7) hash(2) run by (simp add: SendRawTransaction_def Let_def andThen_def attempt_def of_res_def ret_def)
  ultimately show ?thesis using res hash(1) by simp
qed

theorem SendRawTransaction_settles_witness:
  "\<exists>invt s'. SendRawTransaction sync_senv (hex_encode [1, 2, 3]) sync_server = (Ok invt, s') \<and>
     txstate_of (mem_docs (World s')) (demo_txid 0) = Some TX_STATE_CLOSED"
proof -
  have ack: "acknowledges (Client sync_senv) (TxHash (TxL (Env sync_senv)) (NewMsgTx 2))"
    by (simp add: acknowledges_def sync_senv_def ack_client_def GetTxState_def go_simps attempt_def demo_client_def
        RETURN_RESULT_SUCCESS_def RETURN_RESULT_FAILURE_def)
  have new: "TxHash (TxL (Env sync_senv)) (NewMsgTx 2) \<notin> dom (txstate_of (mem_docs (World sync_server)))"
    by (simp add: sync_server_def mem_parts_def mem_ledger_def domIff txstate_of_def info_docs_def)
  have "notify_ok mem_docs (\<lambda>w c. set (mem_uniq w c)) (Peers sync_server)" by (simp add: notify_ok_def sync_server_def)
  from SendRawTransaction_settles [of sync_senv mem_docs "\<lambda>w c. set (mem_uniq w c)" "{NewMsgTx 2}" sync_server
      "hex_encode [1, 2, 3]" "[1, 2, 3]" "NewMsgTx 2", OF _ sync_senv_net sync_senv_ok(2) this sync_senv_ok(5) _ _ ack new]
  show ?thesis
    using mem_up by (auto simp: sync_senv_def DeserializeTxBytes_def big_lib_def badge_ins_def NewMsgTx_def indexed_def)
qed

end
