(* ===== verification/Handshake.thy ===== *)
theory Handshake
  imports Auth
begin

text \<open>
  The handshake of a connection in \<open>src/interceptor/p2p_interceptor.go\<close>: the client sends one
  message (a length and an \<open>AuthRequest\<close>), the server reads it through \<open>ConnReader\<close>, a buffer of
  1024 bytes, and verifies it. The connection (package \<open>net\<close>) and the message encoding
  (package \<open>proto\<close>) are parameters.
\<close>

section \<open>The code\<close>

record AuthRequest =
  Auth_Pubkey :: "byte list"
  Auth_Signature :: "byte list"
  Auth_Timestamp :: int

text \<open>
  The credentials of a client hold its key, those of a server the configured keys, which no
  handshake consults: the methods below take the key only.
\<close>

record 'k AuthCredential =
  cred_privateKey :: "'k option"
  cred_allowPubkeys :: "string set"

definition NewClientAuthCredential :: "'k \<Rightarrow> 'k AuthCredential" where
  "NewClientAuthCredential privateKey = \<lparr>cred_privateKey = Some privateKey, cred_allowPubkeys = {}\<rparr>"

definition NewServerAuthCredential :: "PeerConfig list \<Rightarrow> 'k AuthCredential" where
  "NewServerAuthCredential PeerConfigs = \<lparr>cred_privateKey = None, cred_allowPubkeys = set (map Pubkey PeerConfigs)\<rparr>"

definition Clone :: "'k AuthCredential \<Rightarrow> 'k AuthCredential" where
  "Clone this = \<lparr>cred_privateKey = cred_privateKey this, cred_allowPubkeys = cred_allowPubkeys this\<rparr>"

text \<open>
  A call \<open>Read(p)\<close> gets the length of \<open>p\<close> and returns the bytes it put there; \<open>Write\<close> returns how
  many bytes it wrote. A deadline is a time or none.
\<close>

record 'c conn_lib =
  ConnRead :: "nat \<Rightarrow> 'c \<Rightarrow> (byte list \<times> goerr option) \<times> 'c"
  ConnWrite :: "byte list \<Rightarrow> 'c \<Rightarrow> (int \<times> goerr option) \<times> 'c"
  ConnClose :: "'c \<Rightarrow> 'c"
  SetReadDeadline :: "int option \<Rightarrow> ('c, unit) io"

record proto_lib =
  MarshalAuth :: "AuthRequest \<Rightarrow> byte list res"
  UnmarshalAuth :: "byte list \<Rightarrow> AuthRequest res"

text \<open>\<open>conn.Close(); return conn, nil, err\<close>\<close>

definition close_fail :: "'c conn_lib \<Rightarrow> goerr \<Rightarrow> ('c, 'b) io" where
  "close_fail conn err = (\<lambda>c. (Fail err, ConnClose conn c))"

text \<open>The message of the client: \<open>uint32\<close> length in little endian, then the request.\<close>

definition auth_message :: "proto_lib \<Rightarrow> ('k, 'p, 's) ec_lib \<Rightarrow> 'k \<Rightarrow> int \<Rightarrow> byte list res" where
  "auth_message proto ec privateKey timestamp =
     bind_res (SignWith ec privateKey (le_bytes 8 timestamp)) (\<lambda>sig.
     bind_res (MarshalAuth proto \<lparr>Auth_Pubkey = SerializeCompressed ec (PubKeyOf ec privateKey),
         Auth_Signature = SerializeSig ec sig, Auth_Timestamp = timestamp\<rparr>) (\<lambda>payload.
       Ok (le_bytes 4 (int (length payload)) @ payload)))"

definition ClientHandshake ::
  "'c conn_lib \<Rightarrow> proto_lib \<Rightarrow> ('k, 'p, 's) ec_lib \<Rightarrow> 'k \<Rightarrow> int \<Rightarrow> ('c, string) io" where
  "ClientHandshake conn proto ec privateKey timestamp =
     attempt (of_res (auth_message proto ec privateKey timestamp)) (close_fail conn) (\<lambda>authReqByte.
       (\<lambda>c. case ConnWrite conn authReqByte c of
          ((n, Some err), c') \<Rightarrow> close_fail conn err c'
        | ((n, None), c') \<Rightarrow>
            (if n \<noteq> int (length authReqByte) then close_fail conn (Error ''n != len(authReqByte)'') c'
             else ret ''ClientHandshakeInfo'' c')))"

record ConnReader =
  cr_buf :: "byte list"
  writePos :: int
  readPos :: int

definition NewConnReader :: ConnReader where
  "NewConnReader = \<lparr>cr_buf = replicate 1024 0, writePos = 0, readPos = 0\<rparr>"

text \<open>
  In the last branch a larger buffer is allocated and filled, but never assigned to \<open>this.buf\<close>:
  only the positions change.
\<close>

definition CheckAndMakeRoom :: "ConnReader \<Rightarrow> int \<Rightarrow> ConnReader res" where
  "CheckAndMakeRoom this needSize =
     bind_res (go_slice (cr_buf this) (writePos this) (int (length (cr_buf this)))) (\<lambda>tail.
     if needSize \<le> int (length tail) then Ok this
     else bind_res (go_slice (cr_buf this) 0 (readPos this)) (\<lambda>front.
     bind_res (go_slice (cr_buf this) (readPos this) (writePos this)) (\<lambda>pending.
       if needSize \<le> int (length tail) + int (length front)
       then Ok (this\<lparr>cr_buf := pending @ drop (length pending) (cr_buf this),
                     writePos := writePos this - readPos this, readPos := 0\<rparr>)
       else Ok (this\<lparr>writePos := writePos this - readPos this, readPos := 0\<rparr>))))"

text \<open>\<open>n, err := this.conn.Read(this.buf[this.writePos:]); this.writePos += n\<close>\<close>

definition fill :: "byte list \<Rightarrow> ConnReader \<Rightarrow> ConnReader" where
  "fill bs r = r\<lparr>cr_buf := take (nat (writePos r)) (cr_buf r) @ bs @ drop (nat (writePos r) + length bs) (cr_buf r),
     writePos := writePos r + int (length bs)\<rparr>"

text \<open>The loop of \<open>Read\<close>, which ends only when enough bytes are there or the connection fails.\<close>

partial_function (option) ConnReader_loop ::
  "'c conn_lib \<Rightarrow> int \<Rightarrow> ConnReader \<Rightarrow> 'c \<Rightarrow> ((byte list \<times> ConnReader) res \<times> 'c) option" where
  "ConnReader_loop conn n this c =
     (case go_slice (cr_buf this) (writePos this) (int (length (cr_buf this))) of
        Fail e \<Rightarrow> Some (Fail e, c)
      | Stop p \<Rightarrow> Some (Stop p, c)
      | Ok room \<Rightarrow>
          (case ConnRead conn (length room) c of ((bs, err), c') \<Rightarrow>
            let this' = fill bs this
            in case err of
               Some e \<Rightarrow> Some (Fail e, c')
             | None \<Rightarrow>
                 (case go_slice (cr_buf this') (readPos this') (writePos this') of
                    Fail e \<Rightarrow> Some (Fail e, c')
                  | Stop p \<Rightarrow> Some (Stop p, c')
                  | Ok pending \<Rightarrow>
                      (if n \<le> int (length pending)
                       then Some (Ok (take (nat n) pending, this'\<lparr>readPos := readPos this' + n\<rparr>), c')
                       else ConnReader_loop conn n this' c'))))"

definition ConnReader_Read :: "'c conn_lib \<Rightarrow> int \<Rightarrow> ConnReader \<Rightarrow> ('c, byte list \<times> ConnReader) io" where
  "ConnReader_Read conn n this =
     andThen (of_res (go_slice (cr_buf this) (readPos this) (writePos this))) (\<lambda>pending.
       if n \<le> int (length pending)
       then ret (take (nat n) pending, this\<lparr>readPos := readPos this + n\<rparr>)
       else andThen (of_res (CheckAndMakeRoom this n)) (\<lambda>this'.
         (\<lambda>c. case ConnReader_loop conn n this' c of None \<Rightarrow> (Diverge, c) | Some x \<Rightarrow> x)))"

text \<open>
  The test of the size of the body returns only if also \<open>err\<close> is set, which it is not there.
  The keys the server allows are not consulted.
\<close>

definition ServerHandshake ::
  "'c conn_lib \<Rightarrow> proto_lib \<Rightarrow> ('k, 'p, 's) ec_lib \<Rightarrow> int \<Rightarrow> ('c, string) io" where
  "ServerHandshake conn proto ec now =
     attempt (SetReadDeadline conn (Some (now + 10))) (close_fail conn) (\<lambda>_.
     attempt (ConnReader_Read conn 4 NewConnReader) (close_fail conn) (\<lambda>(head, reader).
       let bodyLen = le_uint head; err = (None :: goerr option)
       in if bodyLen > 1000 \<and> err \<noteq> None then close_fail conn (Error ''not support body size'')
          else attempt (ConnReader_Read conn bodyLen reader) (close_fail conn) (\<lambda>(body, _).
          attempt (of_res (UnmarshalAuth proto body)) (close_fail conn) (\<lambda>request.
          attempt (of_res (VerifyTimestampSig ec now (Auth_Pubkey request) (Auth_Signature request)
              (Auth_Timestamp request))) (close_fail conn) (\<lambda>_.
          attempt (SetReadDeadline conn None) (close_fail conn) (\<lambda>_.
            ret ''ServerHandshakeInfo''))))))"


section \<open>The reader\<close>

definition reader_ok :: "ConnReader \<Rightarrow> bool" where
  "reader_ok r \<longleftrightarrow> length (cr_buf r) = 1024 \<and> 0 \<le> readPos r \<and> readPos r \<le> writePos r \<and> writePos r \<le> 1024"

definition pending :: "ConnReader \<Rightarrow> byte list" where
  "pending r = take (nat (writePos r) - nat (readPos r)) (drop (nat (readPos r)) (cr_buf r))"

lemma reader_okE:
  assumes "reader_ok r"
  obtains rp wp where "readPos r = int rp" "writePos r = int wp" "rp \<le> wp" "wp \<le> 1024" "length (cr_buf r) = 1024"
  using assms by (intro that [of "nat (readPos r)" "nat (writePos r)"]) (auto simp: reader_ok_def)

lemma NewConnReader_ok [simp]: "reader_ok NewConnReader" "pending NewConnReader = []"
  by (simp_all add: reader_ok_def NewConnReader_def pending_def)

lemma length_pending: "reader_ok r \<Longrightarrow> int (length (pending r)) = writePos r - readPos r"
  by (auto simp: reader_ok_def pending_def)

lemma slice_pending: "reader_ok r \<Longrightarrow> go_slice (cr_buf r) (readPos r) (writePos r) = Ok (pending r)"
  by (simp add: reader_ok_def go_slice_def pending_def)

lemma slice_room:
  "reader_ok r \<Longrightarrow> go_slice (cr_buf r) (writePos r) (int (length (cr_buf r))) = Ok (drop (nat (writePos r)) (cr_buf r))"
  by (simp add: reader_ok_def go_slice_def)

lemma fill_ok:
  assumes "reader_ok r" "int (length bs) \<le> 1024 - writePos r"
  shows "reader_ok (fill bs r)" "pending (fill bs r) = pending r @ bs" "readPos (fill bs r) = readPos r"
    "writePos (fill bs r) = writePos r + int (length bs)"
proof -
  obtain rp wp where p: "readPos r = int rp" "writePos r = int wp" "rp \<le> wp" "wp \<le> 1024" "length (cr_buf r) = 1024"
    using assms(1) by (rule reader_okE)
  have l: "length bs \<le> 1024 - wp" using assms(2) p(2,4) by simp
  show "reader_ok (fill bs r)" using p l by (simp add: reader_ok_def fill_def)
  have "nat (int wp + int (length bs)) = wp + length bs" by simp
  then show "pending (fill bs r) = pending r @ bs"
    using p l by (simp add: pending_def fill_def add.commute [of wp] drop_take)
qed (simp_all add: fill_def)

lemma take_reader:
  assumes "reader_ok r" "0 \<le> n" "n \<le> int (length (pending r))"
  shows "reader_ok (r\<lparr>readPos := readPos r + n\<rparr>)" "pending (r\<lparr>readPos := readPos r + n\<rparr>) = drop (nat n) (pending r)"
proof -
  obtain rp wp where p: "readPos r = int rp" "writePos r = int wp" "rp \<le> wp" "wp \<le> 1024" "length (cr_buf r) = 1024"
    using assms(1) by (rule reader_okE)
  obtain m where n: "n = int m" using assms(2) by (rule nonneg_int_cases)
  have m: "m \<le> wp - rp" using assms(3) length_pending [OF assms(1)] p n by simp
  show "reader_ok (r\<lparr>readPos := readPos r + n\<rparr>)" using p m n by (simp add: reader_ok_def)
  have "nat (int rp + int m) = rp + m" by simp
  then show "pending (r\<lparr>readPos := readPos r + n\<rparr>) = drop (nat n) (pending r)"
    using p m n by (simp add: pending_def drop_take add.commute [of rp])
qed

text \<open>A request of at most 512 bytes always finds room.\<close>

lemma CheckAndMakeRoom_small:
  assumes "reader_ok r" "int (length (pending r)) < n" "n \<le> 512"
  obtains r' where "CheckAndMakeRoom r n = Ok r'" "reader_ok r'" "pending r' = pending r" "n \<le> 1024 - readPos r'"
proof -
  obtain rp wp where p: "readPos r = int rp" "writePos r = int wp" "rp \<le> wp" "wp \<le> 1024" "length (cr_buf r) = 1024"
    using assms(1) by (rule reader_okE)
  have len: "length (pending r) = wp - rp" using length_pending [OF assms(1)] p by simp
  have front: "go_slice (cr_buf r) 0 (readPos r) = Ok (take rp (cr_buf r))" using p by (simp add: go_slice_def)
  note room = CheckAndMakeRoom_def [of r n, unfolded slice_room [OF assms(1)] slice_pending [OF assms(1)] front, simplified]
  show ?thesis
  proof (cases "n \<le> int (1024 - wp)")
    case True
    then show ?thesis using p assms(1) by (intro that [of r]) (simp_all add: room)
  next
    case False
    have "n \<le> int (1024 - wp) + int rp" using assms(2,3) len p(3,4) by linarith
    moreover let ?r = "r\<lparr>cr_buf := pending r @ drop (length (pending r)) (cr_buf r), writePos := writePos r - readPos r, readPos := 0\<rparr>"
    have "reader_ok ?r" using p len by (simp add: reader_ok_def)
    moreover have "nat (int wp - int rp) = wp - rp" by simp
    then have "pending ?r = pending r" using p len by (simp add: pending_def)
    ultimately show ?thesis using False p assms(3) by (intro that [of ?r]) (simp_all add: room)
  qed
qed



section \<open>A connection that delivers bytes\<close>

text \<open>
  \<open>rest c\<close> is what the other side has sent and \<open>Read\<close> has not returned yet. A read returns a part
  of it, in pieces of any size; a read of no bytes returns at once.
\<close>

locale byte_stream =
  fixes conn :: "'c conn_lib" and rest :: "'c \<Rightarrow> byte list"
  assumes read_part: "ConnRead conn n c = ((bs, eo), c') \<Longrightarrow> rest c = bs @ rest c' \<and> length bs \<le> n"
    and read_progress: "ConnRead conn n c = ((bs, eo), c') \<Longrightarrow> 0 < n \<Longrightarrow> rest c \<noteq> [] \<Longrightarrow> eo = None \<and> bs \<noteq> []"
    and read_nothing: "ConnRead conn 0 c = (([], None), c)"
    and deadline: "\<exists>c'. SetReadDeadline conn d c = (Ok (), c') \<and> rest c' = rest c"
begin

lemma loop_step:
  assumes "reader_ok r"
  obtains bs eo c' where "rest c = bs @ rest c'" "int (length bs) \<le> 1024 - writePos r"
    "writePos r < 1024 \<Longrightarrow> rest c \<noteq> [] \<Longrightarrow> eo = None \<and> bs \<noteq> []" "writePos r = 1024 \<Longrightarrow> c' = c \<and> bs = [] \<and> eo = None"
    "ConnReader_loop conn n r c = (case eo of Some e \<Rightarrow> Some (Fail e, c') | None \<Rightarrow>
       (if n \<le> int (length (pending (fill bs r)))
        then Some (Ok (take (nat n) (pending (fill bs r)), (fill bs r)\<lparr>readPos := readPos r + n\<rparr>), c')
        else ConnReader_loop conn n (fill bs r) c'))"
proof -
  obtain rp wp where p: "readPos r = int rp" "writePos r = int wp" "rp \<le> wp" "wp \<le> 1024" "length (cr_buf r) = 1024"
    using assms by (rule reader_okE)
  obtain bs eo c' where run: "ConnRead conn (1024 - wp) c = ((bs, eo), c')" by (metis prod.exhaust)
  note part = read_part [OF run]
  have l: "int (length bs) \<le> 1024 - writePos r" using part p(2,4) by linarith
  have room: "go_slice (cr_buf r) (writePos r) 1024 = Ok (drop wp (cr_buf r))" "length (cr_buf r) = 1024"
    using slice_room [OF assms] p by simp_all
  show ?thesis
  proof (rule that [of bs c' eo])
    show "rest c = bs @ rest c'" using part by simp
    show "writePos r < 1024 \<Longrightarrow> rest c \<noteq> [] \<Longrightarrow> eo = None \<and> bs \<noteq> []" using read_progress [OF run] p by simp
    show "writePos r = 1024 \<Longrightarrow> c' = c \<and> bs = [] \<and> eo = None" using run p read_nothing [of c] by auto
    show "ConnReader_loop conn n r c = (case eo of Some e \<Rightarrow> Some (Fail e, c') | None \<Rightarrow>
       (if n \<le> int (length (pending (fill bs r)))
        then Some (Ok (take (nat n) (pending (fill bs r)), (fill bs r)\<lparr>readPos := readPos r + n\<rparr>), c')
        else ConnReader_loop conn n (fill bs r) c'))"
      using run slice_pending [OF fill_ok(1) [OF assms l]]
      by (subst ConnReader_loop.simps) (simp add: room Let_def fill_ok(3) [OF assms l] split: option.split)
  qed (rule l)
qed

lemma loop_reads:
  assumes "reader_ok r" "0 \<le> n" "pending r @ rest c = S" "n \<le> int (length S)" "n \<le> 1024 - readPos r" "int (length (pending r)) < n"
  shows "\<exists>r' c'. ConnReader_loop conn n r c = Some (Ok (take (nat n) S, r'), c') \<and> reader_ok r' \<and>
    pending r' @ rest c' = drop (nat n) S"
  using assms
proof (induction "length (rest c)" arbitrary: r c rule: less_induct)
  case less
  obtain bs eo c' where st: "rest c = bs @ rest c'" "int (length bs) \<le> 1024 - writePos r"
    "writePos r < 1024 \<Longrightarrow> rest c \<noteq> [] \<Longrightarrow> eo = None \<and> bs \<noteq> []"
    and run: "ConnReader_loop conn n r c = (case eo of Some e \<Rightarrow> Some (Fail e, c') | None \<Rightarrow>
       (if n \<le> int (length (pending (fill bs r)))
        then Some (Ok (take (nat n) (pending (fill bs r)), (fill bs r)\<lparr>readPos := readPos r + n\<rparr>), c')
        else ConnReader_loop conn n (fill bs r) c'))"
    by (rule loop_step [OF less.prems(1), where c = c and n = n]) blast
  have "writePos r < 1024" using length_pending [OF less.prems(1)] less.prems(5,6) by simp
  moreover have "rest c \<noteq> []" using less.prems(3,4,6) by auto
  ultimately have bs: "eo = None" "bs \<noteq> []" using st(3) by auto
  note f = fill_ok [OF less.prems(1) st(2)]
  have S: "pending (fill bs r) @ rest c' = S" using less.prems(3) st(1) f(2) by simp
  show ?case
  proof (cases "n \<le> int (length (pending (fill bs r)))")
    case True
    have "take (nat n) (pending (fill bs r)) = take (nat n) S" "drop (nat n) (pending (fill bs r)) @ rest c' = drop (nat n) S"
      using True S less.prems(2) by (auto simp: S [symmetric])
    then show ?thesis using run bs(1) True take_reader [OF f(1) less.prems(2) True] f(3) by auto
  next
    case False
    have "length (rest c') < length (rest c)" using st(1) bs(2) by simp
    from less.hyps [OF this f(1) less.prems(2) S less.prems(4)] show ?thesis using run bs(1) False f(3) less.prems(5) by simp
  qed
qed

lemma Read_small:
  assumes "reader_ok r" "0 \<le> n" "n \<le> 512" "pending r @ rest c = S" "n \<le> int (length S)"
  shows "\<exists>r' c'. ConnReader_Read conn n r c = (Ok (take (nat n) S, r'), c') \<and> reader_ok r' \<and> pending r' @ rest c' = drop (nat n) S"
proof (cases "n \<le> int (length (pending r))")
  case True
  have "take (nat n) (pending r) = take (nat n) S" "drop (nat n) (pending r) @ rest c = drop (nat n) S"
    using True assms(2,4) by (auto simp: assms(4) [symmetric])
  then show ?thesis
    using True take_reader [OF assms(1,2) True]
    by (simp add: ConnReader_Read_def slice_pending [OF assms(1)] andThen_def of_res_def ret_def)
next
  case False
  then have short: "int (length (pending r)) < n" by simp
  obtain r1 where r1: "CheckAndMakeRoom r n = Ok r1" "reader_ok r1" "pending r1 = pending r" "n \<le> 1024 - readPos r1"
    by (rule CheckAndMakeRoom_small [OF assms(1) short assms(3)])
  have "pending r1 @ rest c = S" "int (length (pending r1)) < n" using r1(3) assms(4) short by simp_all
  from loop_reads [OF r1(2) assms(2) this(1) assms(5) r1(4) this(2)] show ?thesis
    using False r1(1) by (auto simp: ConnReader_Read_def slice_pending [OF assms(1)] andThen_def of_res_def)
qed

text \<open>A full buffer: the loop reads nothing, over and over.\<close>

lemma loop_stuck:
  assumes "reader_ok r" "writePos r = 1024" "1024 - readPos r < n"
  shows "ConnReader_loop conn n r c = None"
proof (rule ccontr)
  assume "ConnReader_loop conn n r c \<noteq> None"
  then obtain y where run: "ConnReader_loop conn n r c = Some y" by blast
  have "d = conn \<and> reader_ok r \<and> writePos r = 1024 \<and> 1024 - readPos r < n \<longrightarrow> False"
    if "ConnReader_loop d n r c = Some y" for d n r c y
  proof (rule ConnReader_loop.raw_induct [where P = "\<lambda>d n r c y. d = conn \<and> reader_ok r \<and> writePos r = 1024 \<and>
      1024 - readPos r < n \<longrightarrow> False", OF _ that], intro impI, elim conjE, hypsubst)
    fix f n and r :: ConnReader and c y
    assume hyp: "\<And>d n r c y. f d n r c = Some y \<Longrightarrow> d = conn \<and> reader_ok r \<and> writePos r = 1024 \<and> 1024 - readPos r < n \<longrightarrow> False"
      and r: "reader_ok r" "writePos r = 1024" "1024 - readPos r < n"
      and body: "(case go_slice (cr_buf r) (writePos r) (int (length (cr_buf r))) of
         Fail e \<Rightarrow> Some (Fail e, c)
       | Stop p \<Rightarrow> Some (Stop p, c)
       | Ok room \<Rightarrow> (case ConnRead conn (length room) c of ((bs, err), c') \<Rightarrow>
           let this' = fill bs r
           in case err of
              Some e \<Rightarrow> Some (Fail e, c')
            | None \<Rightarrow> (case go_slice (cr_buf this') (readPos this') (writePos this') of
                 Fail e \<Rightarrow> Some (Fail e, c')
               | Stop p \<Rightarrow> Some (Stop p, c')
               | Ok pend \<Rightarrow> (if n \<le> int (length pend)
                   then Some (Ok (take (nat n) pend, this'\<lparr>readPos := readPos this' + n\<rparr>), c')
                   else f conn n this' c')))) = Some y"
    have same: "fill [] r = r" by (simp add: fill_def)
    have len: "length (cr_buf r) = 1024" using r(1) by (simp add: reader_ok_def)
    have "f conn n r c = Some y"
      using body slice_room [OF r(1)] slice_pending [OF r(1)] length_pending [OF r(1)] r(2,3) read_nothing [of c]
      by (simp add: len same)
    then show False using hyp r by blast
  qed
  with run assms show False by blast
qed

lemma loop_hangs:
  assumes "reader_ok r" "1024 - readPos r < n" "1024 - writePos r \<le> int (length (rest c))"
  shows "ConnReader_loop conn n r c = None"
  using assms
proof (induction "length (rest c)" arbitrary: r c rule: less_induct)
  case less
  show ?case
  proof (cases "writePos r = 1024")
    case True
    then show ?thesis using loop_stuck less.prems(1,2) by blast
  next
    case False
    then have wp: "writePos r < 1024" "rest c \<noteq> []" using less.prems by (auto simp: reader_ok_def)
    obtain bs eo c' where st: "rest c = bs @ rest c'" "int (length bs) \<le> 1024 - writePos r" "eo = None" "bs \<noteq> []"
      and run: "ConnReader_loop conn n r c = (case eo of Some e \<Rightarrow> Some (Fail e, c') | None \<Rightarrow>
         (if n \<le> int (length (pending (fill bs r)))
          then Some (Ok (take (nat n) (pending (fill bs r)), (fill bs r)\<lparr>readPos := readPos r + n\<rparr>), c')
          else ConnReader_loop conn n (fill bs r) c'))"
      by (rule loop_step [OF less.prems(1), where c = c and n = n]) (use wp in blast)
    note f = fill_ok [OF less.prems(1) st(2)]
    have more: "\<not> n \<le> int (length (pending (fill bs r)))" using length_pending [OF f(1)] f(3,4) st(2) less.prems(2) by simp
    have "length (rest c') < length (rest c)" using st(1,4) by simp
    moreover have "1024 - writePos (fill bs r) \<le> int (length (rest c'))" using less.prems(3) st(1) f(4) by simp
    ultimately show ?thesis using less.hyps [OF _ f(1)] less.prems(2) run st(3) more f(3) by simp
  qed
qed

lemma Read_hangs:
  assumes "reader_ok r" "1024 < n" "1024 \<le> int (length (pending r @ rest c))"
  shows "ConnReader_Read conn n r c = (Diverge, c)"
proof -
  obtain rp wp where p: "readPos r = int rp" "writePos r = int wp" "rp \<le> wp" "wp \<le> 1024" "length (cr_buf r) = 1024"
    using assms(1) by (rule reader_okE)
  have len: "length (pending r) = wp - rp" using length_pending [OF assms(1)] p by simp
  let ?r = "r\<lparr>writePos := int wp - int rp, readPos := 0\<rparr>"
  have front: "go_slice (cr_buf r) 0 (readPos r) = Ok (take rp (cr_buf r))" using p by (simp add: go_slice_def)
  have room: "go_slice (cr_buf r) (int wp) 1024 = Ok (drop wp (cr_buf r))" "go_slice (cr_buf r) 0 (int rp) = Ok (take rp (cr_buf r))"
    "go_slice (cr_buf r) (int rp) (int wp) = Ok (pending r)"
    using slice_room [OF assms(1)] slice_pending [OF assms(1)] front p by simp_all
  have "CheckAndMakeRoom r n = Ok ?r"
    using assms(2) p by (simp add: CheckAndMakeRoom_def room)
  moreover have "ConnReader_loop conn n ?r c = None"
    by (rule loop_hangs) (use p assms(2,3) len in \<open>auto simp: reader_ok_def\<close>)
  ultimately show ?thesis
    using len p assms(2) by (simp add: ConnReader_Read_def room andThen_def of_res_def)
qed

end



section \<open>Properties\<close>

definition proto_ok :: "proto_lib \<Rightarrow> bool" where
  "proto_ok proto \<longleftrightarrow> (\<forall>r bs. MarshalAuth proto r = Ok bs \<longrightarrow> UnmarshalAuth proto bs = Ok r)"

lemma attempt_Ok_eq: "m w = (Ok x, w') \<Longrightarrow> attempt m h f w = f x w'"
  by simp

lemma le_uint_length: "length bs < 2 ^ 32 \<Longrightarrow> le_uint (le_bytes 4 (int (length bs))) = int (length bs)"
  by (simp add: le_uint_le_bytes)

context byte_stream
begin

text \<open>Up to the body: the head is read and the length is what was sent.\<close>

lemma ServerHandshake_head:
  assumes "4 \<le> length (rest c)"
  obtains r c' where "reader_ok r" "pending r @ rest c' = drop 4 (rest c)"
    "ServerHandshake conn proto ec now c =
       attempt (ConnReader_Read conn (le_uint (take 4 (rest c))) r) (close_fail conn) (\<lambda>(body, _).
         attempt (of_res (UnmarshalAuth proto body)) (close_fail conn) (\<lambda>request.
         attempt (of_res (VerifyTimestampSig ec now (Auth_Pubkey request) (Auth_Signature request)
             (Auth_Timestamp request))) (close_fail conn) (\<lambda>_.
         attempt (SetReadDeadline conn None) (close_fail conn) (\<lambda>_. ret ''ServerHandshakeInfo'')))) c'"
proof -
  obtain c1 where c1: "SetReadDeadline conn (Some (now + 10)) c = (Ok (), c1)" "rest c1 = rest c" using deadline by blast
  obtain r c2 where r: "ConnReader_Read conn 4 NewConnReader c1 = (Ok (take 4 (rest c), r), c2)" "reader_ok r"
    "pending r @ rest c2 = drop 4 (rest c)"
    using Read_small [of NewConnReader 4 c1 "rest c"] c1(2) assms by auto
  show ?thesis
    by (rule that [OF r(2,3)]) (simp add: ServerHandshake_def c1(1) r(1))
qed

end

text \<open>A connection that delivers as much as fits, for the witnesses, and a message encoding.\<close>

definition list_conn :: "byte list conn_lib" where
  "list_conn = \<lparr>ConnRead = (\<lambda>n c. ((take n c, None), drop n c)), ConnWrite = (\<lambda>bs c. ((int (length bs), None), c @ bs)),
     ConnClose = (\<lambda>c. []), SetReadDeadline = (\<lambda>d. ret ())\<rparr>"

interpretation list_conn: byte_stream list_conn "\<lambda>c. c"
  by unfold_locales (auto simp: list_conn_def ret_def)

lemma list_conn_head:
  assumes "4 \<le> length S"
  obtains r where "ConnReader_Read list_conn 4 NewConnReader S = (Ok (take 4 S, r), drop 1024 S)" "reader_ok r"
    "pending r = drop 4 (take 1024 S)"
proof -
  let ?f = "fill (take 1024 S) NewConnReader"
  have f: "reader_ok ?f" "pending ?f = take 1024 S" "readPos ?f = 0"
    using fill_ok [OF NewConnReader_ok(1), of "take 1024 S"] by (simp_all add: NewConnReader_def [THEN arg_cong, of writePos]
      NewConnReader_def [THEN arg_cong, of readPos])
  have four: "4 \<le> int (length (pending ?f))" using f(2) assms by simp
  have room: "CheckAndMakeRoom NewConnReader 4 = Ok NewConnReader"
    by (simp add: CheckAndMakeRoom_def NewConnReader_def go_slice_def)
  have "length (drop (nat (writePos NewConnReader)) (cr_buf NewConnReader)) = 1024" by (simp add: NewConnReader_def)
  then have "ConnReader_loop list_conn 4 NewConnReader S = Some (Ok (take 4 S, ?f\<lparr>readPos := 4\<rparr>), drop 1024 S)"
    using slice_pending [OF f(1)] f(2,3) four
    by (subst ConnReader_loop.simps) (simp add: slice_room [OF NewConnReader_ok(1)] list_conn_def Let_def)
  then have "ConnReader_Read list_conn 4 NewConnReader S = (Ok (take 4 S, ?f\<lparr>readPos := 4\<rparr>), drop 1024 S)"
    using slice_pending [OF NewConnReader_ok(1)] room by (simp add: ConnReader_Read_def andThen_def of_res_def)
  then show ?thesis using that take_reader [OF f(1) _ four] f(2,3) by simp
qed

definition demo_proto :: proto_lib where
  "demo_proto =
     \<lparr>MarshalAuth = (\<lambda>r. if length (Auth_Pubkey r) = 1 \<and> is_int64 (Auth_Timestamp r)
        then Ok (Auth_Pubkey r @ le_bytes 8 (Auth_Timestamp r) @ Auth_Signature r) else Fail (Error ''proto'')),
      UnmarshalAuth = (\<lambda>bs. if length bs < 9 then Fail (Error ''proto'') else
        Ok \<lparr>Auth_Pubkey = take 1 bs, Auth_Signature = drop 9 bs, Auth_Timestamp = le_int64 (take 8 (drop 1 bs))\<rparr>)\<rparr>"

lemma demo_proto_ok: "proto_ok demo_proto"
  by (auto simp: proto_ok_def demo_proto_def le_int64_le_bytes split: if_splits)

definition demo_message :: "byte list" where
  "demo_message = le_bytes 4 18 @ 7 # le_bytes 8 1000 @ 7 # le_bytes 8 1000"

lemma demo_message: "auth_message demo_proto demo_ec 7 1000 = Ok demo_message"
  by (simp add: auth_message_def demo_proto_def demo_ec_def demo_message_def is_int64_def)

text \<open>
  C17: the handshake of a peer succeeds. The message of a client whose encoded request has at
  most 512 bytes is read and verified by the server, in whatever pieces the
  connection delivers it, if it arrives within ten seconds; the whole message
  is consumed.
\<close>

theorem handshake_accepted:
  assumes "byte_stream conn rest" and "ec_ok ec" and "proto_ok proto" and "auth_message proto ec k ts = Ok m"
    and "length m \<le> 516" and "rest c = m @ extra" and "ts \<le> now" and "now \<le> ts + 10"
  shows "\<exists>c' n. ServerHandshake conn proto ec now c = (Ok ''ServerHandshakeInfo'', c') \<and>
    length m \<le> n \<and> rest c' = drop n (rest c)"
proof -
  obtain sig payload where sig: "SignWith ec k (le_bytes 8 ts) = Ok sig"
    and payload: "MarshalAuth proto \<lparr>Auth_Pubkey = SerializeCompressed ec (PubKeyOf ec k), Auth_Signature = SerializeSig ec sig,
      Auth_Timestamp = ts\<rparr> = Ok payload" and m: "m = le_bytes 4 (int (length payload)) @ payload"
    using assms(4) by (auto simp: auth_message_def)
  let ?rest = "rest c"
  have small: "length payload \<le> 512" using assms(5) m by simp
  then have len: "le_uint (take 4 ?rest) = int (length payload)" using assms(6) m le_uint_length [of payload] by simp
  have body: "drop 4 ?rest = payload @ extra" using assms(6) m by simp
  have "4 \<le> length ?rest" using assms(6) m by simp
  then obtain r c1 where r: "reader_ok r" "pending r @ rest c1 = drop 4 ?rest"
    and run: "ServerHandshake conn proto ec now c = attempt (ConnReader_Read conn (le_uint (take 4 ?rest)) r) (close_fail conn)
       (\<lambda>(body, _). attempt (of_res (UnmarshalAuth proto body)) (close_fail conn) (\<lambda>request.
         attempt (of_res (VerifyTimestampSig ec now (Auth_Pubkey request) (Auth_Signature request)
             (Auth_Timestamp request))) (close_fail conn) (\<lambda>_.
         attempt (SetReadDeadline conn None) (close_fail conn) (\<lambda>_. ret ''ServerHandshakeInfo'')))) c1"
    by (rule byte_stream.ServerHandshake_head [OF assms(1)])
  obtain r2 c2 where r2: "ConnReader_Read conn (int (length payload)) r c1 = (Ok (payload, r2), c2)"
    "pending r2 @ rest c2 = extra"
    using byte_stream.Read_small [OF assms(1) r(1) _ _ r(2), of "int (length payload)"] small body by auto
  obtain c3 where c3: "SetReadDeadline conn None c2 = (Ok (), c3)" "rest c3 = rest c2"
    using byte_stream.deadline [OF assms(1)] by blast
  have "UnmarshalAuth proto payload = Ok \<lparr>Auth_Pubkey = SerializeCompressed ec (PubKeyOf ec k),
      Auth_Signature = SerializeSig ec sig, Auth_Timestamp = ts\<rparr>"
    using assms(3) payload unfolding proto_ok_def by blast
  moreover have "sub64 now ts \<le> 10" using assms(7,8) by (simp add: sub64_def wrap64_id is_int64_def)
  then have "VerifyTimestampSig ec now (SerializeCompressed ec (PubKeyOf ec k)) (SerializeSig ec sig) ts = Ok ()"
    using assms(2,7) sig by (simp add: VerifyTimestampSig_Ok ec_ok_def)
  ultimately have "ServerHandshake conn proto ec now c = (Ok ''ServerHandshakeInfo'', c3)"
    by (simp add: run len r2(1) c3(1) of_res_def ret_def attempt_def)
  moreover have "rest c3 = drop (length m + length (pending r2)) ?rest"
    using c3(2) r2(2) assms(6) by (metis add.commute append_eq_conv_conj drop_drop)
  ultimately show ?thesis by (metis le_add1)
qed

theorem handshake_accepted_witness:
  "\<exists>c'. ServerHandshake list_conn demo_proto demo_ec 1003 demo_message = (Ok ''ServerHandshakeInfo'', c')"
  using handshake_accepted [OF list_conn.byte_stream_axioms demo_ec_ok demo_proto_ok demo_message, of demo_message "[]" 1003]
  by (auto simp: demo_message_def)

text \<open>
  C35: a large announcement hangs the server. Before anything is verified, a client that announces
  a body of more than 1024 bytes and sends 1024 of them keeps the handshake in its reading
  loop for ever: the buffer is full, and no deadline interrupts reads of no bytes.
\<close>

theorem ServerHandshake_hangs:
  assumes "byte_stream conn rest" and "1024 < le_uint (take 4 (rest c))" and "1028 \<le> length (rest c)"
  shows "fst (ServerHandshake conn proto ec now c) = Diverge"
proof -
  have "4 \<le> length (rest c)" using assms(3) by simp
  then obtain r c1 where r: "reader_ok r" "pending r @ rest c1 = drop 4 (rest c)"
    and run: "ServerHandshake conn proto ec now c = attempt (ConnReader_Read conn (le_uint (take 4 (rest c))) r) (close_fail conn)
       (\<lambda>(body, _). attempt (of_res (UnmarshalAuth proto body)) (close_fail conn) (\<lambda>request.
         attempt (of_res (VerifyTimestampSig ec now (Auth_Pubkey request) (Auth_Signature request)
             (Auth_Timestamp request))) (close_fail conn) (\<lambda>_.
         attempt (SetReadDeadline conn None) (close_fail conn) (\<lambda>_. ret ''ServerHandshakeInfo'')))) c1"
    by (rule byte_stream.ServerHandshake_head [OF assms(1)])
  have "ConnReader_Read conn (le_uint (take 4 (rest c))) r c1 = (Diverge, c1)"
    by (rule byte_stream.Read_hangs [OF assms(1) r(1) assms(2)]) (use r(2) assms(3) in simp)
  then show ?thesis by (simp add: run)
qed


theorem ServerHandshake_hangs_witness:
  "fst (ServerHandshake list_conn demo_proto demo_ec 1003 (le_bytes 4 2000 @ replicate 1024 0)) = Diverge"
  by (rule ServerHandshake_hangs [OF list_conn.byte_stream_axioms]) (simp_all add: le_uint_le_bytes)

text \<open>
  C36: what follows the message is lost. \<open>ConnReader\<close> reads ahead, and the server returns the bare
  connection: when the connection delivers more than the message at once, the bytes after
  it, up to the 1024th, are gone.
\<close>

theorem ServerHandshake_loses_following:
  assumes "ec_ok ec" and "proto_ok proto" and "auth_message proto ec k ts = Ok m"
    and "length m \<le> 516" and "ts \<le> now" and "now \<le> ts + 10"
  shows "ServerHandshake list_conn proto ec now (m @ extra) = (Ok ''ServerHandshakeInfo'', drop 1024 (m @ extra))"
proof -
  let ?c = "m @ extra"
  obtain c' n where run: "ServerHandshake list_conn proto ec now ?c = (Ok ''ServerHandshakeInfo'', c')"
    using handshake_accepted [OF list_conn.byte_stream_axioms assms(1-4) refl assms(5,6)] by blast
  obtain payload where m: "m = le_bytes 4 (int (length payload)) @ payload" using assms(3) by (auto simp: auth_message_def)
  have len: "le_uint (take 4 ?c) = int (length payload)" using assms(4) m le_uint_length [of payload] by simp
  have dl: "SetReadDeadline list_conn d c = (Ok (), c)" for d c by (simp add: list_conn_def ret_def)
  obtain r where head: "ConnReader_Read list_conn 4 NewConnReader ?c = (Ok (take 4 ?c, r), drop 1024 ?c)"
    and r: "reader_ok r" "pending r = drop 4 (take 1024 ?c)"
    by (rule list_conn_head [of ?c]) (use m in simp)
  have "int (length payload) \<le> int (length (pending r))" unfolding r(2) using m assms(4) by simp
  then have "ConnReader_Read list_conn (int (length payload)) r (drop 1024 ?c) =
      (Ok (take (length payload) (pending r), r\<lparr>readPos := readPos r + int (length payload)\<rparr>), drop 1024 ?c)"
    using slice_pending [OF r(1)] by (simp add: ConnReader_Read_def andThen_def of_res_def ret_def)
  then have "c' = drop 1024 ?c"
    using run unfolding ServerHandshake_def
    by (auto simp del: drop_append take_append simp: head len dl of_res_def close_fail_def ret_def elim!: attempt_eqE)
  then show ?thesis using run by simp
qed

theorem ServerHandshake_loses_following_witness:
  "snd (ServerHandshake list_conn demo_proto demo_ec 1003 (demo_message @ [1, 2, 3])) = []"
  using ServerHandshake_loses_following [OF demo_ec_ok demo_proto_ok demo_message, of 1003 "[1, 2, 3]"]
  by (simp add: demo_message_def)

end
