(* ===== verification/Util_Misc.thy ===== *)
theory Util_Misc
  imports Mapi
begin

text \<open>
  The helpers for logging and debugging in \<open>src/util/common.go\<close> and \<open>src/util/http_util.go\<close>: random log tags, JSON for log
  lines, and a request as a command line. \<open>ToJson\<close> and \<open>ToCurlStr\<close> have no caller.
\<close>

section \<open>The code\<close>

definition ToJson :: "('b \<Rightarrow> string res) \<Rightarrow> 'b \<Rightarrow> string res" where
  "ToJson marshal data =
     (case marshal data of Ok b \<Rightarrow> Ok b | Fail err \<Rightarrow> Panic (err_str err) | Stop x \<Rightarrow> Stop x)"

definition LETTER_BYTES :: string where
  "LETTER_BYTES = ''0123456789abcdefghijklmnopqrstuvwxyzABCDEFGHIJKLMNOPQRSTUVWXYZ''"

text \<open>Package \<open>math/rand\<close>: \<open>Seed\<close> with the time, and \<open>Intn\<close>, a number below its argument.\<close>

record 'w rand_lib =
  Seed :: "'w \<Rightarrow> 'w"
  Intn :: "int \<Rightarrow> 'w \<Rightarrow> int \<times> 'w"

fun RandStringBytes_loop :: "'w rand_lib \<Rightarrow> nat \<Rightarrow> ('w, string) io" where
  "RandStringBytes_loop rnd 0 w = (Ok [], w)"
| "RandStringBytes_loop rnd (Suc n) w =
     (case Intn rnd (int (length LETTER_BYTES)) w of
        (j, w1) \<Rightarrow>
          if 0 \<le> j \<and> j < int (length LETTER_BYTES)
          then andThen (RandStringBytes_loop rnd n) (\<lambda>b. ret (LETTER_BYTES ! nat j # b)) w1
          else (Panic ''index out of range'', w1))"

definition RandStringBytes :: "'w rand_lib \<Rightarrow> int \<Rightarrow> ('w, string) io" where
  "RandStringBytes rnd n w =
     (if n < 0 then (Panic ''makeslice: len out of range'', Seed rnd w)
      else RandStringBytes_loop rnd (nat n) (Seed rnd w))"

text \<open>The line \<open>ToCurlStr\<close> prints; \<open>header\<close> lists the map in the order in which it is visited.\<close>

definition ToCurlStr :: "string \<Rightarrow> (string \<times> string) list \<Rightarrow> string \<Rightarrow> string \<Rightarrow> string" where
  "ToCurlStr method header body url =
     ''curl '' @ concat (map (\<lambda>(key, val). ''-H '' @ [CHR 0x22] @ key @ '':'' @ val @ [CHR 0x22] @ '' '') header) @
     ''-X '' @ method @ '' --data '' @ [CHR 0x27] @ body @ [CHR 0x27] @ '' '' @ url"


section \<open>Random tags\<close>

definition rand_ok :: "'w rand_lib \<Rightarrow> bool" where
  "rand_ok rnd \<longleftrightarrow> (\<forall>n w. 0 < n \<longrightarrow> 0 \<le> fst (Intn rnd n w) \<and> fst (Intn rnd n w) < n)"

lemma LETTER_BYTES_length: "length LETTER_BYTES = 62"
  by (simp add: LETTER_BYTES_def)

text \<open>A tag has the length asked for and consists of digits and letters; none is ever missing.\<close>

lemma RandStringBytes_tag:
  assumes "rand_ok rnd" "0 \<le> n"
  shows "\<exists>tag w'. RandStringBytes rnd n w = (Ok tag, w') \<and> int (length tag) = n \<and> set tag \<subseteq> set LETTER_BYTES"
proof -
  have "\<exists>tag w'. RandStringBytes_loop rnd m v = (Ok tag, w') \<and> length tag = m \<and> set tag \<subseteq> set LETTER_BYTES" for m v
  proof (induction m arbitrary: v)
    case (Suc m)
    obtain j v1 where j: "Intn rnd (int (length LETTER_BYTES)) v = (j, v1)" by fastforce
    have "0 < int (length LETTER_BYTES)" by (simp add: LETTER_BYTES_length)
    then have "0 \<le> fst (Intn rnd (int (length LETTER_BYTES)) v) \<and>
        fst (Intn rnd (int (length LETTER_BYTES)) v) < int (length LETTER_BYTES)"
      using assms(1) unfolding rand_ok_def by blast
    then have bound: "0 \<le> j" "j < int (length LETTER_BYTES)" by (simp_all add: j)
    obtain tag w' where "RandStringBytes_loop rnd m v1 = (Ok tag, w')" "length tag = m" "set tag \<subseteq> set LETTER_BYTES"
      using Suc.IH by blast
    moreover have "LETTER_BYTES ! nat j \<in> set LETTER_BYTES" using bound by (intro nth_mem) linarith
    ultimately show ?case using j bound by (simp add: go_simps attempt_def)
  qed simp
  from this [of "nat n" "Seed rnd w"] show ?thesis using assms(2) by (auto simp: RandStringBytes_def)
qed

end
