(* ===== verification/Node_Repo.thy ===== *)
theory Node_Repo
  imports Mongo_Db
begin

text \<open>
  \<open>src/models/node.go\<close>: a collection of known nodes. Nothing in the program creates this repository; the
  nodes it connects to come from the configuration.
\<close>

section \<open>The code\<close>

definition TABLE_NODE :: string where "TABLE_NODE = ''node''"

record node_row =
  Row_Host :: string
  Row_Pubkey :: string

definition doc_of_node :: "node_row \<Rightarrow> doc" where
  "doc_of_node n = [''host'' \<mapsto> BStr (Row_Host n), ''pubkey'' \<mapsto> BStr (Row_Pubkey n)]"

text \<open>
  \<open>GetNodes\<close> hands the slice \<open>nodes\<close> itself to \<open>All\<close> of \<open>mgo\<close>, which requires the address of one. What \<open>All\<close> does then is
  a parameter; \<open>nodes\<close>, of length 0, cannot be changed by it.
\<close>

definition GetNodes ::
  "'w mgo \<Rightarrow> (string \<Rightarrow> qual list \<Rightarrow> string \<Rightarrow> int \<Rightarrow> int \<Rightarrow> ('w, unit) io) \<Rightarrow> int \<Rightarrow> int \<Rightarrow> ('w, node_row list) io" where
  "GetNodes drv all_by_value offset limit =
     andThen (Exec drv (all_by_value TABLE_NODE [] MONGO_ID offset limit)) (\<lambda>_. ret [])"

definition AddNode :: "'w mgo \<Rightarrow> string \<Rightarrow> ('w, unit) io" where
  "AddNode drv host = Insert drv TABLE_NODE (doc_of_node \<lparr>Row_Host = host, Row_Pubkey = []\<rparr>)"


section \<open>What it does\<close>

lemma GetNodes_nothing: "GetNodes drv all_by_value offset limit w = (Ok nodes, w') \<Longrightarrow> nodes = []"
  by (auto simp: GetNodes_def andThen_eq_Ok ret_def)

context mongo
begin

text \<open>A node is stored with its host and without a key, next to what was there.\<close>

lemma AddNode_res:
  assumes "AddNode drv host w = (Ok u, w')"
  shows "docs w' = (docs w)(TABLE_NODE := docs w TABLE_NODE @ [doc_of_node \<lparr>Row_Host = host, Row_Pubkey = []\<rparr>])"
  using Insert_res [OF assms [unfolded AddNode_def]] by simp

end

end
