(* ===== verification/Spec2Isabelle.thy ===== *)
theory Spec2Isabelle
  imports Startup Reorg Submit Handshake Tx_Batch Tx_Sort Util_Misc Node_Repo
begin

text \<open>
  A verification of Touchstone, a server that keeps a ledger of badges (tokens) on the BSV chain.

  \<^bold>\<open>The program.\<close> A badge transaction carries badge amounts in its locking scripts
  (\<open>src/util/bitcoin_util.go\<close>). The service (\<open>src/services/touchstone_server.go\<close>) fetches transactions from
  clients and peers once a miner acknowledges them, records them, checks them against the badge
  protocol and stores one point per badge input and output. Balances, unspent outputs and payments are
  computed from the points. Peers compare hashes of partitions of the chain and fetch what they lack.
  Background loops connect peers, synchronise, follow the chain and mark points that are safely spent.
  Everything is kept in MongoDB through four repositories (\<open>src/models\<close>); the miner is asked through
  \<open>src/mapi\<close>; clients use HTTP (\<open>src/interceptor/http_interceptor.go\<close>, \<open>src/controller/http_controller.go\<close>),
  peers use gRPC (\<open>src/interceptor/p2p_interceptor.go\<close>, \<open>src/controller/p2p_controller.go\<close>).

  \<^bold>\<open>How it is modelled.\<close> Operations are functions from a state to a result and a state, the type
  \<open>('s, 'a) io\<close> of \<open>Go_Prelude\<close>: a result is a value, an error value or a panic, so that every error return and
  panic of the sources is a branch. Go's \<open>int64\<close> is \<open>int\<close> with the wrap-around written out (\<open>add64\<close>,
  \<open>sub64\<close>), a byte is \<open>8 word\<close>. The type \<open>'w\<close> of worlds holds whatever is outside the program, above
  all the database; a server (record \<open>server\<close> of \<open>Server\<close>) is a world together with the fields of
  \<open>TouchstoneServer\<close>, and a process (record \<open>process\<close> of \<open>Process\<close>) is a server together with its private
  key and its goroutines.

  \<^bold>\<open>Parameters and their contracts.\<close> Code outside \<open>src\<close> is an argument: the driver \<open>mgo\<close> (locale \<open>mongo\<close>, any call
  may fail; \<open>mongo_up\<close>, none does; both interpreted on a database in memory), \<open>btcutil\<close> and
  \<open>txscript\<close> (\<open>addr_lib_ok\<close>), \<open>btcd/wire\<close> (\<open>tx_ok\<close>), \<open>btcec\<close> (\<open>ec_ok\<close>), connections (locale
  \<open>byte_stream\<close>), \<open>sort.Sort\<close> (locale \<open>go_sort\<close>), the clock and the order of map iteration
  (\<open>runtime_ok\<close>), the miner and the peers (\<open>net_ok\<close>: they cannot write to the database), JSON and
  protobuf. \<open>chain_ok\<close> says that the miner acknowledges only transactions of one chain without double
  spends; what a miner acknowledges is what it does not deny in some world, so \<open>chain_ok\<close> covers all its answers and not only
  those of one run. \<open>knows\<close> says that it does not deny the transactions of the chain. \<open>mongo\<close> promises that a failed insertion or
  update of one document has changed nothing, and that an iteration sees one state; a driver that reports a timeout after the server has
  written is not covered, while updates and deletions of many documents may fail half way.

  \<^bold>\<open>The theories.\<close>
  \<^item> \<open>Go_Prelude\<close>, \<open>Go_Strings\<close>: results, the monad, integers, hex, little endian, \<open>strings\<close> and \<open>fmt\<close>, with round trips.
  \<^item> \<open>Config\<close>: \<open>src/conf/config.go\<close> and \<open>src/util/error.go\<close>. \<open>Util_Common\<close>: \<open>SplitString\<close> of \<open>src/util/common.go\<close>.
  \<^item> \<open>Badge_Script\<close>: \<open>CreateBadgeLockScript\<close> and \<open>ParseBadgeVoutScript\<close>; the parser accepts exactly the badge
    scripts and reads back what is written.
  \<^item> \<open>Wire\<close>, \<open>Tx_Sort\<close>: transactions; \<open>SortMsgTx\<close> is a permutation that puts spenders last (locale \<open>tx_sorter\<close>),
    the unused \<open>DfsSortAndDistinctMsgTxs\<close> is not.
  \<^item> \<open>Mongo_Db\<close>: sessions and operations of \<open>MongoDb\<close>, with the contract of each on every outcome.
    \<open>Tx_Point_Repo\<close>, \<open>Tx_Info_Repo\<close>, \<open>Addr_Info_Repo\<close>, \<open>Partition_Repo\<close>: the repositories, their encodings and the
    aggregation pipeline.
  \<^item> \<open>Ledger_Store\<close>: the locales \<open>ledger\<close> and \<open>ledger_up\<close>, what the service relies on of the first two repositories;
    every database that satisfies \<open>mongo\<close> provides it.
  \<^item> \<open>Tx_Processing\<close>: \<open>GetTxPoint\<close> to \<open>ProcessMsgTxs\<close>. \<open>ParseMsgTx\<close> refines a specification of the badge protocol
    (\<open>parse_spec\<close>, which has the panic of the code on an input it marks as illegal) and conserves badges. \<open>Tx_Batch\<close>: progress on a
    database that is up: exactly when a transaction is closed, left open, or makes the server panic. \<open>Supply\<close>: no inflation.
    \<open>Set_Spent\<close>: \<open>SetSpent\<close> marks consistently. \<open>Raw_Tx\<close>: recorded transactions are read back.
  \<^item> \<open>Queries\<close>: inventories, unspent outputs, balances, pages. \<open>Ledger_History\<close>: the invariant of the ledger, the
    exactness of balances and the idempotence of processing in every state that recording, processing, registering, marking and
    updating heights lead to; removal is in \<open>Chain_Watch\<close> and \<open>Reorg\<close>.
  \<^item> \<open>Mapi\<close>: the client of the miner. \<open>Server\<close>: peers, partition hashes, answers to peers. \<open>Sync\<close>:
    \<open>SyncTxs\<close>, \<open>SyncState\<close>, \<open>ConnectPeer\<close>; peers cannot forge transactions. \<open>Chain_Watch\<close>: \<open>CheckTxState\<close>, which
    transactions it watches, and how it loses one that returns to the mempool. \<open>Payments\<close>:
    \<open>SendBadgeToAddress\<close> balances.
  \<^item> \<open>Frames\<close>: the calculus \<open>keeps\<close> of invariants of operations. \<open>Server_History\<close>: the locales \<open>node\<close>,
    \<open>node_invariant\<close> and \<open>chain_node\<close>, and the invariant of the service under what clients and peers ask for.
    \<open>Submit\<close>: a submitted transaction is settled, from end to end.
  \<^item> \<open>Auth\<close>, \<open>Handshake\<close>: metadata and handshake of peers, \<open>src/interceptor/p2p_interceptor.go\<close>.
  \<^item> \<open>Http_Api\<close>: the HTTP interface; requests keep what the services keep and cannot make handlers dereference \<open>nil\<close>. The
    pointers in a list are dereferenced before the service is called, not in its loop; after \<open>CheckNil\<close> there is no difference.
  \<^item> \<open>Process\<close>: \<open>src/main.go\<close>, \<open>Init\<close>, the loops, the calls of peers; the invariants of the running program over starts,
    crashes, requests, calls and rounds of the loops in any order, while the miner forgets no transaction of the chain.
  \<^item> \<open>Db_Shape\<close>: the collections are well-formed at all times, whatever the miner says. \<open>Startup\<close>: the beginning of
    \<open>main\<close>, from the configuration file to the client of the miner; it is the step \<open>restart\<close> of \<open>Process\<close>, and
    from there the collections stay well-formed, by assumptions on the libraries alone. \<open>Reorg\<close>: when the miner has forgotten
    transactions, \<open>CheckTxState\<close> leaves the consistent ledger of the others; the invariants of the running program over histories
    with such reorganisations.
  \<^item> This theory: what clients are told over HTTP of balances, in every state of such a history.
  \<^item> \<open>Node_Repo\<close>, \<open>Util_Misc\<close>: \<open>src/models/node.go\<close>, which nothing uses, and the helpers for logging.

  \<^bold>\<open>Loops and bounds.\<close> Loops over lists are structural recursion. \<open>SyncPatitions\<close> advances by a fixed number of partitions and has
  fuel for the whole range, which is shown to be enough. Loops that may not end
  (\<open>GetMsgTxInfo\<close>, \<open>ConnReader.Read\<close>) are partial functions; that they return, and when they do not, is proved. A client's
  handshake message is at most 512 bytes long in the theorem on its acceptance, half of the buffer. The
  loops of the background jobs are steps of a process, one per round.

  \<^bold>\<open>Not modelled.\<close> Listening, pauses and log output of \<open>src/main.go\<close> and the loops; that a server which cannot listen
  panics is one of the crashes of \<open>Process\<close>. The mutexes and the interleaving of goroutines within an operation (operations
  interleave as wholes here; the sources exclude \<open>SyncTxs\<close> against \<open>ClearMsgTx\<close> only). Balances between a reorganisation and the round of
  \<open>CheckTxStateLoop\<close> that follows it, and after a reorganisation that round cannot repair: \<open>ClearMsgTx\<close> leaves transactions that spend
  removed ones, so that the ledger is consistent again only under the conditions stated in \<open>Reorg\<close>, on the transactions the miner has
  forgotten. The methods \<open>Info\<close>, \<open>OverrideServerName\<close>, \<open>RequireTransportSecurity\<close> and \<open>AuthType\<close>, which return constants
  to \<open>grpc\<close>. The generated code of \<open>src/message\<close>.
\<close>


section \<open>Properties of the whole program\<close>

text \<open>
  C20: what clients are told about balances. Let the program run, after any history of requests, calls of peers, loops,
  crashes and repairable reorganisations, and let the database answer. A request to
  \<open>/v1/touchstone/getaddrbalance\<close> or \<open>/v1/touchstone/getuserbalance\<close> changes no document. If its body cannot be decoded, the
  client gets code -2 and the error; if a field is missing, code -2 and that message; and otherwise code 0 and exactly the balance
  of the address or the sum of the balances of the addresses registered for the user.
\<close>

theorem http_balance_exact:
  assumes "mongo_up (Db (Env (Senv penv))) docs uniq" and "reorg_history docs uniq penv client S p" and "Running p"
    and "quiet_json (HttpJson penv)" and "(path, m) \<in> set (routes (Senv (with_miner client penv)) (HttpJson penv) (Ok body))"
    and "path \<in> {''/v1/touchstone/getaddrbalance'', ''/v1/touchstone/getuserbalance''}" and "on_server m p = (r, p')"
  shows "docs (World (TouchstoneServer p')) = docs (World (TouchstoneServer p)) \<and>
    r = Ok (if path = ''/v1/touchstone/getaddrbalance''
      then addr_balance_answer (HttpJson penv) (docs (World (TouchstoneServer p))) body
      else user_balance_answer (HttpJson penv) (docs (World (TouchstoneServer p))) body)"
proof -
  let ?senv = "Senv (with_miner client penv)" and ?s = "TouchstoneServer p"
  have up: "mongo_up (Db (Env ?senv)) docs uniq" using assms(1) by simp
  have "epoch docs uniq penv client S" "process_inv docs uniq (service_inv (Env (Senv penv)) S docs uniq) p"
    using reorg_history_inv [OF mongo_up.axioms(1) [OF assms(1)] assms(2)] by simp_all
  then have inv: "service_inv (Env ?senv) S docs uniq (World ?s)" and nd: "no_double_spend S"
    using assms(3) by (simp_all add: process_inv_def node_inv_def epoch_def chain_ok_def)
  obtain s' where run: "m ?s = (r, s')" and p': "p' = p\<lparr>TouchstoneServer := s'\<rparr>" using assms(7) by (auto simp: on_server_eq)
  show ?thesis
    using assms(5,6) run addr_balance_route [OF up inv nd assms(4)] user_balance_route [OF up inv nd assms(4)]
    by (auto simp: routes_def p')
qed

theorem http_balance_exact_witness:
  "\<exists>m p'. (''/v1/touchstone/getaddrbalance'', m) \<in> set (routes (Senv reorg_penv) (HttpJson reorg_penv) (Ok (Addr reorg_point))) \<and>
     on_server m reorg_running = (Ok ''100'', p')"
proof -
  let ?js = "HttpJson reorg_penv" and ?path = "''/v1/touchstone/getaddrbalance''" and ?db = "mem_docs (World (TouchstoneServer reorg_running))"
  obtain m where m: "(?path, m) \<in> set (routes (Senv reorg_penv) ?js (Ok (Addr reorg_point)))" by (auto simp: routes_def)
  obtain r p' where run: "on_server m reorg_running = (r, p')" by fastforce
  have up: "mongo_up (Db (Env (Senv reorg_penv))) mem_docs (\<lambda>w c. set (mem_uniq w c))"
    using mem.mongo_up_axioms by (simp add: reorg_penv_def reorg_senv_def)
  have quiet: "quiet_json ?js" using demo_json_quiet by (simp add: quiet_json_def reorg_penv_def reorg_json_def)
  have miner: "with_miner (answering RETURN_RESULT_SUCCESS [] 895) reorg_penv = reorg_penv"
    by (simp add: with_miner_def reorg_penv_def reorg_senv_def)
  have "points_of ?db = [reorg_point]"
    by (simp add: reorg_running reorg_started) (simp add: points_of_def reorg_server_def new_server_def)
  moreover have "format_int (balance [reorg_point] (Addr reorg_point) (demo_txid 1)) = ''100''" by code_simp
  ultimately have "addr_balance_answer ?js ?db (Addr reorg_point) = ''100''"
    by (simp add: addr_balance_answer_def answer_def reorg_penv_def reorg_json_def)
  then have "r = Ok ''100''"
    using http_balance_exact [OF up reorg_before reorg_running(4) quiet, unfolded miner, OF m _ run] by simp
  then show ?thesis using m run by blast
qed

end
